(* ===== verification/Prelude.thy ===== *)
theory Prelude imports Main "HOL-Library.Word" begin

text \<open>
  Shared vocabulary of the development: the C fragments every component of MaestroCore uses.

  \<^item> bytes and C strings (a C string is the part of a buffer before its first NUL), the
    functions of \<^verbatim>\<open>string.h\<close> and \<^verbatim>\<open>ctype.h\<close> the sources call, in the C locale;
  \<^item> the widths of the LP64 data model the library is built for (\<^verbatim>\<open>int\<close> 32 bits,
    \<^verbatim>\<open>size_t\<close>, \<^verbatim>\<open>ssize_t\<close> and \<^verbatim>\<open>long\<close> 64 bits), with the conversions written out;
  \<^item> the error codes of \<^verbatim>\<open>utils/include/maestroutils/error.h\<close>;
  \<^item> faults: undefined behaviour is a value of its own (\<open>Inl\<close> of a \<open>fault\<close>), never a result;
  \<^item> the allocator: \<open>malloc\<close> follows a script of outcomes, so that every
    out-of-memory branch of the sources is a branch of the model.
\<close>

section \<open>Collections\<close>

named_theorems c_conv \<open>conversions between C integer types on values in range\<close>
named_theorems c_string \<open>facts about C strings and the string functions\<close>
named_theorems err_codes \<open>the numeric values of the error codes\<close>
named_theorems alloc_simps \<open>evaluation of allocator calls\<close>

section \<open>Types\<close>

type_synonym byte = char
type_synonym cstring = "char list"
type_synonym alloc = "bool list"

datatype fault = NullDeref | OutOfBounds | UseAfterFree | SignedOverflow | InvalidFree | Uninitialised

type_synonym 'a res = "fault + 'a"

text \<open>The outcome of code with loops: \<open>None\<close> when it never returns.\<close>

type_synonym 'a out = "'a res option"

abbreviation ret :: "'a \<Rightarrow> 'a out" where "ret x \<equiv> Some (Inr x)"

abbreviation fault :: "fault \<Rightarrow> 'a out" where "fault f \<equiv> Some (Inl f)"

definition res_bind :: "'a res \<Rightarrow> ('a \<Rightarrow> 'b res) \<Rightarrow> 'b res" where
  "res_bind m k = (case m of Inl f \<Rightarrow> Inl f | Inr x \<Rightarrow> k x)"

definition out_bind :: "'a out \<Rightarrow> ('a \<Rightarrow> 'b out) \<Rightarrow> 'b out" where
  "out_bind m k = (case m of None \<Rightarrow> None | Some (Inl f) \<Rightarrow> Some (Inl f) | Some (Inr x) \<Rightarrow> k x)"

lemma res_bind_simps [simp]: "res_bind (Inl f) k = Inl f" "res_bind (Inr x) k = k x"
  by (simp_all add: res_bind_def)

lemma out_bind_simps [simp]:
  "out_bind None k = None" "out_bind (fault f) k = fault f" "out_bind (ret x) k = k x"
  by (simp_all add: out_bind_def)

lemma res_bind_eq_Inr: "res_bind m k = Inr y \<longleftrightarrow> (\<exists>x. m = Inr x \<and> k x = Inr y)"
  by (cases m) auto

lemma out_bind_eq_ret: "out_bind m k = ret y \<longleftrightarrow> (\<exists>x. m = ret x \<and> k x = ret y)"
  by (auto simp: out_bind_def split: option.splits sum.splits)

section \<open>Error codes (error.h)\<close>

definition SUCCESS :: int where [err_codes]: "SUCCESS = 0"
definition ERR_INVALID_ARG :: int where [err_codes]: "ERR_INVALID_ARG = -1"
definition ERR_BAD_FORMAT :: int where [err_codes]: "ERR_BAD_FORMAT = -3"
definition ERR_NO_MEMORY :: int where [err_codes]: "ERR_NO_MEMORY = -10"
definition ERR_IO :: int where [err_codes]: "ERR_IO = -20"
definition ERR_TIMEOUT :: int where [err_codes]: "ERR_TIMEOUT = -21"
definition ERR_WOULD_BLOCK :: int where [err_codes]: "ERR_WOULD_BLOCK = -22"
definition ERR_CONNECTION_LOST :: int where [err_codes]: "ERR_CONNECTION_LOST = -23"
definition ERR_CONNECTION_FAIL :: int where [err_codes]: "ERR_CONNECTION_FAIL = -24"
definition ERR_BUSY :: int where [err_codes]: "ERR_BUSY = -25"
definition ERR_IN_PROGRESS :: int where [err_codes]: "ERR_IN_PROGRESS = -26"
definition ERR_PARSE :: int where [err_codes]: "ERR_PARSE = -30"
definition ERR_JSON_PARSE :: int where [err_codes]: "ERR_JSON_PARSE = -31"
definition ERR_JSON_OBJ_NOT_FOUND :: int where [err_codes]: "ERR_JSON_OBJ_NOT_FOUND = -32"
definition ERR_NOT_FOUND :: int where [err_codes]: "ERR_NOT_FOUND = -40"
definition ERR_INTERNAL :: int where [err_codes]: "ERR_INTERNAL = -100"
definition ERR_FATAL :: int where [err_codes]: "ERR_FATAL = -101"

section \<open>Integer conversions\<close>

definition c_int :: "int \<Rightarrow> int" where
  "c_int x = (x + 2 ^ 31) mod 2 ^ 32 - 2 ^ 31"

definition c_size :: "int \<Rightarrow> int" where
  "c_size x = x mod 2 ^ 64"

definition c_ssize :: "int \<Rightarrow> int" where
  "c_ssize x = (x + 2 ^ 63) mod 2 ^ 64 - 2 ^ 63"

definition INT_MAX :: int where "INT_MAX = 2 ^ 31 - 1"
definition INT_MIN :: int where "INT_MIN = - (2 ^ 31)"
definition LONG_MAX :: int where "LONG_MAX = 2 ^ 63 - 1"
definition LONG_MIN :: int where "LONG_MIN = - (2 ^ 63)"

text \<open>C division and remainder truncate towards zero.\<close>

definition c_div :: "int \<Rightarrow> int \<Rightarrow> int" where
  "c_div a b = sgn a * sgn b * (\<bar>a\<bar> div \<bar>b\<bar>)"

definition c_mod :: "int \<Rightarrow> int \<Rightarrow> int" where
  "c_mod a b = a - b * c_div a b"

lemma c_int_id [c_conv]: "- (2 ^ 31) \<le> x \<Longrightarrow> x < 2 ^ 31 \<Longrightarrow> c_int x = x"
  by (simp add: c_int_def)

lemma c_int_nat_id [c_conv]: "n < 2 ^ 31 \<Longrightarrow> c_int (int n) = int n"
  by (rule c_int_id) auto

lemma c_int_range: "- (2 ^ 31) \<le> c_int x" "c_int x < 2 ^ 31"
  using pos_mod_bound [of "2 ^ 32" "x + 2 ^ 31"] by (simp_all add: c_int_def)

lemma c_size_id [c_conv]: "0 \<le> x \<Longrightarrow> x < 2 ^ 64 \<Longrightarrow> c_size x = x"
  by (simp add: c_size_def)

lemma c_ssize_id [c_conv]: "- (2 ^ 63) \<le> x \<Longrightarrow> x < 2 ^ 63 \<Longrightarrow> c_ssize x = x"
  by (simp add: c_ssize_def)

lemma c_div_nonneg: "0 \<le> a \<Longrightarrow> 0 < b \<Longrightarrow> c_div a b = a div b"
  by (cases "a = 0") (simp_all add: c_div_def)

lemma c_mod_nonneg: "0 \<le> a \<Longrightarrow> 0 < b \<Longrightarrow> c_mod a b = a mod b"
  by (simp add: c_mod_def c_div_nonneg minus_mult_div_eq_mod)

section \<open>Characters (ctype.h, C locale)\<close>

abbreviation NUL :: char where "NUL \<equiv> CHR 0x00"
abbreviation TAB :: char where "TAB \<equiv> CHR 0x09"
abbreviation LF :: char where "LF \<equiv> CHR 0x0A"
abbreviation CR :: char where "CR \<equiv> CHR 0x0D"
abbreviation SP :: char where "SP \<equiv> CHR 0x20"

definition CRLF :: cstring where "CRLF = [CR, LF]"

definition char_code :: "char \<Rightarrow> int" where
  "char_code c = int (of_char c)"

definition isspace :: "char \<Rightarrow> bool" where
  "isspace c \<longleftrightarrow> c = SP \<or> c = TAB \<or> c = LF \<or> c = CHR 0x0B \<or> c = CHR 0x0C \<or> c = CR"

definition isdigit :: "char \<Rightarrow> bool" where
  "isdigit c \<longleftrightarrow> 48 \<le> char_code c \<and> char_code c \<le> 57"

definition tolower :: "char \<Rightarrow> char" where
  "tolower c = (if 65 \<le> char_code c \<and> char_code c \<le> 90 then char_of (nat (char_code c + 32)) else c)"

section \<open>C strings (string.h)\<close>

definition c_str :: "byte list \<Rightarrow> cstring" where
  "c_str bs = takeWhile (\<lambda>c. c \<noteq> NUL) bs"

primrec strchr :: "cstring \<Rightarrow> char \<Rightarrow> nat option" where
  "strchr [] c = None"
| "strchr (x # xs) c = (if x = c then Some 0 else map_option Suc (strchr xs c))"

primrec strstr :: "cstring \<Rightarrow> cstring \<Rightarrow> nat option" where
  "strstr [] nd = (if nd = [] then Some 0 else None)"
| "strstr (x # xs) nd =
     (if take (length nd) (x # xs) = nd then Some 0 else map_option Suc (strstr xs nd))"

text \<open>Removing a trailing run of characters, as the loops that write NUL backwards do.\<close>

definition rstrip :: "(char \<Rightarrow> bool) \<Rightarrow> cstring \<Rightarrow> cstring" where
  "rstrip p s = rev (dropWhile p (rev s))"

definition is_c_str :: "cstring \<Rightarrow> bool" where
  "is_c_str s \<longleftrightarrow> NUL \<notin> set s"

lemma c_str_is_c_str [simp, c_string]: "is_c_str (c_str bs)"
  by (auto simp: is_c_str_def c_str_def dest: set_takeWhileD)

lemma c_str_id [c_string]: "is_c_str s \<Longrightarrow> c_str s = s"
  by (auto simp: is_c_str_def c_str_def takeWhile_eq_all_conv)

lemma is_c_str_append [simp]: "is_c_str (xs @ ys) \<longleftrightarrow> is_c_str xs \<and> is_c_str ys"
  by (auto simp: is_c_str_def)

lemma is_c_str_take [simp]: "is_c_str s \<Longrightarrow> is_c_str (take n s)"
  by (auto simp: is_c_str_def dest: in_set_takeD)

lemma is_c_str_drop [simp]: "is_c_str s \<Longrightarrow> is_c_str (drop n s)"
  by (auto simp: is_c_str_def dest: in_set_dropD)

lemma strchr_None_iff: "strchr s c = None \<longleftrightarrow> c \<notin> set s"
  by (induction s) auto

lemma strchr_Some_iff:
  "strchr s c = Some i \<longleftrightarrow> i < length s \<and> s ! i = c \<and> c \<notin> set (take i s)"
proof (induction s arbitrary: i)
  case (Cons x xs)
  show ?case
    by (cases i) (auto simp: Cons.IH)
qed simp

lemma strchr_append_found [c_string]: "c \<notin> set xs \<Longrightarrow> strchr (xs @ c # ys) c = Some (length xs)"
  by (induction xs) auto

lemma strchr_notin [c_string]: "c \<notin> set xs \<Longrightarrow> strchr xs c = None"
  by (simp add: strchr_None_iff)

lemma strchr_Some_split: "strchr s c = Some i \<Longrightarrow> s = take i s @ c # drop (Suc i) s"
  by (auto simp: strchr_Some_iff id_take_nth_drop)

lemma strchr_Some_less: "strchr s c = Some i \<Longrightarrow> i < length s"
  by (simp add: strchr_Some_iff)

lemma strstr_Some_prefix: "strstr s nd = Some i \<Longrightarrow> take (length nd) (drop i s) = nd \<and> i \<le> length s"
proof (induction s arbitrary: i)
  case Nil
  then show ?case by (auto split: if_splits)
next
  case (Cons x xs)
  then show ?case by (auto split: if_splits)
qed

lemma strstr_Some_iff:
  "strstr s nd = Some i \<longleftrightarrow> i \<le> length s \<and> take (length nd) (drop i s) = nd \<and>
     (\<forall>j<i. take (length nd) (drop j s) \<noteq> nd)"
proof (induction s arbitrary: i)
  case (Cons x xs)
  show ?case
  proof (cases i)
    case (Suc k)
    have "(\<forall>j<i. take (length nd) (drop j (x # xs)) \<noteq> nd) \<longleftrightarrow>
        take (length nd) (x # xs) \<noteq> nd \<and> (\<forall>j<k. take (length nd) (drop j xs) \<noteq> nd)"
      unfolding Suc by (simp add: All_less_Suc2)
    with Suc Cons.IH show ?thesis by auto
  qed auto
qed auto

lemma rstrip_id [c_string]: "(s \<noteq> [] \<Longrightarrow> \<not> p (last s)) \<Longrightarrow> rstrip p s = s"
  by (cases s rule: rev_cases) (auto simp: rstrip_def)

lemma rstrip_last: "rstrip p s \<noteq> [] \<Longrightarrow> \<not> p (last (rstrip p s))"
  using hd_dropWhile [of p "rev s"] by (auto simp: rstrip_def last_rev)

lemma rstrip_prefix: "\<exists>t. s = rstrip p s @ t \<and> list_all p t"
proof -
  have "rev s = takeWhile p (rev s) @ dropWhile p (rev s)" by simp
  then have "s = rev (dropWhile p (rev s)) @ rev (takeWhile p (rev s))"
    by (metis rev_append rev_rev_ident)
  moreover have "list_all p (rev (takeWhile p (rev s)))"
    by (auto simp: list_all_iff dest: set_takeWhileD)
  ultimately show ?thesis unfolding rstrip_def by blast
qed

lemma is_c_str_rstrip [simp]: "is_c_str s \<Longrightarrow> is_c_str (rstrip p s)"
  by (auto simp: is_c_str_def rstrip_def dest: set_dropWhileD)

section \<open>The allocator\<close>

text \<open>
  \<open>malloc\<close>, \<open>calloc\<close> and \<open>realloc\<close> take their outcomes from a script: the head says whether
  the next request is granted; when the script is used up every request is granted.
\<close>

fun malloc :: "alloc \<Rightarrow> bool \<times> alloc" where
  "malloc [] = (True, [])"
| "malloc (b # bs) = (b, bs)"

definition strdup :: "cstring \<Rightarrow> alloc \<Rightarrow> cstring option \<times> alloc" where
  "strdup s a = (case malloc a of (ok, a') \<Rightarrow> (if ok then Some s else None, a'))"

declare malloc.simps [alloc_simps]

lemma strdup_simps [simp, alloc_simps]:
  "strdup s [] = (Some s, [])"
  "strdup s (True # a) = (Some s, a)"
  "strdup s (False # a) = (None, a)"
  by (simp_all add: strdup_def)

lemma strdup_Some: "strdup s a = (Some t, a') \<Longrightarrow> t = s"
  by (auto simp: strdup_def split: prod.splits if_splits)

section \<open>Searching by index\<close>

lemma find_upt_Some_iff:
  "find P [lo..<hi] = Some i \<longleftrightarrow> lo \<le> i \<and> i < hi \<and> P i \<and> (\<forall>j. lo \<le> j \<and> j < i \<longrightarrow> \<not> P j)"
proof
  assume "find P [lo..<hi] = Some i"
  then obtain k where k: "k < length [lo..<hi]" "P ([lo..<hi] ! k)" "i = [lo..<hi] ! k"
      "\<forall>j<k. \<not> P ([lo..<hi] ! j)"
    by (auto simp: find_Some_iff)
  have "\<not> P j" if "lo \<le> j" "j < i" for j
    using k(4) [rule_format, of "j - lo"] k(1,3) that by auto
  with k show "lo \<le> i \<and> i < hi \<and> P i \<and> (\<forall>j. lo \<le> j \<and> j < i \<longrightarrow> \<not> P j)" by auto
next
  assume a: "lo \<le> i \<and> i < hi \<and> P i \<and> (\<forall>j. lo \<le> j \<and> j < i \<longrightarrow> \<not> P j)"
  then have "i - lo < length [lo..<hi] \<and> P ([lo..<hi] ! (i - lo)) \<and> i = [lo..<hi] ! (i - lo) \<and>
      (\<forall>j<i - lo. \<not> P ([lo..<hi] ! j))"
    by auto
  then show "find P [lo..<hi] = Some i" by (auto simp: find_Some_iff)
qed

lemma find_upt_None_iff: "find P [lo..<hi] = None \<longleftrightarrow> (\<forall>j. lo \<le> j \<and> j < hi \<longrightarrow> \<not> P j)"
  by (auto simp: find_None_iff)

end
