(* ===== verification/World.thy ===== *)
theory World imports Prelude begin

text \<open>
  The operating system as the sources see it: the state behind the system calls they make.

  Every outcome a call can have is taken from a script in the state (addresses found, connections
  refused, bytes delivered in any segmentation, clock readings), so a theorem that quantifies over
  the state quantifies over what the network and the kernel may do. When a script is used up the
  call has its ordinary outcome, which each definition states.

  \<^item> descriptors are integers; \<open>w_open\<close> lists the open ones and \<open>sys_socket\<close> returns the lowest
    unused one, as POSIX requires;
  \<^item> per descriptor, \<open>w_in\<close> is what the peer sends (data, an error, end of stream) and \<open>w_out\<close> the
    bytes the kernel accepted; \<open>w_send\<close> says how much each call of \<^verbatim>\<open>send\<close> accepts;
  \<^item> \<open>w_clock\<close> holds the readings of the monotonic clock, \<open>w_time\<close> those of \<^verbatim>\<open>time(NULL)\<close>, and
    \<open>w_sleeps\<close> records the requests made to \<^verbatim>\<open>nanosleep\<close>;
  \<^item> \<open>w_sched\<close> is the global task table of the scheduler, \<open>w_ca\<close> the global CA chain, and
    \<open>w_delivered\<close> records the calls of the clients' success callbacks.

  The memory of the program itself (clients, buffers) is not part of it: each component passes its
  own structures.
\<close>

datatype errno = E0 | EAGAIN | EINTR | EINPROGRESS | EALREADY | EISCONN | ENOTCONN | EIO | EOTHER nat

datatype rx = Data "byte list" | RxErr errno | RxEof

datatype tx = Accept nat | TxErr errno

datatype pollres = PollReady | PollTimeout | PollErr errno

type_synonym sockaddr = nat

record Scheduler_Task =
  st_context :: "nat option"
  st_callback :: "nat option"

record world =
  w_alloc :: alloc
  w_errno :: errno
  w_clock :: "(int \<times> int) list"
  w_time :: int
  w_sleeps :: "(int \<times> int) list"
  w_open :: "int list"
  w_gai :: "sockaddr list option list"
  w_socket :: "bool list"
  w_fcntl :: "bool list"
  w_nonblock :: "int \<Rightarrow> bool"
  w_connect :: "errno option list"
  w_poll :: "pollres list"
  w_sockopt :: "errno option list"
  w_in :: "int \<Rightarrow> rx list"
  w_send :: "int \<Rightarrow> tx list"
  w_out :: "int \<Rightarrow> byte list"
  w_sched :: "Scheduler_Task list"
  w_ca :: "nat option"
  w_delivered :: "(nat \<times> byte list) list"

text \<open>A process with the three standard descriptors open, an idle scheduler of \<open>n\<close> slots and empty
  scripts.\<close>

definition world0 :: "nat \<Rightarrow> world" where
  "world0 n = \<lparr>w_alloc = [], w_errno = E0, w_clock = [], w_time = 0, w_sleeps = [], w_open = [0, 1, 2],
     w_gai = [], w_socket = [], w_fcntl = [], w_nonblock = (\<lambda>_. False), w_connect = [], w_poll = [], w_sockopt = [],
     w_in = (\<lambda>_. []), w_send = (\<lambda>_. []), w_out = (\<lambda>_. []),
     w_sched = replicate n \<lparr>st_context = None, st_callback = None\<rparr>, w_ca = None, w_delivered = []\<rparr>"

section \<open>Scripts\<close>

text \<open>The next entry of a script, or the ordinary outcome when it is used up.\<close>

definition next_of :: "'a \<Rightarrow> 'a list \<Rightarrow> 'a" where
  "next_of d xs = (case xs of [] \<Rightarrow> d | x # _ \<Rightarrow> x)"

lemma next_of_simps [simp]: "next_of d [] = d" "next_of d (x # xs) = x"
  by (simp_all add: next_of_def)

section \<open>Memory\<close>

definition w_malloc :: "world \<Rightarrow> bool \<times> world" where
  "w_malloc w = (fst (malloc (w_alloc w)), w\<lparr>w_alloc := snd (malloc (w_alloc w))\<rparr>)"

definition w_strdup :: "cstring \<Rightarrow> world \<Rightarrow> cstring option \<times> world" where
  "w_strdup s w = (if fst (w_malloc w) then Some s else None, snd (w_malloc w))"

section \<open>Clocks\<close>

definition sys_clock_gettime :: "world \<Rightarrow> (int \<times> int) \<times> world" where
  "sys_clock_gettime w =
     (case w_clock w of
        [] \<Rightarrow> ((0, 0), w)
      | [t] \<Rightarrow> (t, w)
      | t # ts \<Rightarrow> (t, w\<lparr>w_clock := ts\<rparr>))"

definition sys_nanosleep :: "int \<Rightarrow> int \<Rightarrow> world \<Rightarrow> world" where
  "sys_nanosleep s ns w = w\<lparr>w_sleeps := w_sleeps w @ [(s, ns)]\<rparr>"

section \<open>Descriptors\<close>

text \<open>The lowest descriptor not in use.\<close>

definition lowest_unused :: "int list \<Rightarrow> int" where
  "lowest_unused used = (case find (\<lambda>i. int i \<notin> set used) [0..<Suc (length used)] of
     Some i \<Rightarrow> int i | None \<Rightarrow> 0)"

definition sys_socket :: "world \<Rightarrow> int \<times> world" where
  "sys_socket w =
     (let w' = w\<lparr>w_socket := tl (w_socket w)\<rparr>; fd = lowest_unused (w_open w) in
      if next_of True (w_socket w) then (fd, w'\<lparr>w_open := fd # w_open w, w_nonblock := (w_nonblock w)(fd := False)\<rparr>)
      else (-1, w'\<lparr>w_errno := EIO\<rparr>))"

definition sys_close :: "int \<Rightarrow> world \<Rightarrow> world" where
  "sys_close fd w = w\<lparr>w_open := removeAll fd (w_open w)\<rparr>"

definition sys_getaddrinfo :: "world \<Rightarrow> sockaddr list option \<times> world" where
  "sys_getaddrinfo w = (next_of None (w_gai w), w\<lparr>w_gai := tl (w_gai w)\<rparr>)"

text \<open>\<^verbatim>\<open>fcntl\<close> with \<^verbatim>\<open>F_GETFL\<close> (\<open>None\<close>: -1) and \<^verbatim>\<open>F_SETFL\<close>; of the flags only \<^verbatim>\<open>O_NONBLOCK\<close> matters.\<close>

definition sys_getfl :: "int \<Rightarrow> world \<Rightarrow> bool option \<times> world" where
  "sys_getfl fd w =
     (let w' = w\<lparr>w_fcntl := tl (w_fcntl w)\<rparr> in
      if next_of True (w_fcntl w) then (Some (w_nonblock w fd), w') else (None, w'\<lparr>w_errno := EIO\<rparr>))"

definition sys_setfl :: "int \<Rightarrow> bool \<Rightarrow> world \<Rightarrow> bool \<times> world" where
  "sys_setfl fd b w =
     (let w' = w\<lparr>w_fcntl := tl (w_fcntl w)\<rparr> in
      if next_of True (w_fcntl w) then (True, w'\<lparr>w_nonblock := (w_nonblock w)(fd := b)\<rparr>)
      else (False, w'\<lparr>w_errno := EIO\<rparr>))"

text \<open>\<^verbatim>\<open>connect\<close>: 0, or -1 with \<open>errno\<close> set.\<close>

definition sys_connect :: "world \<Rightarrow> int \<times> world" where
  "sys_connect w =
     (let w' = w\<lparr>w_connect := tl (w_connect w)\<rparr> in
      (case next_of None (w_connect w) of
         None \<Rightarrow> (0, w')
       | Some e \<Rightarrow> (-1, w'\<lparr>w_errno := e\<rparr>)))"

definition sys_poll :: "world \<Rightarrow> int \<times> world" where
  "sys_poll w =
     (let w' = w\<lparr>w_poll := tl (w_poll w)\<rparr> in
      (case next_of PollReady (w_poll w) of
         PollReady \<Rightarrow> (1, w')
       | PollTimeout \<Rightarrow> (0, w')
       | PollErr e \<Rightarrow> (-1, w'\<lparr>w_errno := e\<rparr>)))"

text \<open>\<^verbatim>\<open>getsockopt(SO_ERROR)\<close>: -1, or 0 with the pending error (\<open>E0\<close>: none).\<close>

definition sys_so_error :: "world \<Rightarrow> int \<times> errno \<times> world" where
  "sys_so_error w =
     (let w' = w\<lparr>w_sockopt := tl (w_sockopt w)\<rparr> in
      (case next_of (Some E0) (w_sockopt w) of
         None \<Rightarrow> (-1, E0, w'\<lparr>w_errno := EIO\<rparr>)
       | Some e \<Rightarrow> (0, e, w')))"

text \<open>
  \<^verbatim>\<open>recv\<close>: at most \<open>len\<close> bytes of the next segment; the rest of the segment stays. The
  end of the stream persists; with nothing to read (or an empty segment) the call fails with
  \<open>EAGAIN\<close>. On a blocking descriptor the real call would wait instead: the statements about the blocking
  interface are about scripts with an end of stream, which never get there.
\<close>

definition sys_recv :: "int \<Rightarrow> nat \<Rightarrow> world \<Rightarrow> int \<times> byte list \<times> world" where
  "sys_recv fd len w =
     (case w_in w fd of
        [] \<Rightarrow> (-1, [], w\<lparr>w_errno := EAGAIN\<rparr>)
      | RxEof # _ \<Rightarrow> (0, [], w)
      | RxErr e # r \<Rightarrow> (-1, [], w\<lparr>w_errno := e, w_in := (w_in w)(fd := r)\<rparr>)
      | Data bs # r \<Rightarrow>
          if bs = [] then (-1, [], w\<lparr>w_errno := EAGAIN, w_in := (w_in w)(fd := r)\<rparr>)
          else if length bs \<le> len then (int (length bs), bs, w\<lparr>w_in := (w_in w)(fd := r)\<rparr>)
          else (int len, take len bs, w\<lparr>w_in := (w_in w)(fd := Data (drop len bs) # r)\<rparr>))"

text \<open>\<^verbatim>\<open>send\<close>: accepts a prefix of the bytes, or fails.\<close>

definition sys_send :: "int \<Rightarrow> byte list \<Rightarrow> world \<Rightarrow> int \<times> world" where
  "sys_send fd bs w =
     (let w' = w\<lparr>w_send := (w_send w)(fd := tl (w_send w fd))\<rparr> in
      (case next_of (Accept (length bs)) (w_send w fd) of
         TxErr e \<Rightarrow> (-1, w'\<lparr>w_errno := e\<rparr>)
       | Accept n \<Rightarrow>
           (int (min n (length bs)), w'\<lparr>w_out := (w_out w)(fd := w_out w fd @ take n bs)\<rparr>)))"

text \<open>What the peer has still to deliver on a descriptor, segmentation forgotten.\<close>

fun rx_bytes :: "rx list \<Rightarrow> byte list" where
  "rx_bytes [] = []"
| "rx_bytes (Data bs # r) = bs @ rx_bytes r"
| "rx_bytes (RxErr e # r) = rx_bytes r"
| "rx_bytes (RxEof # r) = []"

section \<open>Facts\<close>

lemma lowest_unused_fresh: "0 \<le> lowest_unused used" "lowest_unused used \<notin> set used"
proof -
  have "\<exists>i < Suc (length used). int i \<notin> set used"
  proof (rule ccontr)
    assume "\<not> ?thesis"
    then have "int ` {..<Suc (length used)} \<subseteq> set used" by auto
    then have "card (int ` {..<Suc (length used)}) \<le> card (set used)" by (intro card_mono) auto
    then show False using card_length [of used] by (simp add: card_image inj_on_def)
  qed
  then obtain i where i: "find (\<lambda>i. int i \<notin> set used) [0..<Suc (length used)] = Some i"
    by (cases "find (\<lambda>i. int i \<notin> set used) [0..<Suc (length used)]")
      (auto simp: find_upt_None_iff simp del: upt_Suc)
  then have "int i \<notin> set used" by (auto simp: find_upt_Some_iff simp del: upt_Suc)
  with i show "0 \<le> lowest_unused used" "lowest_unused used \<notin> set used"
    by (simp_all add: lowest_unused_def del: upt_Suc)
qed

text \<open>A read never returns more than was asked for, and what it returns is what the stream loses.\<close>

lemma sys_recv_cases:
  assumes "sys_recv fd len w = (n, bs, w')" "0 < len"
  obtains "n < 0" "bs = []" "rx_bytes (w_in w' fd) = rx_bytes (w_in w fd)"
  | "n = 0" "bs = []" "w' = w" "rx_bytes (w_in w fd) = []"
  | "0 < n" "n = int (length bs)" "length bs \<le> len" "w_errno w' = w_errno w"
    "rx_bytes (w_in w fd) = bs @ rx_bytes (w_in w' fd)"
proof (cases "w_in w fd")
  case Nil
  with assms that(1) show ?thesis by (auto simp: sys_recv_def)
next
  case (Cons x r)
  with assms that show ?thesis
    by (cases x) (auto simp: sys_recv_def split: if_splits)
qed

lemma sys_recv_frame:
  assumes "sys_recv fd len w = (n, bs, w')"
  shows "w_open w' = w_open w" "w_alloc w' = w_alloc w" "w_sched w' = w_sched w"
    "w_delivered w' = w_delivered w" "w_out w' = w_out w" "w_clock w' = w_clock w"
    "fd' \<noteq> fd \<Longrightarrow> w_in w' fd' = w_in w fd'"
  using assms by (auto simp: sys_recv_def split: list.splits rx.splits if_splits)

lemma sys_send_cases:
  assumes "sys_send fd bs w = (n, w')"
  obtains e where "n = -1" "w_out w' = w_out w" "w_errno w' = e"
  | "0 \<le> n" "nat n \<le> length bs" "w_out w' fd = w_out w fd @ take (nat n) bs" "w_errno w' = w_errno w"
  using assms that
  by (cases "next_of (Accept (length bs)) (w_send w fd)") (auto simp: sys_send_def Let_def min_def)

lemma sys_send_frame:
  assumes "sys_send fd bs w = (n, w')"
  shows "w_open w' = w_open w" "w_alloc w' = w_alloc w" "w_sched w' = w_sched w"
    "w_delivered w' = w_delivered w" "w_in w' = w_in w" "w_clock w' = w_clock w"
    "fd' \<noteq> fd \<Longrightarrow> w_out w' fd' = w_out w fd'"
  using assms by (auto simp: sys_send_def Let_def split: tx.splits)

lemma sys_recv_one:
  "w_in w fd = [Data bs] \<Longrightarrow> bs \<noteq> [] \<Longrightarrow> length bs \<le> len \<Longrightarrow>
     sys_recv fd len w = (int (length bs), bs, w\<lparr>w_in := (w_in w)(fd := [])\<rparr>)"
  by (simp add: sys_recv_def)

lemma w_malloc_frame [simp]:
  "w_errno (snd (w_malloc w)) = w_errno w" "w_in (snd (w_malloc w)) = w_in w"
  "w_out (snd (w_malloc w)) = w_out w" "w_open (snd (w_malloc w)) = w_open w"
  "w_sched (snd (w_malloc w)) = w_sched w" "w_delivered (snd (w_malloc w)) = w_delivered w"
  "w_clock (snd (w_malloc w)) = w_clock w" "w_send (snd (w_malloc w)) = w_send w"
  by (simp_all add: w_malloc_def)

end
