(* ===== verification/String_Utils.thy ===== *)
theory String_Utils imports Prelude begin

text \<open>
  \<^verbatim>\<open>utils/src/string_utils.c\<close>: concatenation, duplication, number parsing (with the
  \<^verbatim>\<open>strtol\<close> it calls), the growing byte buffer every reader of the HTTP client appends to, and
  the digit test. \<open>block_*\<close> are the heap blocks \<^verbatim>\<open>realloc\<close> and \<^verbatim>\<open>memmove\<close> work on.
  The decimal printer \<open>dec_str\<close> is \<^verbatim>\<open>printf\<close>'s \<open>%d\<close> and \<open>%zu\<close> on non-negative values.

  The pointers \<^verbatim>\<open>base_ptr\<close> and \<^verbatim>\<open>current_size\<close> of \<open>buffer_append\<close> are addresses of fields
  at every call site, so they are passed and returned by value.
\<close>

section \<open>Decimal numbers\<close>

definition digit_val :: "char \<Rightarrow> int" where
  "digit_val c = char_code c - 48"

definition digit_chr :: "nat \<Rightarrow> char" where
  "digit_chr d = char_of (48 + d)"

definition dec_value :: "cstring \<Rightarrow> int" where
  "dec_value ds = foldl (\<lambda>n c. 10 * n + digit_val c) 0 ds"

fun dec_str :: "nat \<Rightarrow> cstring" where
  "dec_str n = (if n < 10 then [digit_chr n] else dec_str (n div 10) @ [digit_chr (n mod 10)])"

declare dec_str.simps [simp del]

text \<open>\<^verbatim>\<open>strtol(s, &end, 10)\<close>: value, whether a number was read, what \<open>end\<close> points at, \<^verbatim>\<open>ERANGE\<close>.\<close>

definition strtol10 :: "cstring \<Rightarrow> int \<times> bool \<times> cstring \<times> bool" where
  "strtol10 s =
     (let s1 = dropWhile isspace s;
          neg = (s1 \<noteq> [] \<and> hd s1 = CHR ''-'');
          s2 = (if s1 \<noteq> [] \<and> (hd s1 = CHR ''-'' \<or> hd s1 = CHR ''+'') then tl s1 else s1);
          ds = takeWhile isdigit s2;
          rest = dropWhile isdigit s2;
          v = (if neg then - dec_value ds else dec_value ds)
      in if ds = [] then (0, False, s, False)
         else if v > LONG_MAX then (LONG_MAX, True, rest, True)
         else if v < LONG_MIN then (LONG_MIN, True, rest, True)
         else (v, True, rest, False))"

section \<open>Operations\<close>

definition stringcat :: "cstring option \<Rightarrow> cstring option \<Rightarrow> alloc \<Rightarrow> (cstring \<times> alloc) res" where
  "stringcat x y a =
     (case (x, y) of
        (Some s, Some t) \<Rightarrow>
          (case malloc a of (ok, a') \<Rightarrow> if ok then Inr (s @ t, a') else Inl NullDeref)
      | _ \<Rightarrow> Inl NullDeref)"

definition strdup_ptr :: "cstring option \<Rightarrow> alloc \<Rightarrow> cstring option \<times> alloc" where
  "strdup_ptr x a = (case x of None \<Rightarrow> (None, a) | Some s \<Rightarrow> strdup s a)"

text \<open>The result is the code and what the call stores in \<open>*_int\<close> (\<open>None\<close>: left alone).\<close>

definition parse_string_to_int :: "cstring option \<Rightarrow> bool \<Rightarrow> (int \<times> int option) res" where
  "parse_string_to_int str out =
     (case str of
        None \<Rightarrow> Inr (-1, None)
      | Some s \<Rightarrow>
          if \<not> out then Inr (-1, None)
          else
            let read_max_len = 36; str_len = c_int (int (length s));
                actual_len = (if str_len > read_max_len then read_max_len else str_len)
            in if actual_len < 0 then Inl OutOfBounds
               else
                 let buf = take (nat actual_len) s in
                 (case strtol10 buf of (val, converted, rest, erange) \<Rightarrow>
                    if erange \<or> \<not> converted \<or> rest \<noteq> [] then Inr (-1, None)
                    else if val < INT_MIN \<or> val > INT_MAX then Inr (-1, None)
                    else Inr (0, Some (c_int val))))"

text \<open>Doubles: \<^verbatim>\<open>strtod\<close> is a parameter (value, number read, rest, \<^verbatim>\<open>errno\<close> set).\<close>

definition parse_string_to_double ::
  "(cstring \<Rightarrow> 'd \<times> bool \<times> cstring \<times> bool) \<Rightarrow> cstring option \<Rightarrow> bool \<Rightarrow> (int \<times> 'd option) res" where
  "parse_string_to_double strtod str out =
     (case str of
        None \<Rightarrow> Inr (-1, None)
      | Some s \<Rightarrow>
          if \<not> out then Inr (-1, None)
          else
            let read_max_len = 36; str_len = c_int (int (length s));
                actual_len = (if str_len > read_max_len then read_max_len else str_len)
            in if actual_len < 0 then Inl OutOfBounds
               else
                 (case strtod (take (nat actual_len) s) of (dubb, converted, rest, err) \<Rightarrow>
                    if err \<or> \<not> converted \<or> rest \<noteq> [] then Inr (-1, None)
                    else Inr (0, Some dubb)))"

definition char_is_number :: "char \<Rightarrow> bool" where
  "char_is_number c = list_ex (\<lambda>i. char_code c = int i + 48) [0..<10]"

text \<open>Heap blocks: \<^verbatim>\<open>realloc\<close> keeps the common prefix; new bytes are unspecified (here NUL).\<close>

definition block_bytes :: "byte list option \<Rightarrow> byte list" where
  "block_bytes b = (case b of None \<Rightarrow> [] | Some bs \<Rightarrow> bs)"

definition block_realloc :: "nat \<Rightarrow> byte list option \<Rightarrow> byte list" where
  "block_realloc n b = take n (block_bytes b) @ replicate (n - length (block_bytes b)) NUL"

definition block_write :: "byte list \<Rightarrow> nat \<Rightarrow> byte list \<Rightarrow> byte list" where
  "block_write b off bs = take off b @ bs @ drop (off + length bs) b"

definition buffer_append ::
  "byte list option \<Rightarrow> int \<Rightarrow> byte list option \<Rightarrow> alloc \<Rightarrow>
     (int \<times> byte list option \<times> int \<times> alloc) res" where
  "buffer_append base cur input a =
     (case input of
        None \<Rightarrow> Inr (ERR_INVALID_ARG, base, cur, a)
      | Some bs \<Rightarrow>
          if bs = [] then Inr (ERR_INVALID_ARG, base, cur, a)
          else
            let new_total = c_size (cur + int (length bs)) in
            (case malloc a of (ok, a') \<Rightarrow>
               if \<not> ok then Inr (ERR_NO_MEMORY, base, cur, a')
               else
                 let blk = block_realloc (nat (c_size (new_total + 1))) base in
                 if int (length blk) < cur + int (length bs) + 1 then Inl OutOfBounds
                 else
                   let blk1 = block_write blk (nat cur) bs;
                       blk2 = blk1[nat new_total := NUL]
                   in Inr (int (length bs), Some blk2, new_total, a')))"

section \<open>Decimal numbers: lemmas\<close>

lemma of_char_digit_chr: "d < 10 \<Longrightarrow> (of_char (digit_chr d) :: nat) = 48 + d"
  by (simp add: digit_chr_def)

lemma char_code_digit_chr [simp]: "d < 10 \<Longrightarrow> char_code (digit_chr d) = 48 + int d"
  by (simp add: char_code_def of_char_digit_chr)

lemma isdigit_digit_chr [simp]: "d < 10 \<Longrightarrow> isdigit (digit_chr d)"
  by (simp add: isdigit_def)

lemma digit_val_digit_chr [simp]: "d < 10 \<Longrightarrow> digit_val (digit_chr d) = int d"
  by (simp add: digit_val_def)

lemma dec_value_Nil [simp]: "dec_value [] = 0"
  by (simp add: dec_value_def)

lemma dec_value_snoc [simp]: "dec_value (ds @ [c]) = 10 * dec_value ds + digit_val c"
  by (simp add: dec_value_def)

lemma dec_value_nonneg: "list_all isdigit ds \<Longrightarrow> 0 \<le> dec_value ds"
  by (induction ds rule: rev_induct) (auto simp: digit_val_def isdigit_def)

lemma dec_str_digits [simp]: "list_all isdigit (dec_str n)"
proof (induction n rule: dec_str.induct)
  case (1 n)
  then show ?case by (cases "n < 10") (simp_all add: dec_str.simps [of n])
qed

lemma dec_str_nonempty [simp]: "dec_str n \<noteq> []"
  by (subst dec_str.simps) simp

lemma dec_value_dec_str [simp]: "dec_value (dec_str n) = int n"
proof (induction n rule: dec_str.induct)
  case (1 n)
  show ?case
  proof (cases "n < 10")
    case True
    then show ?thesis
      using dec_value_snoc [of "[]" "digit_chr n"] by (simp add: dec_str.simps [of n])
  next
    case False
    moreover have "10 * int (n div 10) + int (n mod 10) = int n" by presburger
    ultimately show ?thesis using "1.IH" by (simp add: dec_str.simps [of n])
  qed
qed

lemma dec_str_length: "n < 10 ^ Suc k \<Longrightarrow> length (dec_str n) \<le> Suc k"
proof (induction k arbitrary: n)
  case 0
  then show ?case by (simp add: dec_str.simps)
next
  case (Suc k)
  show ?case
  proof (cases "n < 10")
    case False
    have "n div 10 < 10 ^ Suc k" using Suc.prems by (simp add: div_less_iff_less_mult mult.commute)
    then show ?thesis using Suc.IH False by (simp add: dec_str.simps [of n])
  qed (simp add: dec_str.simps)
qed

lemma isdigit_not_special:
  "isdigit c \<Longrightarrow> \<not> isspace c \<and> c \<noteq> CHR ''-'' \<and> c \<noteq> CHR ''+'' \<and> c \<noteq> NUL \<and> c \<noteq> SP"
  by (auto simp: isdigit_def isspace_def char_code_def)

lemma strtol10_digits:
  assumes "list_all isdigit ds" "ds \<noteq> []" "rest = [] \<or> \<not> isdigit (hd rest)" "dec_value ds \<le> LONG_MAX"
  shows "strtol10 (ds @ rest) = (dec_value ds, True, rest, False)"
proof -
  obtain d es where ds: "ds = d # es" using assms(2) by (cases ds) auto
  with assms(1) have d: "isdigit d" by simp
  have tw: "takeWhile isdigit (ds @ rest) = ds" and dw: "dropWhile isdigit (ds @ rest) = rest"
    using assms(1,3) by (auto simp: list_all_iff takeWhile_append dropWhile_append
        takeWhile_eq_Nil_iff dropWhile_eq_self_iff)
  have "0 \<le> dec_value ds" using assms(1) by (rule dec_value_nonneg)
  then show ?thesis
    using assms(4) tw dw isdigit_not_special [OF d] ds
    by (simp add: strtol10_def LONG_MIN_def Let_def)
qed

section \<open>Buffers: lemmas\<close>

definition block_inv :: "byte list option \<Rightarrow> int \<Rightarrow> bool" where
  "block_inv b n \<longleftrightarrow> 0 \<le> n \<and> n \<le> int (length (block_bytes b)) \<and> n < 2 ^ 63 - 2 ^ 32"

definition block_contents :: "byte list option \<Rightarrow> int \<Rightarrow> byte list" where
  "block_contents b n = take (nat n) (block_bytes b)"

lemma block_contents_length: "block_inv b n \<Longrightarrow> int (length (block_contents b n)) = n"
  by (auto simp: block_inv_def block_contents_def)

text \<open>The essential law of the buffer: a granted append appends.\<close>

lemma buffer_append_granted:
  assumes inv: "block_inv b n" and ne: "bs \<noteq> []" and len: "length bs < 2 ^ 32"
    and ok: "malloc a = (True, a')"
  shows "\<exists>b'. buffer_append b n (Some bs) a = Inr (int (length bs), Some b', n + int (length bs), a') \<and>
      length b' = nat n + length bs + 1 \<and>
      block_contents (Some b') (n + int (length bs)) = block_contents b n @ bs"
proof -
  let ?m = "nat n" and ?k = "length bs"
  have n: "0 \<le> n" "n = int ?m" "?m \<le> length (block_bytes b)" "n + int ?k + 1 < 2 ^ 64"
    using inv len by (auto simp: block_inv_def)
  define blk where "blk = block_realloc (Suc (?m + ?k)) b"
  have lblk: "length blk = ?m + ?k + 1" by (simp add: blk_def block_realloc_def)
  have tk: "take ?m blk = take ?m (block_bytes b)"
    using n by (simp add: blk_def block_realloc_def min_def)
  have tot: "c_size (n + int ?k) = n + int ?k" "nat (c_size (n + int ?k + 1)) = ?m + ?k + 1"
  proof -
    have "0 \<le> n + int ?k" "n + int ?k < 2 ^ 64" "0 \<le> n + int ?k + 1" using n(1,4) by linarith+
    then show "c_size (n + int ?k) = n + int ?k" "nat (c_size (n + int ?k + 1)) = ?m + ?k + 1"
      using n(1,4) by (simp_all add: c_size_id nat_add_distrib)
  qed
  define b' where "b' = (block_write blk ?m bs)[nat (n + int ?k) := NUL]"
  have "buffer_append b n (Some bs) a = Inr (int ?k, Some b', n + int ?k, a')"
    using ne ok n(1) tot lblk
    by (simp add: buffer_append_def Let_def blk_def [symmetric] b'_def)
  moreover have "length b' = ?m + ?k + 1"
    using lblk by (simp add: b'_def block_write_def)
  moreover have "block_contents (Some b') (n + int ?k) = block_contents b n @ bs"
    using n(1,3) lblk tk
    by (simp add: block_contents_def block_bytes_def b'_def block_write_def nat_add_distrib)
  ultimately show ?thesis by blast
qed

lemma buffer_append_refused:
  "bs \<noteq> [] \<Longrightarrow> malloc a = (False, a') \<Longrightarrow>
     buffer_append b n (Some bs) a = Inr (ERR_NO_MEMORY, b, n, a')"
  by (simp add: buffer_append_def)

end
