(* ===== verification/TCP_Client.thy ===== *)
theory TCP_Client imports World String_Utils begin

text \<open>
  \<^verbatim>\<open>modules/src/tcp_client.c\<close>: opening a connection without and with blocking, reading, writing,
  and releasing the socket. An address is what \<^verbatim>\<open>getaddrinfo\<close> gave (its bytes and length as one
  value). \<^verbatim>\<open>freeaddrinfo\<close> and the messages on the standard streams leave no trace in the model.
\<close>

section \<open>Data\<close>

record TCP_Data =
  td_addr :: "byte list option"
  td_size :: int

record TCP_Client =
  tcp_fd :: int
  tcp_readData :: "byte list option"
  tcp_writeData :: "byte list option"
  tcp_data :: TCP_Data
  tcp_remote_addr :: sockaddr
  tcp_has_remote_addr :: int

text \<open>What \<^verbatim>\<open>memset(..., 0, ...)\<close> gives: note that descriptor 0 is a valid one.\<close>

definition zero_tcp :: TCP_Client where
  "zero_tcp = \<lparr>tcp_fd = 0, tcp_readData = None, tcp_writeData = None,
     tcp_data = \<lparr>td_addr = None, td_size = 0\<rparr>, tcp_remote_addr = 0, tcp_has_remote_addr = 0\<rparr>"

section \<open>Waiting and flags\<close>

definition tcp_client_set_nonblocking :: "int \<Rightarrow> bool \<Rightarrow> world \<Rightarrow> int \<times> world" where
  "tcp_client_set_nonblocking fd nonblocking w =
     (case sys_getfl fd w of
        (None, w1) \<Rightarrow> (ERR_IO, w1)
      | (Some _, w1) \<Rightarrow>
          (case sys_setfl fd nonblocking w1 of (ok, w2) \<Rightarrow> (if \<not> ok then ERR_IO else SUCCESS, w2)))"

function tcp_poll_loop :: "world \<Rightarrow> int \<times> world" where
  "tcp_poll_loop w =
     (case sys_poll w of (res, w1) \<Rightarrow>
        if res < 0 \<and> w_errno w1 = EINTR then tcp_poll_loop w1 else (res, w1))"
  by pat_completeness auto
termination
  by (relation "measure (\<lambda>w. length (w_poll w))")
    (auto simp: sys_poll_def Let_def next_of_def split: pollres.splits list.splits)

declare tcp_poll_loop.simps [simp del]

definition tcp_client_wait_writable :: "int \<Rightarrow> int \<Rightarrow> world \<Rightarrow> int \<times> world" where
  "tcp_client_wait_writable fd timeout_ms w =
     (case tcp_poll_loop w of (res, w1) \<Rightarrow>
        (if res = 0 then ERR_TIMEOUT else if res < 0 then ERR_IO else SUCCESS, w1))"

definition tcp_client_finish_connect :: "int \<Rightarrow> world \<Rightarrow> int \<times> world" where
  "tcp_client_finish_connect fd w =
     (case sys_so_error w of (r, soerr, w1) \<Rightarrow>
        if r < 0 then (ERR_IO, w1)
        else if soerr \<noteq> E0 then (ERR_IO, w1\<lparr>w_errno := soerr\<rparr>)
        else (SUCCESS, w1))"

section \<open>Opening a connection\<close>

text \<open>The loop over the addresses: status, descriptor, client, state.\<close>

fun tcp_init_loop :: "sockaddr list \<Rightarrow> int \<Rightarrow> TCP_Client \<Rightarrow> world \<Rightarrow>
    int \<times> int \<times> TCP_Client \<times> world" where
  "tcp_init_loop [] status c w = (status, -1, c, w)"
| "tcp_init_loop (ai # r) status c w =
     (case sys_socket w of (fd, w1) \<Rightarrow>
        if fd < 0 then tcp_init_loop r status c w1
        else
          (case tcp_client_set_nonblocking fd True w1 of (nb, w2) \<Rightarrow>
             if nb \<noteq> SUCCESS then tcp_init_loop r status c (sys_close fd w2)
             else
               (case sys_connect w2 of (cres, w3) \<Rightarrow>
                  if cres = 0
                  then (SUCCESS, fd, c\<lparr>tcp_remote_addr := ai, tcp_has_remote_addr := 1\<rparr>, w3)
                  else if cres < 0 \<and> w_errno w3 = EINPROGRESS
                  then (ERR_IN_PROGRESS, fd, c\<lparr>tcp_remote_addr := ai, tcp_has_remote_addr := 1\<rparr>, w3)
                  else tcp_init_loop r status c (sys_close fd w3))))"

definition tcp_client_init ::
  "TCP_Client option \<Rightarrow> cstring option \<Rightarrow> cstring option \<Rightarrow> world \<Rightarrow>
     int \<times> TCP_Client option \<times> world" where
  "tcp_client_init client host port w =
     (case (client, host, port) of
        (Some c0, Some _, Some _) \<Rightarrow>
          (let c = c0\<lparr>tcp_fd := -1, tcp_readData := None, tcp_writeData := None,
                      tcp_data := (tcp_data c0)\<lparr>td_addr := None\<rparr>\<rparr> in
           (case sys_getaddrinfo w of
              (None, w1) \<Rightarrow> (ERR_IO, Some c, w1)
            | (Some ais, w1) \<Rightarrow>
                (case tcp_init_loop ais ERR_IO c w1 of (status, fd, c1, w2) \<Rightarrow>
                   if fd < 0 then (ERR_IO, Some c1, w2)
                   else (status, Some (c1\<lparr>tcp_fd := fd\<rparr>), w2))))
      | _ \<Rightarrow> (ERR_INVALID_ARG, client, w))"

text \<open>\<open>tcp_client_init_ptr\<close>: the block starts with whatever \<^verbatim>\<open>malloc\<close> left in it.\<close>

definition tcp_client_init_ptr ::
  "TCP_Client \<Rightarrow> TCP_Client option option \<Rightarrow> cstring option \<Rightarrow> cstring option \<Rightarrow> world \<Rightarrow>
     int \<times> TCP_Client option option \<times> world" where
  "tcp_client_init_ptr uninit ptr host port w =
     (case ptr of
        None \<Rightarrow> (ERR_INVALID_ARG, None, w)
      | Some _ \<Rightarrow>
          (case w_malloc w of (ok, w1) \<Rightarrow>
             if \<not> ok then (ERR_NO_MEMORY, ptr, w1)
             else
               (case tcp_client_init (Some uninit) host port w1 of (result, c, w2) \<Rightarrow>
                  if result \<noteq> SUCCESS then (result, ptr, w2) else (SUCCESS, Some c, w2))))"

text \<open>\<^verbatim>\<open>do connect(...) while (cres < 0 && errno == EINTR)\<close>.\<close>

function tcp_connect_loop :: "world \<Rightarrow> int \<times> world" where
  "tcp_connect_loop w =
     (case sys_connect w of (cres, w1) \<Rightarrow>
        if cres < 0 \<and> w_errno w1 = EINTR then tcp_connect_loop w1 else (cres, w1))"
  by pat_completeness auto
termination
  by (relation "measure (\<lambda>w. length (w_connect w))")
    (auto simp: sys_connect_def Let_def next_of_def split: option.splits list.splits)

declare tcp_connect_loop.simps [simp del]

fun tcp_blocking_loop :: "sockaddr list \<Rightarrow> int \<Rightarrow> int \<Rightarrow> TCP_Client \<Rightarrow> world \<Rightarrow>
    int \<times> TCP_Client \<times> world" where
  "tcp_blocking_loop [] timeout_ms last_err c w = (last_err, c, w)"
| "tcp_blocking_loop (ai # r) timeout_ms last_err c w =
     (case sys_socket w of (fd, w1) \<Rightarrow>
        if fd < 0 then tcp_blocking_loop r timeout_ms last_err c w1
        else
          (case tcp_client_set_nonblocking fd True w1 of (nb, w2) \<Rightarrow>
             if nb \<noteq> SUCCESS then tcp_blocking_loop r timeout_ms last_err c (sys_close fd w2)
             else
               (case tcp_connect_loop w2 of (cres, w3) \<Rightarrow>
                (case
                   (if cres = 0 then (SUCCESS, w3)
                    else if cres < 0 \<and> w_errno w3 = EINPROGRESS \<or> w_errno w3 = EALREADY
                    then
                      (case tcp_client_wait_writable fd timeout_ms w3 of (wr, w4) \<Rightarrow>
                         if wr \<noteq> SUCCESS then (wr, w4) else tcp_client_finish_connect fd w4)
                    else if cres < 0 \<and> w_errno w3 = EISCONN then (SUCCESS, w3)
                    else (last_err, w3))
                 of (err, w5) \<Rightarrow>
                   if err = SUCCESS
                   then
                     (let c1 = c\<lparr>tcp_remote_addr := ai, tcp_has_remote_addr := 1\<rparr> in
                      (case tcp_client_set_nonblocking fd False w5 of (nb2, w6) \<Rightarrow>
                         if nb2 \<noteq> SUCCESS
                         then tcp_blocking_loop r timeout_ms ERR_IO c1 (sys_close fd w6)
                         else (err, c1\<lparr>tcp_fd := fd\<rparr>, w6)))
                   else tcp_blocking_loop r timeout_ms err c (sys_close fd w5)))))"

definition tcp_client_blocking_init ::
  "TCP_Client option \<Rightarrow> cstring option \<Rightarrow> cstring option \<Rightarrow> int \<Rightarrow> world \<Rightarrow>
     int \<times> TCP_Client option \<times> world" where
  "tcp_client_blocking_init client host port timeout_ms w =
     (case (client, host, port) of
        (Some c0, Some _, Some _) \<Rightarrow>
          (let c = c0\<lparr>tcp_fd := -1, tcp_readData := None, tcp_writeData := None,
                      tcp_data := (tcp_data c0)\<lparr>td_addr := None\<rparr>, tcp_has_remote_addr := 0\<rparr> in
           (case sys_getaddrinfo w of
              (None, w1) \<Rightarrow> (ERR_IO, Some c, w1)
            | (Some ais, w1) \<Rightarrow>
                (case tcp_blocking_loop ais timeout_ms ERR_IO c w1 of (last_err, c1, w2) \<Rightarrow>
                   (if tcp_fd c1 < 0 then last_err else SUCCESS, Some c1, w2))))
      | _ \<Rightarrow> (ERR_INVALID_ARG, client, w))"

section \<open>Data transfer\<close>

definition tcp_client_realloc_data ::
  "TCP_Data option \<Rightarrow> byte list option \<Rightarrow> alloc \<Rightarrow> (int \<times> TCP_Data option \<times> alloc) res" where
  "tcp_client_realloc_data data input a =
     (case (data, input) of
        (Some d, Some bs) \<Rightarrow>
          if bs = [] then Inr (ERR_INVALID_ARG, data, a)
          else
            (let new_size = int (length bs) in
             (case malloc a of (ok, a') \<Rightarrow>
                if \<not> ok then Inr (ERR_NO_MEMORY, data, a')
                else
                  (let blk = block_realloc (nat (c_size (td_size d + new_size + 1))) (td_addr d) in
                   if int (length blk) < td_size d + new_size + 1 then Inl OutOfBounds
                   else
                     (let blk1 = block_write blk (nat (td_size d)) bs;
                          size' = c_size (td_size d + new_size) in
                      Inr (new_size, Some \<lparr>td_addr = Some (blk1[nat size' := NUL]), td_size = size'\<rparr>, a')))))
      | _ \<Rightarrow> Inr (ERR_INVALID_ARG, data, a))"

definition tcp_client_read_simple ::
  "TCP_Client \<Rightarrow> nat \<Rightarrow> world \<Rightarrow> int \<times> byte list \<times> world" where
  "tcp_client_read_simple c len w = sys_recv (tcp_fd c) len w"

definition tcp_client_write_simple ::
  "TCP_Client \<Rightarrow> byte list \<Rightarrow> world \<Rightarrow> int \<times> world" where
  "tcp_client_write_simple c bs w = sys_send (tcp_fd c) bs w"

text \<open>The loop of \<open>tcp_client_write\<close>: \<open>msg\<close> is what is left to send.\<close>

function tcp_write_loop :: "int \<Rightarrow> byte list \<Rightarrow> int \<Rightarrow> world \<Rightarrow> int \<times> world" where
  "tcp_write_loop fd msg sent w =
     (if msg = [] then (c_int sent, w)
      else
        (case sys_send fd msg w of (n, w1) \<Rightarrow>
           if n < 0
           then
             if w_errno w1 = EINTR then tcp_write_loop fd msg sent w1
             else if w_errno w1 = EAGAIN \<or> w_errno w1 = ENOTCONN then (c_int sent, w1)
             else (ERR_IO, w1)
           else if n = 0 then (c_int sent, w1)
           else tcp_write_loop fd (drop (nat n) msg) (sent + n) w1))"
  by pat_completeness auto
termination
proof (relation "measure (\<lambda>(fd, msg, _, w). length (w_send w fd) + length msg)", goal_cases)
  case (2 fd msg sent w n w1)
  then show ?case by (cases "w_send w fd") (auto simp: sys_send_def Let_def split: tx.splits)
next
  case (3 fd msg sent w n w1)
  then show ?case by (cases "w_send w fd") (auto simp: sys_send_def Let_def split: tx.splits)
qed simp

declare tcp_write_loop.simps [simp del]

definition tcp_client_write ::
  "TCP_Client option \<Rightarrow> nat \<Rightarrow> world \<Rightarrow> (int \<times> world) res" where
  "tcp_client_write client len w =
     (case client of
        None \<Rightarrow> Inr (ERR_INVALID_ARG, w)
      | Some c \<Rightarrow>
          (case tcp_writeData c of
             None \<Rightarrow> Inr (ERR_INVALID_ARG, w)
           | Some data \<Rightarrow>
               if tcp_fd c < 0 then Inr (ERR_INVALID_ARG, w)
               else if length data < len then Inl OutOfBounds
               else Inr (tcp_write_loop (tcp_fd c) (take len data) 0 w)))"

section \<open>Closing\<close>

definition tcp_client_disconnect :: "TCP_Client \<Rightarrow> world \<Rightarrow> TCP_Client \<times> world" where
  "tcp_client_disconnect c w =
     (c\<lparr>tcp_fd := -1\<rparr>, if 0 \<le> tcp_fd c then sys_close (tcp_fd c) w else w)"

definition tcp_client_connect_step :: "TCP_Client option \<Rightarrow> world \<Rightarrow> int \<times> world" where
  "tcp_client_connect_step client w =
     (case client of
        None \<Rightarrow> (ERR_INVALID_ARG, w)
      | Some c \<Rightarrow>
          if tcp_fd c < 0 \<or> tcp_has_remote_addr c = 0 then (ERR_INVALID_ARG, w)
          else
            (case sys_connect w of (res, w1) \<Rightarrow>
               if res = 0 then (SUCCESS, w1)
               else if w_errno w1 = EISCONN then (SUCCESS, w1)
               else if w_errno w1 = EINPROGRESS \<or> w_errno w1 = EALREADY then (ERR_BUSY, w1)
               else (ERR_IO, w1)))"

definition tcp_client_dispose :: "TCP_Client option \<Rightarrow> world \<Rightarrow> TCP_Client option \<times> world" where
  "tcp_client_dispose client w =
     (case client of
        None \<Rightarrow> (None, w)
      | Some c \<Rightarrow>
          (let (c1, w1) = (if 0 \<le> tcp_fd c then (c\<lparr>tcp_fd := -1\<rparr>, sys_close (tcp_fd c) w) else (c, w));
               c2 = c1\<lparr>tcp_readData := None, tcp_writeData := None\<rparr> in
           (Some (if td_addr (tcp_data c2) \<noteq> None
                  then c2\<lparr>tcp_data := \<lparr>td_addr = None, td_size = 0\<rparr>\<rparr> else c2), w1)))"

definition tcp_client_dispose_ptr ::
  "TCP_Client option option \<Rightarrow> world \<Rightarrow> TCP_Client option option \<times> world" where
  "tcp_client_dispose_ptr ptr w =
     (case ptr of
        Some (Some c) \<Rightarrow> (Some None, snd (tcp_client_dispose (Some c) w))
      | _ \<Rightarrow> (ptr, w))"

section \<open>Descriptor accounting\<close>

lemma sys_socket_cases:
  assumes "sys_socket w = (fd, w')"
  obtains "fd < 0" "w_open w' = w_open w"
  | "0 \<le> fd" "fd \<notin> set (w_open w)" "w_open w' = fd # w_open w"
  using assms that lowest_unused_fresh [of "w_open w"]
  by (auto simp: sys_socket_def Let_def split: if_splits)

lemma set_nonblocking_frame:
  assumes "tcp_client_set_nonblocking fd b w = (r, w')"
  shows "w_open w' = w_open w" "r = SUCCESS \<Longrightarrow> w_nonblock w' fd = b" "r = SUCCESS \<or> r = ERR_IO"
  using assms
  by (auto simp: tcp_client_set_nonblocking_def sys_getfl_def sys_setfl_def Let_def err_codes
      split: if_splits)

lemma sys_connect_frame:
  assumes "sys_connect w = (r, w')"
  shows "w_open w' = w_open w" "w_nonblock w' = w_nonblock w"
  using assms by (auto simp: sys_connect_def Let_def split: option.splits)

lemma tcp_connect_loop_frame:
  "tcp_connect_loop w = (r, w') \<Longrightarrow> w_open w' = w_open w \<and> w_nonblock w' = w_nonblock w"
proof (induction w rule: tcp_connect_loop.induct)
  case (1 w)
  obtain cres w1 where c: "sys_connect w = (cres, w1)" by (cases "sys_connect w")
  with "1.prems" "1.IH" [OF c [symmetric]] sys_connect_frame [OF c] show ?case
    by (subst (asm) tcp_connect_loop.simps) (auto split: if_splits)
qed

lemma tcp_poll_loop_frame:
  "tcp_poll_loop w = (r, w') \<Longrightarrow> w_open w' = w_open w \<and> w_nonblock w' = w_nonblock w"
proof (induction w rule: tcp_poll_loop.induct)
  case (1 w)
  obtain cres w1 where c: "sys_poll w = (cres, w1)" by (cases "sys_poll w")
  then have "w_open w1 = w_open w \<and> w_nonblock w1 = w_nonblock w"
    by (auto simp: sys_poll_def Let_def split: pollres.splits)
  with c "1.prems" "1.IH" [OF c [symmetric]] show ?case
    by (subst (asm) tcp_poll_loop.simps) (auto split: if_splits)
qed

lemma finish_connect_frame:
  "tcp_client_finish_connect fd w = (r, w') \<Longrightarrow> w_open w' = w_open w \<and> w_nonblock w' = w_nonblock w"
  by (auto simp: tcp_client_finish_connect_def sys_so_error_def Let_def split: option.splits if_splits)

lemma wait_writable_frame:
  "tcp_client_wait_writable fd t w = (r, w') \<Longrightarrow> w_open w' = w_open w \<and> w_nonblock w' = w_nonblock w"
  by (auto simp: tcp_client_wait_writable_def dest: tcp_poll_loop_frame split: prod.splits)

lemma close_just_opened: "fd \<notin> set fds \<Longrightarrow> w_open w = fd # fds \<Longrightarrow> w_open (sys_close fd w) = fds"
  by (simp add: sys_close_def)

text \<open>What opening a connection promises about descriptors: either nothing new is open, or exactly
  the descriptor the client holds.\<close>

definition opened :: "int list \<Rightarrow> int \<Rightarrow> world \<Rightarrow> bool" where
  "opened fds fd w \<longleftrightarrow>
     (if fd < 0 then w_open w = fds else fd \<notin> set fds \<and> w_open w = fd # fds)"

lemma tcp_init_loop_fds:
  "tcp_init_loop ais st c w = (status, fd, c', w') \<Longrightarrow>
     opened (w_open w) fd w' \<and> (0 \<le> fd \<longrightarrow> (status = SUCCESS \<or> status = ERR_IN_PROGRESS) \<and> w_nonblock w' fd)"
proof (induction ais st c w rule: tcp_init_loop.induct)
  case (2 ai r st c w)
  obtain fd1 w1 where s: "sys_socket w = (fd1, w1)" by (cases "sys_socket w")
  obtain nb w2 where n: "tcp_client_set_nonblocking fd1 True w1 = (nb, w2)"
    by (cases "tcp_client_set_nonblocking fd1 True w1")
  obtain cres w3 where k: "sys_connect w2 = (cres, w3)" by (cases "sys_connect w2")
  note frames = set_nonblocking_frame [OF n] sys_connect_frame [OF k]
  show ?case
  proof (rule sys_socket_cases [OF s])
    assume "fd1 < 0" "w_open w1 = w_open w"
    then show ?thesis using "2.IH"(1) [OF s [symmetric]] "2.prems" s by simp
  next
    assume fd1: "0 \<le> fd1" "fd1 \<notin> set (w_open w)" "w_open w1 = fd1 # w_open w"
    have cl: "w_open (sys_close fd1 w2) = w_open w" "w_open (sys_close fd1 w3) = w_open w"
      using close_just_opened [OF fd1(2)] fd1(3) frames by auto
    show ?thesis
      using "2.prems" s n k fd1 cl frames
        "2.IH"(2) [OF s [symmetric] _ n [symmetric]]
        "2.IH"(3) [OF s [symmetric] _ n [symmetric] _ k [symmetric]]
      by (auto simp: opened_def split: if_splits)
  qed
qed (auto simp: opened_def)

text \<open>The outcome of one address of the blocking loop, and what it leaves open.\<close>

lemma tcp_blocking_loop_fds:
  "tcp_blocking_loop ais t st c w = (err, c', w') \<Longrightarrow> tcp_fd c < 0 \<Longrightarrow> st \<noteq> SUCCESS \<Longrightarrow>
     opened (w_open w) (tcp_fd c') w' \<and> (tcp_fd c' < 0 \<longleftrightarrow> err \<noteq> SUCCESS) \<and>
     (0 \<le> tcp_fd c' \<longrightarrow> \<not> w_nonblock w' (tcp_fd c'))"
proof (induction ais arbitrary: st c w)
  case (Cons ai r)
  obtain fd1 w1 where s: "sys_socket w = (fd1, w1)" by (cases "sys_socket w")
  obtain nb w2 where n: "tcp_client_set_nonblocking fd1 True w1 = (nb, w2)"
    by (cases "tcp_client_set_nonblocking fd1 True w1")
  obtain cres w3 where k: "tcp_connect_loop w2 = (cres, w3)" by (cases "tcp_connect_loop w2")
  let ?att = "if cres = 0 then (SUCCESS, w3)
      else if cres < 0 \<and> w_errno w3 = EINPROGRESS \<or> w_errno w3 = EALREADY
      then (case tcp_client_wait_writable fd1 t w3 of (wr, w4) \<Rightarrow>
              if wr \<noteq> SUCCESS then (wr, w4) else tcp_client_finish_connect fd1 w4)
      else if cres < 0 \<and> w_errno w3 = EISCONN then (SUCCESS, w3) else (st, w3)"
  obtain e w5 where a: "?att = (e, w5)" by (cases ?att)
  then have w5: "w_open w5 = w_open w3"
    by (auto dest!: wait_writable_frame finish_connect_frame split: if_splits prod.splits)
  obtain nb2 w6 where n2: "tcp_client_set_nonblocking fd1 False w5 = (nb2, w6)"
    by (cases "tcp_client_set_nonblocking fd1 False w5")
  note frames = set_nonblocking_frame [OF n] tcp_connect_loop_frame [OF k] w5 set_nonblocking_frame [OF n2]
  have rec: "opened (w_open w) (tcp_fd c') w' \<and> (tcp_fd c' < 0 \<longleftrightarrow> err \<noteq> SUCCESS) \<and>
      (0 \<le> tcp_fd c' \<longrightarrow> \<not> w_nonblock w' (tcp_fd c'))"
    if "tcp_blocking_loop r t st' d v = (err, c', w')" "tcp_fd d < 0" "st' \<noteq> SUCCESS" "w_open v = w_open w"
    for st' d v
    using Cons.IH [OF that(1-3)] that(4) by simp
  show ?case
  proof (rule sys_socket_cases [OF s])
    assume "fd1 < 0" "w_open w1 = w_open w"
    then show ?thesis using rec [of st c w1] Cons.prems s by simp
  next
    assume fd1: "0 \<le> fd1" "fd1 \<notin> set (w_open w)" "w_open w1 = fd1 # w_open w"
    have cl: "w_open (sys_close fd1 v) = w_open w" if "v \<in> {w2, w5, w6}" for v
      using close_just_opened [OF fd1(2), of v] fd1(3) frames that by auto
    have unfold: "tcp_blocking_loop (ai # r) t st c w =
        (if nb \<noteq> SUCCESS then tcp_blocking_loop r t st c (sys_close fd1 w2)
         else if e = SUCCESS
         then (let c1 = c\<lparr>tcp_remote_addr := ai, tcp_has_remote_addr := 1\<rparr> in
               if nb2 \<noteq> SUCCESS then tcp_blocking_loop r t ERR_IO c1 (sys_close fd1 w6)
               else (e, c1\<lparr>tcp_fd := fd1\<rparr>, w6))
         else tcp_blocking_loop r t e c (sys_close fd1 w5))"
      unfolding tcp_blocking_loop.simps s prod.case n k a n2 using fd1(1) by simp
    consider (nb) "nb \<noteq> SUCCESS" | (bad) "nb = SUCCESS" "e \<noteq> SUCCESS"
      | (fl) "nb = SUCCESS" "e = SUCCESS" "nb2 \<noteq> SUCCESS" | (ok) "nb = SUCCESS" "e = SUCCESS" "nb2 = SUCCESS"
      by blast
    then show ?thesis
    proof cases
      case nb
      then show ?thesis using rec [of st c "sys_close fd1 w2"] cl [of w2] Cons.prems unfold by simp
    next
      case bad
      then show ?thesis using rec [of e c "sys_close fd1 w5"] cl [of w5] Cons.prems unfold by simp
    next
      case fl
      have "ERR_IO \<noteq> SUCCESS" by (simp add: err_codes)
      with fl show ?thesis
        using rec [OF _ _ _ cl [of w6]] Cons.prems unfold by (simp add: Let_def)
    next
      case ok
      then show ?thesis using Cons.prems unfold fd1 frames by (auto simp: opened_def Let_def)
    qed
  qed
qed (auto simp: opened_def)

section \<open>Sending\<close>

lemma tcp_write_loop_prefix:
  "tcp_write_loop fd msg sent w = (r, w') \<Longrightarrow> 0 \<le> sent \<Longrightarrow> sent + int (length msg) < 2 ^ 31 \<Longrightarrow>
     \<exists>k \<le> length msg. w_out w' fd = w_out w fd @ take k msg \<and> (r = ERR_IO \<or> r = sent + int k)"
proof (induction fd msg sent w rule: tcp_write_loop.induct)
  case (1 fd msg sent w)
  show ?case
  proof (cases "msg = []")
    case True
    then show ?thesis using "1.prems" by (simp add: tcp_write_loop.simps c_conv)
  next
    case False
    obtain n w1 where s: "sys_send fd msg w = (n, w1)" by (cases "sys_send fd msg w")
    show ?thesis
    proof (rule sys_send_cases [OF s])
      fix e assume e: "n = -1" "w_out w1 = w_out w" "w_errno w1 = e"
      show ?thesis
      proof (cases "e = EINTR")
        case True
        then show ?thesis
          using "1.IH"(1) [OF False s [symmetric]] "1.prems" False s e by (simp add: tcp_write_loop.simps [of _ msg])
      next
        case no: False
        then have "w' = w1" "r = ERR_IO \<or> r = c_int sent"
          using "1.prems" False s e by (auto simp: tcp_write_loop.simps [of _ msg] split: if_splits)
        then show ?thesis using e "1.prems" by (intro exI [of _ 0]) (auto simp: c_conv)
      qed
    next
      assume n: "0 \<le> n" "nat n \<le> length msg" "w_out w1 fd = w_out w fd @ take (nat n) msg"
      show ?thesis
      proof (cases "n = 0")
        case True
        then show ?thesis
          using "1.prems" False s n by (auto simp: tcp_write_loop.simps [of _ msg] c_conv)
      next
        case pos: False
        have "tcp_write_loop fd (drop (nat n) msg) (sent + n) w1 = (r, w')"
          using "1.prems"(1) False s n pos by (simp add: tcp_write_loop.simps [of _ msg])
        then obtain k where k: "k \<le> length (drop (nat n) msg)"
            "w_out w' fd = w_out w1 fd @ take k (drop (nat n) msg)" "r = ERR_IO \<or> r = sent + n + int k"
          using "1.IH"(2) [OF False s [symmetric]] n pos "1.prems"(2,3) by auto
        then show ?thesis
          using n by (intro exI [of _ "nat n + k"]) (auto simp: take_add)
      qed
    qed
  qed
qed

lemma dispose_opened: "opened fds (tcp_fd c) w \<Longrightarrow> w_open (snd (tcp_client_dispose (Some c) w)) = fds"
  by (auto simp: tcp_client_dispose_def opened_def sys_close_def Let_def)

lemma tcp_client_init_fds:
  assumes "tcp_client_init (Some c0) (Some host) (Some port) w = (r, Some c, w')"
  shows "opened (w_open w) (tcp_fd c) w'" "0 \<le> tcp_fd c \<longleftrightarrow> r = SUCCESS \<or> r = ERR_IN_PROGRESS"
    "0 \<le> tcp_fd c \<Longrightarrow> w_nonblock w' (tcp_fd c)"
proof -
  let ?c = "c0\<lparr>tcp_fd := -1, tcp_readData := None, tcp_writeData := None,
      tcp_data := (tcp_data c0)\<lparr>td_addr := None\<rparr>\<rparr>"
  let ?w = "snd (sys_getaddrinfo w)"
  have gai: "w_open ?w = w_open w" by (simp add: sys_getaddrinfo_def)
  have fd: "tcp_fd c' = -1" if "tcp_init_loop ais st d v = (status, fd, c', v')" "tcp_fd d = -1"
    for ais st d v status fd c' v'
    using that
    by (induction ais st d v rule: tcp_init_loop.induct) (auto split: prod.splits if_splits)
  have "opened (w_open w) (tcp_fd c) w' \<and> (0 \<le> tcp_fd c \<longleftrightarrow> r = SUCCESS \<or> r = ERR_IN_PROGRESS) \<and>
      (0 \<le> tcp_fd c \<longrightarrow> w_nonblock w' (tcp_fd c))"
  proof (cases "fst (sys_getaddrinfo w)")
    case None
    then have "c = ?c" "w' = ?w" "r = ERR_IO"
      using assms by (auto simp: tcp_client_init_def Let_def split: prod.splits option.splits)
    then show ?thesis using gai by (simp add: opened_def err_codes)
  next
    case (Some ais)
    obtain status fd1 c1 w2 where l: "tcp_init_loop ais ERR_IO ?c ?w = (status, fd1, c1, w2)"
      by (metis prod_cases4)
    have res: "(r, Some c, w') = (if fd1 < 0 then (ERR_IO, Some c1, w2) else (status, Some (c1\<lparr>tcp_fd := fd1\<rparr>), w2))"
      using assms Some l by (cases "sys_getaddrinfo w") (simp add: tcp_client_init_def)
    show ?thesis
      using res tcp_init_loop_fds [OF l] fd [OF l] gai
      by (auto simp: opened_def err_codes split: if_splits)
  qed
  then show "opened (w_open w) (tcp_fd c) w'" "0 \<le> tcp_fd c \<longleftrightarrow> r = SUCCESS \<or> r = ERR_IN_PROGRESS"
    "0 \<le> tcp_fd c \<Longrightarrow> w_nonblock w' (tcp_fd c)" by blast+
qed

lemma tcp_client_blocking_init_fds:
  assumes "tcp_client_blocking_init (Some c0) (Some host) (Some port) t w = (r, Some c, w')"
  shows "opened (w_open w) (tcp_fd c) w'" "0 \<le> tcp_fd c \<longleftrightarrow> r = SUCCESS"
    "0 \<le> tcp_fd c \<Longrightarrow> \<not> w_nonblock w' (tcp_fd c)"
proof -
  let ?c = "c0\<lparr>tcp_fd := -1, tcp_readData := None, tcp_writeData := None,
      tcp_data := (tcp_data c0)\<lparr>td_addr := None\<rparr>, tcp_has_remote_addr := 0\<rparr>"
  let ?w = "snd (sys_getaddrinfo w)"
  have gai: "w_open ?w = w_open w" by (simp add: sys_getaddrinfo_def)
  have ne: "ERR_IO \<noteq> SUCCESS" by (simp add: err_codes)
  have "opened (w_open w) (tcp_fd c) w' \<and> (0 \<le> tcp_fd c \<longleftrightarrow> r = SUCCESS) \<and>
      (0 \<le> tcp_fd c \<longrightarrow> \<not> w_nonblock w' (tcp_fd c))"
  proof (cases "fst (sys_getaddrinfo w)")
    case None
    then have "c = ?c" "w' = ?w" "r = ERR_IO"
      using assms by (auto simp: tcp_client_blocking_init_def Let_def split: prod.splits option.splits)
    then show ?thesis using gai by (simp add: opened_def err_codes)
  next
    case (Some ais)
    obtain err c1 w2 where l: "tcp_blocking_loop ais t ERR_IO ?c ?w = (err, c1, w2)" by (metis prod_cases3)
    have res: "r = (if tcp_fd c1 < 0 then err else SUCCESS)" "c = c1" "w' = w2"
      using assms Some l by (cases "sys_getaddrinfo w"; simp add: tcp_client_blocking_init_def)+
    show ?thesis
      using res tcp_blocking_loop_fds [OF l _ ne] gai by auto
  qed
  then show "opened (w_open w) (tcp_fd c) w'" "0 \<le> tcp_fd c \<longleftrightarrow> r = SUCCESS"
    "0 \<le> tcp_fd c \<Longrightarrow> \<not> w_nonblock w' (tcp_fd c)" by blast+
qed

lemma tcp_init_shape:
  "\<exists>r c w'. tcp_client_init (Some c0) (Some host) (Some port) w = (r, Some c, w')"
  "\<exists>r c w'. tcp_client_blocking_init (Some c0) (Some host) (Some port) t w = (r, Some c, w')"
  by (auto simp: tcp_client_init_def tcp_client_blocking_init_def Let_def split: prod.split option.split)

section \<open>Properties\<close>

text \<open>C17: Opening a connection never leaks a descriptor: whatever the resolver, the sockets, the flags,
  the connection attempts and the polls do, afterwards either nothing new is open, the client holds no
  descriptor and the call reports an error, or exactly the descriptor the client holds is new. The
  non-blocking call leaves it non-blocking, the blocking call blocking, and disposing of the client
  closes it again.\<close>

theorem tcp_init_no_leak:
  assumes "tcp_client_init (Some c0) (Some host) (Some port) w = (r, Some c, w')"
    and "tcp_client_blocking_init (Some c0) (Some host) (Some port) t w = (rb, Some cb, wb)"
  shows "opened (w_open w) (tcp_fd c) w' \<and> (0 \<le> tcp_fd c \<longleftrightarrow> r = SUCCESS \<or> r = ERR_IN_PROGRESS) \<and>
     (0 \<le> tcp_fd c \<longrightarrow> w_nonblock w' (tcp_fd c)) \<and>
     opened (w_open w) (tcp_fd cb) wb \<and> (0 \<le> tcp_fd cb \<longleftrightarrow> rb = SUCCESS) \<and>
     (0 \<le> tcp_fd cb \<longrightarrow> \<not> w_nonblock wb (tcp_fd cb)) \<and>
     w_open (snd (tcp_client_dispose (Some c) w')) = w_open w \<and>
     w_open (snd (tcp_client_dispose (Some cb) wb)) = w_open w"
  using tcp_client_init_fds [OF assms(1)] tcp_client_blocking_init_fds [OF assms(2)]
    dispose_opened [of "w_open w" c w'] dispose_opened [of "w_open w" cb wb]
  by blast

theorem tcp_init_no_leak_witness:
  "\<exists>r c w' rb cb wb.
     tcp_client_init (Some zero_tcp) (Some ''h'') (Some ''80'')
       ((world0 0)\<lparr>w_gai := [Some [1, 2]], w_connect := [Some (EOTHER 111), Some EINPROGRESS]\<rparr>) = (r, Some c, w') \<and>
     tcp_client_blocking_init (Some zero_tcp) (Some ''h'') (Some ''80'') 5
       ((world0 0)\<lparr>w_gai := [Some [1, 2]], w_connect := [Some (EOTHER 111), Some EINPROGRESS]\<rparr>) = (rb, Some cb, wb) \<and>
     opened [0, 1, 2] (tcp_fd c) w' \<and> opened [0, 1, 2] (tcp_fd cb) wb"
proof -
  let ?w = "(world0 0)\<lparr>w_gai := [Some [1, 2]], w_connect := [Some (EOTHER 111), Some EINPROGRESS]\<rparr>"
  obtain r c w' where a: "tcp_client_init (Some zero_tcp) (Some ''h'') (Some ''80'') ?w = (r, Some c, w')"
    using tcp_init_shape(1) by blast
  obtain rb cb wb where b: "tcp_client_blocking_init (Some zero_tcp) (Some ''h'') (Some ''80'') 5 ?w = (rb, Some cb, wb)"
    using tcp_init_shape(2) by blast
  have "w_open ?w = [0, 1, 2]" by (simp add: world0_def)
  with tcp_init_no_leak [OF a b] a b show ?thesis by metis
qed

text \<open>Whatever the kernel accepts of each send and however often it is interrupted, a write sends a
  prefix of the data and reports exactly its length, or ERR_IO.\<close>

theorem tcp_write_sends_prefix:
  assumes "tcp_writeData c = Some data" "0 \<le> tcp_fd c" "n \<le> length data" "n < 2 ^ 31"
  shows "\<exists>r w' k. tcp_client_write (Some c) n w = Inr (r, w') \<and> k \<le> n \<and>
     w_out w' (tcp_fd c) = w_out w (tcp_fd c) @ take k data \<and> (r = ERR_IO \<or> r = int k)"
proof -
  obtain r w' where l: "tcp_write_loop (tcp_fd c) (take n data) 0 w = (r, w')"
    by (cases "tcp_write_loop (tcp_fd c) (take n data) 0 w")
  have n: "length (take n data) = n" using assms(3) by simp
  obtain k where k: "k \<le> n" "w_out w' (tcp_fd c) = w_out w (tcp_fd c) @ take k (take n data)"
      "r = ERR_IO \<or> r = 0 + int k"
    using tcp_write_loop_prefix [OF l] n assms(4) by auto
  then have "w_out w' (tcp_fd c) = w_out w (tcp_fd c) @ take k data" by (simp add: min_def)
  with k show ?thesis using assms l by (auto simp: tcp_client_write_def)
qed

theorem tcp_write_sends_prefix_witness:
  "\<exists>r w' k. tcp_client_write (Some (zero_tcp\<lparr>tcp_fd := 3, tcp_writeData := Some ''GET''\<rparr>)) 3
       ((world0 0)\<lparr>w_send := (\<lambda>_. [TxErr EINTR, Accept 2, TxErr EAGAIN])\<rparr>) = Inr (r, w') \<and> k \<le> 3 \<and>
     w_out w' (tcp_fd (zero_tcp\<lparr>tcp_fd := 3, tcp_writeData := Some ''GET''\<rparr>)) =
       w_out ((world0 0)\<lparr>w_send := (\<lambda>_. [TxErr EINTR, Accept 2, TxErr EAGAIN])\<rparr>)
         (tcp_fd (zero_tcp\<lparr>tcp_fd := 3, tcp_writeData := Some ''GET''\<rparr>)) @ take k ''GET'' \<and>
     (r = ERR_IO \<or> r = int k)"
  by (rule tcp_write_sends_prefix) simp_all

end
