(* ===== verification/TLS_Client.thy ===== *)
theory TLS_Client imports TCP_Client begin

text \<open>
  \<^verbatim>\<open>modules/src/tls_client.c\<close> and \<^verbatim>\<open>modules/src/tls_global_ca.c\<close>.

  Mbed TLS is not part of the repository: it is the parameter \<open>mb\<close>, a record of the functions the
  sources call (with its error constants), over an opaque session state \<open>'s\<close>. A call may read and
  write through the callbacks it is given and may change the system state in any way; nothing about
  it is assumed. The per-connection configuration the sources build (\<open>tls_conf\<close>) is explicit.

  A BIO is the pair of callbacks of the struct \<^verbatim>\<open>TLS_BIO\<close>; its \<^verbatim>\<open>io_ctx\<close> (the TCP client the
  transport embeds) is captured by them.
\<close>

section \<open>Data\<close>

type_synonym send_fn = "byte list \<Rightarrow> world \<Rightarrow> int \<times> world"
type_synonym recv_fn = "nat \<Rightarrow> world \<Rightarrow> int \<times> byte list \<times> world"

record TLS_BIO =
  bio_send :: "send_fn option"
  bio_recv :: "recv_fn option"

datatype authmode = VERIFY_DEFAULT | VERIFY_REQUIRED

record tls_conf =
  conf_is_client :: bool
  conf_authmode :: authmode
  conf_rng :: bool
  conf_ca :: "nat option"

definition zero_conf :: tls_conf where
  "zero_conf = \<lparr>conf_is_client = False, conf_authmode = VERIFY_DEFAULT, conf_rng = False, conf_ca = None\<rparr>"

record 's mbedtls =
  mb_ssl_zero :: 's
  mb_ssl_init :: 's
  mb_ctr_drbg_seed :: "world \<Rightarrow> int \<times> world"
  mb_config_defaults :: "world \<Rightarrow> int \<times> world"
  mb_ssl_setup :: "tls_conf \<Rightarrow> 's \<Rightarrow> world \<Rightarrow> int \<times> 's \<times> world"
  mb_set_hostname :: "cstring option \<Rightarrow> 's \<Rightarrow> world \<Rightarrow> int \<times> 's \<times> world"
  mb_handshake :: "send_fn \<Rightarrow> recv_fn \<Rightarrow> 's \<Rightarrow> world \<Rightarrow> int \<times> 's \<times> world"
  mb_read :: "send_fn \<Rightarrow> recv_fn \<Rightarrow> nat \<Rightarrow> 's \<Rightarrow> world \<Rightarrow>
                int \<times> byte list \<times> 's \<times> world"
  mb_write :: "send_fn \<Rightarrow> recv_fn \<Rightarrow> byte list \<Rightarrow> 's \<Rightarrow> world \<Rightarrow>
                int \<times> 's \<times> world"
  mb_close_notify :: "send_fn \<Rightarrow> recv_fn \<Rightarrow> 's \<Rightarrow> world \<Rightarrow> 's \<times> world"
  mb_crt_parse :: "world \<Rightarrow> int \<times> world"
  MBEDTLS_ERR_SSL_WANT_READ :: int
  MBEDTLS_ERR_SSL_WANT_WRITE :: int
  MBEDTLS_ERR_SSL_CONN_EOF :: int
  MBEDTLS_ERR_SSL_INTERNAL_ERROR :: int
  MBEDTLS_ERR_SSL_PEER_CLOSE_NOTIFY :: int

record 's TLS_Client =
  tls_ssl :: 's
  tls_conf :: tls_conf
  tls_seeded :: bool
  tls_handshake_done :: int
  tls_bio :: "TLS_BIO"

definition zero_tls :: "'s mbedtls \<Rightarrow> 's TLS_Client" where
  "zero_tls mb = \<lparr>tls_ssl = mb_ssl_zero mb, tls_conf = zero_conf, tls_seeded = False, tls_handshake_done = 0,
     tls_bio = \<lparr>bio_send = None, bio_recv = None\<rparr>\<rparr>"

section \<open>The global CA chain\<close>

definition global_tls_ca_init :: "'s mbedtls \<Rightarrow> world \<Rightarrow> int \<times> world" where
  "global_tls_ca_init mb w =
     (case w_ca w of
        Some _ \<Rightarrow> (0, w)
      | None \<Rightarrow>
          (case mb_crt_parse mb w of (r, w1) \<Rightarrow>
             if r \<noteq> 0 then (r, w1) else (0, w1\<lparr>w_ca := Some 0\<rparr>)))"

definition global_tls_ca_get :: "world \<Rightarrow> nat option" where
  "global_tls_ca_get w = (case w_ca w of None \<Rightarrow> None | Some ca \<Rightarrow> Some ca)"

definition global_tls_ca_dispose :: "world \<Rightarrow> world" where
  "global_tls_ca_dispose w = (case w_ca w of None \<Rightarrow> w | Some _ \<Rightarrow> w\<lparr>w_ca := None\<rparr>)"

section \<open>The callbacks handed to the library\<close>

definition would_block :: "errno \<Rightarrow> bool" where
  "would_block e \<longleftrightarrow> e = EAGAIN \<or> e = EINTR"

text \<open>The source calls the two functions of the BIO without a test. \<open>tls_client_init\<close> refuses a BIO that lacks one of them
  (lemma \<open>tls_init_has_bio\<close>), so the branches for a missing one are never taken on a client that was initialised; the library
  is given an error there.\<close>

definition tls_bio_send :: "'s mbedtls \<Rightarrow> 's TLS_Client \<Rightarrow> send_fn" where
  "tls_bio_send mb c buf w =
     (case bio_send (tls_bio c) of
        None \<Rightarrow> (MBEDTLS_ERR_SSL_INTERNAL_ERROR mb, w)
      | Some snd_fn \<Rightarrow>
          (case snd_fn buf w of (res, w1) \<Rightarrow>
             (if res > 0 then res
              else if res = 0 then MBEDTLS_ERR_SSL_WANT_WRITE mb
              else if would_block (w_errno w1) then MBEDTLS_ERR_SSL_WANT_WRITE mb
              else MBEDTLS_ERR_SSL_INTERNAL_ERROR mb, w1)))"

definition tls_bio_recv :: "'s mbedtls \<Rightarrow> 's TLS_Client \<Rightarrow> recv_fn" where
  "tls_bio_recv mb c len w =
     (case bio_recv (tls_bio c) of
        None \<Rightarrow> (MBEDTLS_ERR_SSL_INTERNAL_ERROR mb, [], w)
      | Some rcv \<Rightarrow>
          (case rcv len w of (res, bs, w1) \<Rightarrow>
             (if res > 0 then res
              else if res = 0 then MBEDTLS_ERR_SSL_CONN_EOF mb
              else if would_block (w_errno w1) then MBEDTLS_ERR_SSL_WANT_READ mb
              else MBEDTLS_ERR_SSL_INTERNAL_ERROR mb, bs, w1)))"

section \<open>Operations\<close>

definition tls_client_init ::
  "'s mbedtls \<Rightarrow> 's TLS_Client option \<Rightarrow> cstring option \<Rightarrow> TLS_BIO option \<Rightarrow> world \<Rightarrow>
     int \<times> 's TLS_Client option \<times> world" where
  "tls_client_init mb tls host bio w =
     (case (tls, bio) of
        (Some _, Some b) \<Rightarrow>
          if bio_send b = None \<or> bio_recv b = None then (ERR_INVALID_ARG, tls, w)
          else
            (let c0 = (zero_tls mb)\<lparr>tls_bio := b, tls_ssl := mb_ssl_init mb\<rparr> in
             (case mb_ctr_drbg_seed mb w of (res, w1) \<Rightarrow>
                if res \<noteq> 0 then (ERR_IO, Some c0, w1)
                else
                  (let c1 = c0\<lparr>tls_seeded := True\<rparr> in
                   (case mb_config_defaults mb w1 of (res2, w2) \<Rightarrow>
                      if res2 \<noteq> 0 then (ERR_IO, Some c1, w2)
                      else
                        (let conf2 = (tls_conf c1)\<lparr>conf_is_client := True, conf_authmode := VERIFY_REQUIRED,
                                                  conf_rng := True\<rparr>;
                             c2 = c1\<lparr>tls_conf := conf2\<rparr> in
                         (case global_tls_ca_get w2 of
                            None \<Rightarrow> (ERR_IO, Some c2, w2)
                          | Some ca \<Rightarrow>
                              (let conf3 = conf2\<lparr>conf_ca := Some ca\<rparr>; c3 = c2\<lparr>tls_conf := conf3\<rparr> in
                               (case mb_ssl_setup mb conf3 (tls_ssl c3) w2 of (res3, s3, w3) \<Rightarrow>
                                  if res3 \<noteq> 0 then (ERR_IO, Some (c3\<lparr>tls_ssl := s3\<rparr>), w3)
                                  else
                                    (case mb_set_hostname mb host s3 w3 of (res4, s4, w4) \<Rightarrow>
                                       if res4 \<noteq> 0 then (ERR_IO, Some (c3\<lparr>tls_ssl := s4\<rparr>), w4)
                                       else (SUCCESS,
                                             Some (c3\<lparr>tls_ssl := s4, tls_handshake_done := 0\<rparr>), w4))))))))))
      | _ \<Rightarrow> (ERR_INVALID_ARG, tls, w))"

definition tls_client_handshake_step ::
  "'s mbedtls \<Rightarrow> 's TLS_Client option \<Rightarrow> world \<Rightarrow>
     int \<times> 's TLS_Client option \<times> world" where
  "tls_client_handshake_step mb tls w =
     (case tls of
        None \<Rightarrow> (ERR_INVALID_ARG, tls, w)
      | Some c \<Rightarrow>
          if tls_handshake_done c \<noteq> 0 then (SUCCESS, tls, w)
          else
            (case mb_handshake mb (tls_bio_send mb c) (tls_bio_recv mb c) (tls_ssl c) w of (res, s, w1) \<Rightarrow>
               (let c1 = c\<lparr>tls_ssl := s\<rparr> in
                if res = 0 then (SUCCESS, Some (c1\<lparr>tls_handshake_done := 1\<rparr>), w1)
                else if res = MBEDTLS_ERR_SSL_WANT_READ mb \<or> res = MBEDTLS_ERR_SSL_WANT_WRITE mb
                then (ERR_IN_PROGRESS, Some c1, w1\<lparr>w_errno := EAGAIN\<rparr>)
                else (ERR_IO, Some c1, w1))))"

definition tls_client_read ::
  "'s mbedtls \<Rightarrow> 's TLS_Client option \<Rightarrow> nat \<Rightarrow> world \<Rightarrow>
     int \<times> byte list \<times> 's TLS_Client option \<times> world" where
  "tls_client_read mb tls len w =
     (case tls of
        None \<Rightarrow> (ERR_INVALID_ARG, [], tls, w)
      | Some c \<Rightarrow>
          (case mb_read mb (tls_bio_send mb c) (tls_bio_recv mb c) len (tls_ssl c) w of (res, bs, s, w1) \<Rightarrow>
             (let t1 = Some (c\<lparr>tls_ssl := s\<rparr>) in
              if res > 0 then (res, bs, t1, w1)
              else if res = 0 then (0, [], t1, w1)
              else if res = MBEDTLS_ERR_SSL_WANT_READ mb \<or> res = MBEDTLS_ERR_SSL_WANT_WRITE mb
              then (-1, [], t1, w1\<lparr>w_errno := EAGAIN\<rparr>)
              else if res = MBEDTLS_ERR_SSL_PEER_CLOSE_NOTIFY mb then (0, [], t1, w1)
              else (-1, [], t1, w1\<lparr>w_errno := EIO\<rparr>))))"

definition tls_client_write ::
  "'s mbedtls \<Rightarrow> 's TLS_Client option \<Rightarrow> byte list option \<Rightarrow> world \<Rightarrow>
     int \<times> 's TLS_Client option \<times> world" where
  "tls_client_write mb tls buf w =
     (case (tls, buf) of
        (Some c, Some bs) \<Rightarrow>
          (case mb_write mb (tls_bio_send mb c) (tls_bio_recv mb c) bs (tls_ssl c) w of (res, s, w1) \<Rightarrow>
             (let t1 = Some (c\<lparr>tls_ssl := s\<rparr>) in
              if res \<ge> 0 then (res, t1, w1)
              else if res = MBEDTLS_ERR_SSL_WANT_READ mb \<or> res = MBEDTLS_ERR_SSL_WANT_WRITE mb
              then (-1, t1, w1\<lparr>w_errno := EAGAIN\<rparr>)
              else (-1, t1, w1\<lparr>w_errno := EIO\<rparr>)))
      | _ \<Rightarrow> (ERR_INVALID_ARG, tls, w))"

definition tls_client_dispose ::
  "'s mbedtls \<Rightarrow> 's TLS_Client option \<Rightarrow> world \<Rightarrow>
     's TLS_Client option \<times> world" where
  "tls_client_dispose mb tls w =
     (case tls of
        None \<Rightarrow> (None, w)
      | Some c \<Rightarrow>
          (case mb_close_notify mb (tls_bio_send mb c) (tls_bio_recv mb c) (tls_ssl c) w of (_, w1) \<Rightarrow>
             (Some (zero_tls mb), w1)))"

lemma tls_init_has_bio:
  assumes "tls_client_init mb tls host bio w = (SUCCESS, Some c, w')"
  shows "bio_send (tls_bio c) \<noteq> None \<and> bio_recv (tls_bio c) \<noteq> None"
  using assms
  by (auto simp: tls_client_init_def Let_def err_codes split: option.splits prod.splits if_splits)

section \<open>Properties\<close>

text \<open>C18: A TLS client that initialises successfully was set up for verified connections only: the
  session was created from a client configuration that requires certificate verification against the
  global CA chain with the seeded generator, the library accepted the host name given, and no
  handshake has been done; without a loaded CA chain initialisation never succeeds.\<close>

theorem tls_init_verifies_peer:
  assumes "tls_client_init mb tls host bio w = (SUCCESS, Some c, w')"
  shows "conf_is_client (tls_conf c) \<and> conf_authmode (tls_conf c) = VERIFY_REQUIRED \<and>
     conf_rng (tls_conf c) \<and> tls_seeded c \<and> tls_handshake_done c = 0 \<and> Some (tls_bio c) = bio \<and>
     (\<exists>ca s3 w2 w3. conf_ca (tls_conf c) = Some ca \<and> global_tls_ca_get w2 = Some ca \<and>
        mb_ssl_setup mb (tls_conf c) (mb_ssl_init mb) w2 = (0, s3, w3) \<and>
        mb_set_hostname mb host s3 w3 = (0, tls_ssl c, w'))"
  using assms
  by (auto simp: tls_client_init_def Let_def zero_tls_def err_codes
      split: option.splits prod.splits if_splits) blast

text \<open>A library that accepts everything and passes the bytes through, to show that successful runs exist.\<close>

definition mb_example :: "nat mbedtls" where
  "mb_example = \<lparr>mb_ssl_zero = 0, mb_ssl_init = 1,
     mb_ctr_drbg_seed = (\<lambda>w. (0, w)), mb_config_defaults = (\<lambda>w. (0, w)),
     mb_ssl_setup = (\<lambda>_ s w. (0, s, w)), mb_set_hostname = (\<lambda>_ s w. (0, s, w)),
     mb_handshake = (\<lambda>_ _ s w. (0, s, w)),
     mb_read = (\<lambda>_ rcv len s w. case rcv len w of (r, bs, w') \<Rightarrow> (r, bs, s, w')),
     mb_write = (\<lambda>snd_fn _ bs s w. case snd_fn bs w of (r, w') \<Rightarrow> (r, s, w')),
     mb_close_notify = (\<lambda>_ _ s w. (s, w)), mb_crt_parse = (\<lambda>w. (0, w)),
     MBEDTLS_ERR_SSL_WANT_READ = -26880, MBEDTLS_ERR_SSL_WANT_WRITE = -26752,
     MBEDTLS_ERR_SSL_CONN_EOF = -29312, MBEDTLS_ERR_SSL_INTERNAL_ERROR = -27648,
     MBEDTLS_ERR_SSL_PEER_CLOSE_NOTIFY = -30848\<rparr>"

theorem tls_init_verifies_peer_witness:
  "\<exists>c w'. tls_client_init mb_example (Some (zero_tls mb_example)) (Some ''h'')
       (Some \<lparr>bio_send = Some (\<lambda>_ w. (0, w)), bio_recv = Some (\<lambda>_ w. (0, [], w))\<rparr>)
       ((world0 0)\<lparr>w_ca := Some 0\<rparr>) = (SUCCESS, Some c, w') \<and>
     conf_authmode (tls_conf c) = VERIFY_REQUIRED"
proof -
  obtain c w' where "tls_client_init mb_example (Some (zero_tls mb_example)) (Some ''h'')
       (Some \<lparr>bio_send = Some (\<lambda>_ w. (0, w)), bio_recv = Some (\<lambda>_ w. (0, [], w))\<rparr>)
       ((world0 0)\<lparr>w_ca := Some 0\<rparr>) = (SUCCESS, Some c, w')"
    by (simp add: tls_client_init_def mb_example_def global_tls_ca_get_def zero_tls_def Let_def)
  with tls_init_verifies_peer [OF this] show ?thesis by blast
qed

end
