(* ===== verification/Linked_List.thy ===== *)
theory Linked_List imports Prelude begin

text \<open>
  The doubly linked list of \<^verbatim>\<open>modules/src/linked_list.c\<close>, at the level of its pointers.

  A list owns its nodes: \<open>ll_nodes\<close> is the part of the heap that holds them (an address is a
  natural number, NULL is \<open>None\<close>, a freed node is outside the domain) and \<open>ll_fresh\<close> the next
  address the allocator hands out. A node of one list is never shared with another in the
  sources, so the store travels with the list. Reading a freed or absent node is the fault
  \<open>UseAfterFree\<close>; dereferencing NULL is \<open>NullDeref\<close>. The counter is an \<^verbatim>\<open>unsigned int\<close> and wraps.

  The invariant \<open>ll_wf\<close> says the nodes form one doubly linked chain; \<open>ll_items\<close> is the sequence
  of items it stores. The locale \<open>item_list\<close> is what the clients of the list (the HTTP parser,
  the thread pool) rely on; it is interpreted on the operations below.
\<close>

section \<open>Data\<close>

record 'a linked_item =
  li_prev :: "nat option"
  li_next :: "nat option"
  li_item :: 'a

record 'a linked_list =
  ll_head :: "nat option"
  ll_tail :: "nat option"
  ll_count :: "32 word"
  ll_nodes :: "nat \<Rightarrow> 'a linked_item option"
  ll_fresh :: nat

section \<open>Operations\<close>

definition ll_empty :: "'a linked_list" where
  "ll_empty = \<lparr>ll_head = None, ll_tail = None, ll_count = 0, ll_nodes = Map.empty, ll_fresh = 0\<rparr>"

definition linked_list_create :: "alloc \<Rightarrow> 'a linked_list option \<times> alloc" where
  "linked_list_create a =
     (case malloc a of (ok, a') \<Rightarrow>
        if \<not> ok then (None, a') else (Some (ll_empty\<lparr>ll_count := 0\<rparr>), a'))"

definition linked_list_item_add ::
  "'a linked_list \<Rightarrow> 'a \<Rightarrow> alloc \<Rightarrow> (int \<times> nat option \<times> 'a linked_list \<times> alloc) res" where
  "linked_list_item_add l x a =
     (case malloc a of (ok, a') \<Rightarrow>
        if \<not> ok then Inr (-1, None, l, a')
        else
          let p = ll_fresh l; l0 = l\<lparr>ll_fresh := Suc p\<rparr> in
          (case ll_tail l of
             None \<Rightarrow>
               Inr (0, Some p,
                 l0\<lparr>ll_nodes := (ll_nodes l)(p \<mapsto> \<lparr>li_prev = None, li_next = None, li_item = x\<rparr>),
                    ll_head := Some p, ll_tail := Some p, ll_count := ll_count l + 1\<rparr>, a')
           | Some t \<Rightarrow>
               (case ll_nodes l t of
                  None \<Rightarrow> Inl UseAfterFree
                | Some tn \<Rightarrow>
                    Inr (0, Some p,
                      l0\<lparr>ll_nodes := (ll_nodes l)
                            (p \<mapsto> \<lparr>li_prev = Some t, li_next = None, li_item = x\<rparr>,
                             t \<mapsto> tn\<lparr>li_next := Some p\<rparr>),
                         ll_tail := Some p, ll_count := ll_count l + 1\<rparr>, a'))))"

text \<open>Writing through a pointer: \<open>p->next = v\<close> and \<open>p->prev = v\<close>.\<close>

definition set_next :: "(nat \<Rightarrow> 'a linked_item option) \<Rightarrow> nat \<Rightarrow> nat option \<Rightarrow>
    (nat \<Rightarrow> 'a linked_item option) res" where
  "set_next h p v = (case h p of None \<Rightarrow> Inl UseAfterFree | Some n \<Rightarrow> Inr (h(p \<mapsto> n\<lparr>li_next := v\<rparr>)))"

definition set_prev :: "(nat \<Rightarrow> 'a linked_item option) \<Rightarrow> nat \<Rightarrow> nat option \<Rightarrow>
    (nat \<Rightarrow> 'a linked_item option) res" where
  "set_prev h p v = (case h p of None \<Rightarrow> Inl UseAfterFree | Some n \<Rightarrow> Inr (h(p \<mapsto> n\<lparr>li_prev := v\<rparr>)))"

definition linked_list_item_remove :: "'a linked_list \<Rightarrow> nat \<Rightarrow> 'a linked_list res" where
  "linked_list_item_remove l p =
     (case ll_nodes l p of
        None \<Rightarrow> Inl UseAfterFree
      | Some it \<Rightarrow>
          (case (li_prev it, li_next it) of
             (None, None) \<Rightarrow>
               Inr (l\<lparr>ll_head := None, ll_tail := None,
                      ll_nodes := (ll_nodes l)(p := None), ll_count := ll_count l - 1\<rparr>)
           | (None, Some nx) \<Rightarrow>
               (case set_prev (ll_nodes l) nx None of
                  Inl f \<Rightarrow> Inl f
                | Inr h \<Rightarrow> Inr (l\<lparr>ll_head := Some nx,
                      ll_nodes := h(p := None), ll_count := ll_count l - 1\<rparr>))
           | (Some pv, None) \<Rightarrow>
               (case set_next (ll_nodes l) pv None of
                  Inl f \<Rightarrow> Inl f
                | Inr h \<Rightarrow> Inr (l\<lparr>ll_tail := Some pv,
                      ll_nodes := h(p := None), ll_count := ll_count l - 1\<rparr>))
           | (Some pv, Some nx) \<Rightarrow>
               (case set_next (ll_nodes l) pv (Some nx) of
                  Inl f \<Rightarrow> Inl f
                | Inr h \<Rightarrow>
                    (case set_prev h nx (Some pv) of
                       Inl f \<Rightarrow> Inl f
                     | Inr h' \<Rightarrow> Inr (l\<lparr>ll_nodes := h'(p := None), ll_count := ll_count l - 1\<rparr>)))))"

text \<open>The loops over a list: \<open>None\<close> is a loop that never ends (a cyclic list).\<close>

partial_function (option) linked_list_items_dispose ::
  "'a linked_list \<Rightarrow> 'a linked_list res option" where
  "linked_list_items_dispose l =
     (case ll_head l of
        None \<Rightarrow> Some (Inr l)
      | Some p \<Rightarrow>
          (case linked_list_item_remove l p of
             Inl f \<Rightarrow> Some (Inl f)
           | Inr l' \<Rightarrow> linked_list_items_dispose l'))"

declare linked_list_items_dispose.simps [code]

text \<open>\<open>linked_list_destroy\<close> leaves NULL in the caller's pointer.\<close>

definition linked_list_destroy :: "'a linked_list option \<Rightarrow> 'a linked_list option res option" where
  "linked_list_destroy lp =
     (case lp of
        None \<Rightarrow> Some (Inr None)
      | Some l \<Rightarrow>
          (case linked_list_items_dispose l of
             None \<Rightarrow> None
           | Some (Inl f) \<Rightarrow> Some (Inl f)
           | Some (Inr l') \<Rightarrow> Some (Inr None)))"

text \<open>The items \<open>linked_list_foreach\<close> visits, in order.\<close>

partial_function (option) ll_walk ::
  "(nat \<Rightarrow> 'a linked_item option) \<Rightarrow> nat option \<Rightarrow> 'a list \<Rightarrow> 'a list res option" where
  "ll_walk h p acc =
     (case p of
        None \<Rightarrow> Some (Inr acc)
      | Some q \<Rightarrow>
          (case h q of
             None \<Rightarrow> Some (Inl UseAfterFree)
           | Some n \<Rightarrow> ll_walk h (li_next n) (acc @ [li_item n])))"

declare ll_walk.simps [code]

definition linked_list_foreach :: "'a linked_list \<Rightarrow> 'a list res option" where
  "linked_list_foreach l = ll_walk (ll_nodes l) (ll_head l) []"

definition ll_items :: "'a linked_list \<Rightarrow> 'a list" where
  "ll_items l = (case linked_list_foreach l of Some (Inr xs) \<Rightarrow> xs | _ \<Rightarrow> [])"

section \<open>Invariant\<close>

definition link_prev :: "nat list \<Rightarrow> nat \<Rightarrow> nat option" where
  "link_prev as i = (if i = 0 then None else Some (as ! (i - 1)))"

definition link_next :: "nat list \<Rightarrow> nat \<Rightarrow> nat option" where
  "link_next as i = (if Suc i < length as then Some (as ! Suc i) else None)"

definition ll_chain :: "'a linked_list \<Rightarrow> nat list \<Rightarrow> 'a list \<Rightarrow> bool" where
  "ll_chain l as xs \<longleftrightarrow>
     distinct as \<and> length xs = length as \<and> dom (ll_nodes l) = set as \<and>
     (\<forall>a \<in> set as. a < ll_fresh l) \<and>
     ll_head l = (if as = [] then None else Some (hd as)) \<and>
     ll_tail l = (if as = [] then None else Some (last as)) \<and>
     ll_count l = of_nat (length as) \<and>
     (\<forall>i < length as. ll_nodes l (as ! i) =
        Some \<lparr>li_prev = link_prev as i, li_next = link_next as i, li_item = xs ! i\<rparr>)"

definition ll_wf :: "'a linked_list \<Rightarrow> bool" where
  "ll_wf l \<longleftrightarrow> (\<exists>as xs. ll_chain l as xs)"

lemma ll_wfI [intro]: "ll_chain l as xs \<Longrightarrow> ll_wf l"
  by (auto simp: ll_wf_def)

lemma ll_chain_empty: "ll_chain ll_empty [] []"
  by (simp add: ll_chain_def ll_empty_def)

lemma ll_walk_suffix:
  assumes "ll_chain l as xs" "i \<le> length as"
  shows "ll_walk (ll_nodes l) (if i < length as then Some (as ! i) else None) acc
           = Some (Inr (acc @ drop i xs))"
  using assms(2)
proof (induction "length as - i" arbitrary: i acc)
  case 0
  with assms(1) show ?case by (simp add: ll_walk.simps ll_chain_def)
next
  case (Suc n)
  then have i: "i < length as" by simp
  have node: "ll_nodes l (as ! i) =
      Some \<lparr>li_prev = link_prev as i, li_next = link_next as i, li_item = xs ! i\<rparr>"
    and len: "length xs = length as"
    using assms(1) i by (auto simp: ll_chain_def)
  have "ll_walk (ll_nodes l) (if Suc i < length as then Some (as ! Suc i) else None) (acc @ [xs ! i])
      = Some (Inr ((acc @ [xs ! i]) @ drop (Suc i) xs))"
    using Suc.hyps i by (intro Suc.hyps(1)) auto
  then show ?case
    using i len by (simp add: ll_walk.simps [of _ "Some (as ! i)"] node link_next_def Cons_nth_drop_Suc)
qed

lemma ll_foreach_chain: "ll_chain l as xs \<Longrightarrow> linked_list_foreach l = Some (Inr xs)"
  using ll_walk_suffix [of l as xs 0 "[]"]
  by (auto simp: linked_list_foreach_def ll_chain_def hd_conv_nth split: if_splits)

lemma ll_items_chain: "ll_chain l as xs \<Longrightarrow> ll_items l = xs"
  by (simp add: ll_items_def ll_foreach_chain)

section \<open>The operations keep the invariant\<close>

lemma ll_chain_add:
  assumes "ll_chain l as xs" "malloc a = (True, a')"
  shows "\<exists>l'. linked_list_item_add l x a = Inr (0, Some (ll_fresh l), l', a') \<and>
           ll_chain l' (as @ [ll_fresh l]) (xs @ [x])"
proof (cases "as = []")
  case True
  with assms show ?thesis
    by (auto simp: linked_list_item_add_def ll_chain_def link_prev_def link_next_def Let_def)
next
  case False
  let ?p = "ll_fresh l"
  let ?k = "length as - 1"
  have k: "?k < length as" "last as = as ! ?k" using False by (auto simp: last_conv_nth)
  have fresh: "?p \<notin> set as" using assms(1) by (auto simp: ll_chain_def)
  have tl: "ll_tail l = Some (as ! ?k)" using assms(1) False k by (simp add: ll_chain_def)
  have tn: "ll_nodes l (as ! ?k) =
      Some \<lparr>li_prev = link_prev as ?k, li_next = link_next as ?k, li_item = xs ! ?k\<rparr>"
    using assms(1) k by (simp add: ll_chain_def)
  define l' where "l' = l\<lparr>ll_fresh := Suc ?p,
      ll_nodes := (ll_nodes l)(?p \<mapsto> \<lparr>li_prev = Some (as ! ?k), li_next = None, li_item = x\<rparr>,
        as ! ?k \<mapsto> \<lparr>li_prev = link_prev as ?k, li_next = Some ?p, li_item = xs ! ?k\<rparr>),
      ll_tail := Some ?p, ll_count := ll_count l + 1\<rparr>"
  have "linked_list_item_add l x a = Inr (0, Some ?p, l', a')"
    using assms(2) tl tn by (simp add: linked_list_item_add_def Let_def l'_def)
  moreover have "ll_chain l' (as @ [?p]) (xs @ [x])"
  proof -
    have nodes: "ll_nodes l' ((as @ [?p]) ! i) = Some \<lparr>li_prev = link_prev (as @ [?p]) i,
        li_next = link_next (as @ [?p]) i, li_item = (xs @ [x]) ! i\<rparr>"
      if i: "i < length (as @ [?p])" for i
    proof -
      consider "i = length as" | "i = ?k" | "i < ?k" using i k(1) by fastforce
      then show ?thesis
      proof cases
        case 3
        then have "as ! i \<in> set as" by simp
        with fresh have "as ! i \<noteq> ?p" by metis
        moreover have "as ! i \<noteq> as ! ?k"
          using 3 assms(1) k by (auto simp: ll_chain_def nth_eq_iff_index_eq)
        ultimately have ne: "as ! i \<noteq> as ! ?k" "as ! i \<noteq> ?p" by auto
        then show ?thesis
          using 3 assms(1) k by (auto simp: l'_def ll_chain_def link_prev_def link_next_def nth_append)
      qed (use assms(1) k fresh False in
          \<open>auto simp: l'_def ll_chain_def link_prev_def link_next_def nth_append\<close>)
    qed
    show ?thesis
      using assms(1) fresh False k nodes nth_mem [OF k(1)]
      by (auto simp: l'_def ll_chain_def less_Suc_eq)
  qed
  ultimately show ?thesis by blast
qed

lemma ll_add_no_memory:
  "malloc a = (False, a') \<Longrightarrow> linked_list_item_add l x a = Inr (-1, None, l, a')"
  by (simp add: linked_list_item_add_def)

text \<open>Removing the node at position \<open>k\<close>: what each branch of the code writes.\<close>

definition unlinked :: "'a linked_list \<Rightarrow> nat list \<Rightarrow> nat \<Rightarrow> nat \<Rightarrow> 'a linked_item option" where
  "unlinked l as k a =
     (if a = as ! k then None
      else if 0 < k \<and> a = as ! (k - 1)
           then map_option (\<lambda>n. n\<lparr>li_next := link_next as k\<rparr>) (ll_nodes l a)
      else if Suc k < length as \<and> a = as ! Suc k
           then map_option (\<lambda>n. n\<lparr>li_prev := link_prev as k\<rparr>) (ll_nodes l a)
      else ll_nodes l a)"

lemma ll_remove_nodes:
  assumes c: "ll_chain l as xs" and k: "k < length as"
  shows "linked_list_item_remove l (as ! k) = Inr (l\<lparr>
      ll_head := (if k = 0 then link_next as k else ll_head l),
      ll_tail := (if Suc k = length as then link_prev as k else ll_tail l),
      ll_nodes := unlinked l as k, ll_count := ll_count l - 1\<rparr>)"
proof -
  have node: "\<And>i. i < length as \<Longrightarrow> ll_nodes l (as ! i) =
      Some \<lparr>li_prev = link_prev as i, li_next = link_next as i, li_item = xs ! i\<rparr>"
    and inj: "\<And>i j. i < length as \<Longrightarrow> j < length as \<Longrightarrow> as ! i = as ! j \<longleftrightarrow> i = j"
    using c by (auto simp: ll_chain_def nth_eq_iff_index_eq)
  show ?thesis
  proof (cases k)
    case 0
    show ?thesis
    proof (cases "Suc 0 = length as")
      case True
      then have "0 < length as" by linarith
      with True show ?thesis using 0 node [of 0]
        by (simp add: linked_list_item_remove_def link_prev_def link_next_def unlinked_def fun_eq_iff)
    next
      case False
      with k 0 have "Suc 0 < length as" by linarith
      moreover from this have "as \<noteq> []" by auto
      ultimately have "Suc 0 < length as" "as \<noteq> []" by auto
      then show ?thesis using 0 node [of 0] node [of "Suc 0"] inj [of "Suc 0" 0]
        by (auto simp: linked_list_item_remove_def link_prev_def link_next_def unlinked_def
            set_prev_def fun_eq_iff)
    qed
  next
    case (Suc m)
    show ?thesis
    proof (cases "Suc k < length as")
      case True
      then show ?thesis
        using Suc node [of m] node [of "Suc m"] node [of "Suc (Suc m)"]
          inj [of m "Suc m"] inj [of "Suc (Suc m)" "Suc m"] inj [of m "Suc (Suc m)"]
        by (auto simp: linked_list_item_remove_def link_prev_def link_next_def unlinked_def
            set_next_def set_prev_def fun_eq_iff)
    next
      case False
      then show ?thesis using Suc k node [of m] node [of "Suc m"] inj [of m "Suc m"]
        by (auto simp: linked_list_item_remove_def link_prev_def link_next_def unlinked_def
            set_next_def fun_eq_iff)
    qed
  qed
qed

definition drop_nth :: "nat \<Rightarrow> 'a list \<Rightarrow> 'a list" where
  "drop_nth k xs = take k xs @ drop (Suc k) xs"

lemma nth_drop_nth:
  "k < length xs \<Longrightarrow> i < length xs - 1 \<Longrightarrow> drop_nth k xs ! i = (if i < k then xs ! i else xs ! Suc i)"
  by (auto simp: drop_nth_def nth_append min_def)

lemma length_drop_nth [simp]: "k < length xs \<Longrightarrow> length (drop_nth k xs) = length xs - 1"
  by (auto simp: drop_nth_def)

lemma set_drop_nth: "distinct xs \<Longrightarrow> k < length xs \<Longrightarrow> set (drop_nth k xs) = set xs - {xs ! k}"
proof -
  assume d: "distinct xs" and k: "k < length xs"
  have "xs = take k xs @ xs ! k # drop (Suc k) xs" using k by (rule id_take_nth_drop)
  with d show ?thesis
    unfolding drop_nth_def by (metis (no_types, lifting) Diff_insert_absorb Un_insert_right
        distinct_append disjoint_insert(2) distinct.simps(2) list.simps(15) set_append Un_iff)
qed

lemma distinct_drop_nth: "distinct xs \<Longrightarrow> distinct (drop_nth k xs)"
  by (auto simp: drop_nth_def set_take_disj_set_drop_if_distinct)

lemma link_prev_drop_nth:
  assumes "k < length as" "i < length as - 1"
  shows "link_prev (drop_nth k as) i =
    (if i < k then link_prev as i else if i = k then link_prev as k else link_prev as (Suc i))"
  using assms nth_drop_nth [of k as "i - 1"] by (auto simp: link_prev_def)

lemma link_next_drop_nth:
  assumes "k < length as" "i < length as - 1"
  shows "link_next (drop_nth k as) i =
    (if k \<le> i then link_next as (Suc i) else if Suc i = k then link_next as k else link_next as i)"
  using assms nth_drop_nth [of k as "Suc i"] by (auto simp: link_next_def)

lemma unlinked_nth:
  assumes c: "ll_chain l as xs" and k: "k < length as" and i: "i < length as - 1"
  shows "unlinked l as k (drop_nth k as ! i) =
    Some \<lparr>li_prev = link_prev (drop_nth k as) i, li_next = link_next (drop_nth k as) i,
          li_item = drop_nth k xs ! i\<rparr>"
proof -
  define j where "j = (if i < k then i else Suc i)"
  have j: "j < length as" "j \<noteq> k" "drop_nth k as ! i = as ! j" "drop_nth k xs ! i = xs ! j"
    using k i c by (auto simp: j_def nth_drop_nth ll_chain_def)
  have node: "ll_nodes l (as ! j) =
      Some \<lparr>li_prev = link_prev as j, li_next = link_next as j, li_item = xs ! j\<rparr>"
    using c j(1) by (simp add: ll_chain_def)
  have inj: "\<And>m. m < length as \<Longrightarrow> as ! j = as ! m \<longleftrightarrow> j = m"
    using c j(1) by (auto simp: ll_chain_def nth_eq_iff_index_eq)
  have "unlinked l as k (as ! j) = Some \<lparr>li_prev = (if j = Suc k then link_prev as k else link_prev as j),
      li_next = (if Suc j = k then link_next as k else link_next as j), li_item = xs ! j\<rparr>"
  proof -
    have "as ! j \<noteq> as ! k" using j(2) inj [OF k] by simp
    moreover have "0 < k \<and> as ! j = as ! (k - 1) \<longleftrightarrow> Suc j = k"
      using k inj [of "k - 1"] by (cases k) auto
    moreover have "Suc k < length as \<and> as ! j = as ! Suc k \<longleftrightarrow> j = Suc k"
      using j(1) inj [of "Suc k"] by auto
    ultimately show ?thesis using node by (auto simp: unlinked_def)
  qed
  then show ?thesis
    using k i j by (auto simp: j_def link_prev_drop_nth link_next_drop_nth)
qed

lemma ll_chain_remove:
  assumes c: "ll_chain l as xs" and k: "k < length as"
  shows "\<exists>l'. linked_list_item_remove l (as ! k) = Inr l' \<and>
           ll_chain l' (drop_nth k as) (drop_nth k xs)"
proof -
  define l' where "l' = l\<lparr>
      ll_head := (if k = 0 then link_next as k else ll_head l),
      ll_tail := (if Suc k = length as then link_prev as k else ll_tail l),
      ll_nodes := unlinked l as k, ll_count := ll_count l - 1\<rparr>"
  have d: "distinct as" and dm: "dom (ll_nodes l) = set as" and len: "length xs = length as"
    using c by (auto simp: ll_chain_def)
  have dom: "dom (unlinked l as k) = set (drop_nth k as)"
  proof -
    have "unlinked l as k a = None \<longleftrightarrow> a = as ! k \<or> ll_nodes l a = None" for a
      by (simp add: unlinked_def)
    then have "dom (unlinked l as k) = dom (ll_nodes l) - {as ! k}" by (auto simp: dom_def)
    then show ?thesis using dm by (simp add: set_drop_nth [OF d k])
  qed
  have hd: "ll_head l' = (if drop_nth k as = [] then None else Some (hd (drop_nth k as)))"
  proof (cases as)
    case (Cons b bs)
    with c k show ?thesis
      by (cases k; cases bs) (auto simp: l'_def ll_chain_def link_next_def drop_nth_def)
  qed (use k in simp)
  have tl: "ll_tail l' = (if drop_nth k as = [] then None else Some (last (drop_nth k as)))"
  proof (cases as rule: rev_cases)
    case (snoc bs b)
    with c k have "k < length bs \<or> k = length bs" by auto
    moreover have "last bs = bs ! (length bs - 1)" if "bs \<noteq> []" using that by (rule last_conv_nth)
    ultimately show ?thesis
      using snoc c k by (auto simp: l'_def ll_chain_def link_prev_def drop_nth_def nth_append)
  qed (use k in simp)
  have cnt: "ll_count l' = of_nat (length (drop_nth k as))"
    using c k by (simp add: l'_def ll_chain_def of_nat_diff)
  have "ll_chain l' (drop_nth k as) (drop_nth k xs)"
    unfolding ll_chain_def
    using c k hd tl cnt dom len unlinked_nth [OF c k] set_drop_nth [OF d k] distinct_drop_nth [OF d]
    by (auto simp: l'_def ll_chain_def)
  then show ?thesis using ll_remove_nodes [OF c k] unfolding l'_def by blast
qed

lemma ll_dispose_chain:
  "ll_chain l as xs \<Longrightarrow> \<exists>l'. linked_list_items_dispose l = Some (Inr l') \<and> ll_chain l' [] []"
proof (induction as arbitrary: l xs)
  case Nil
  then have "ll_head l = None" "xs = []" by (auto simp: ll_chain_def)
  with Nil show ?case by (auto simp: linked_list_items_dispose.simps)
next
  case (Cons a as)
  then obtain l' where l': "linked_list_item_remove l a = Inr l'"
      "ll_chain l' (drop_nth 0 (a # as)) (drop_nth 0 xs)"
    using ll_chain_remove [of l "a # as" xs 0] by auto
  then have "ll_chain l' as (drop_nth 0 xs)" by (simp add: drop_nth_def)
  from Cons.IH [OF this] obtain m where
    "linked_list_items_dispose l' = Some (Inr m)" "ll_chain m [] []" by blast
  moreover have "ll_head l = Some a" using Cons.prems by (simp add: ll_chain_def)
  ultimately show ?case using l'(1) by (simp add: linked_list_items_dispose.simps [of l])
qed

section \<open>The interface of the list\<close>

text \<open>
  What a client relies on: a list denotes a sequence of items; adding appends, or leaves the
  list unchanged and answers -1 when the allocator refuses; visiting yields the sequence;
  removing the head drops the first item.
\<close>

locale item_list =
  fixes wf :: "'q \<Rightarrow> bool"
    and items :: "'q \<Rightarrow> 'a list"
    and add :: "'q \<Rightarrow> 'a \<Rightarrow> alloc \<Rightarrow> (int \<times> nat option \<times> 'q \<times> alloc) res"
    and visit :: "'q \<Rightarrow> 'a list res option"
    and remove_head :: "'q \<Rightarrow> 'q res"
    and cnt :: "'q \<Rightarrow> 32 word"
  assumes add_granted: "wf q \<Longrightarrow> malloc a = (True, a') \<Longrightarrow>
            \<exists>p q'. add q x a = Inr (0, p, q', a') \<and> wf q' \<and> items q' = items q @ [x]"
    and add_refused: "malloc a = (False, a') \<Longrightarrow> add q x a = Inr (-1, None, q, a')"
    and visit_items: "wf q \<Longrightarrow> visit q = Some (Inr (items q))"
    and remove_head_items: "wf q \<Longrightarrow> items q = x # xs \<Longrightarrow>
            \<exists>q'. remove_head q = Inr q' \<and> wf q' \<and> items q' = xs"
    and cnt_items: "wf q \<Longrightarrow> cnt q = of_nat (length (items q))"
begin

text \<open>Adding never faults on a well-formed list, whatever the allocator does.\<close>

lemma add_total:
  assumes "wf q"
  obtains r p q' a' where "add q x a = Inr (r, p, q', a')" "wf q'"
    "items q' = items q @ (if r = 0 then [x] else [])"
proof (cases "malloc a")
  case (Pair ok a')
  then show ?thesis
    using that add_granted [OF assms, of a a' x] add_refused [of a a' q x] assms
    by (cases ok) fastforce+
qed

lemma cnt_zero_iff:
  assumes "wf q" "length (items q) < 2 ^ 32"
  shows "cnt q = 0 \<longleftrightarrow> items q = []"
proof -
  have "unat (of_nat (length (items q)) :: 32 word) = length (items q)"
    using assms(2) by (simp add: unat_of_nat)
  then show ?thesis using cnt_items [OF assms(1)] by (metis length_0_conv unat_0 unat_eq_zero)
qed

end

definition ll_remove_head :: "'a linked_list \<Rightarrow> 'a linked_list res" where
  "ll_remove_head l = (case ll_head l of None \<Rightarrow> Inl NullDeref | Some p \<Rightarrow> linked_list_item_remove l p)"

lemma ll_remove_head_chain:
  assumes "ll_chain l (a # as) xs"
  shows "\<exists>l'. ll_remove_head l = Inr l' \<and> ll_chain l' as (tl xs)"
proof -
  obtain l' where "linked_list_item_remove l a = Inr l'" "ll_chain l' as (drop 1 xs)"
    using ll_chain_remove [OF assms, of 0] by (auto simp: drop_nth_def)
  moreover have "ll_head l = Some a" using assms by (simp add: ll_chain_def)
  ultimately show ?thesis by (simp add: ll_remove_head_def drop_Suc)
qed

interpretation ll: item_list ll_wf ll_items linked_list_item_add linked_list_foreach
  ll_remove_head ll_count
proof (unfold_locales, goal_cases)
  case (1 q a a' x)
  then obtain as xs where c: "ll_chain q as xs" by (auto simp: ll_wf_def)
  from ll_chain_add [OF c 1(2), of x] show ?case
    using ll_items_chain c by (metis ll_wfI)
next
  case (2 a a' q x)
  then show ?case by (rule ll_add_no_memory)
next
  case (3 q)
  then show ?case by (auto simp: ll_wf_def ll_foreach_chain ll_items_chain)
next
  case (4 q x xs)
  then obtain as ys where c: "ll_chain q as ys" by (auto simp: ll_wf_def)
  with 4 have ys: "ys = x # xs" by (simp add: ll_items_chain)
  with c obtain b bs where "as = b # bs" by (cases as) (auto simp: ll_chain_def)
  with c ys show ?case using ll_remove_head_chain [of q b bs ys] ll_items_chain by fastforce
next
  case (5 q)
  then show ?case by (auto simp: ll_wf_def ll_items_chain) (simp add: ll_chain_def)
qed

section \<open>Refinement of an abstract list\<close>

text \<open>
  What a user of the list may rely on: a list of items, each with a handle that stays the same until the
  item is removed. \<open>ll_spec\<close> is one abstract operation: an addition puts the item at the end under a
  handle not in use, or fails and changes nothing; a removal takes out the item with that handle.
\<close>

datatype 'a ll_op = Op_Add 'a | Op_Remove nat | Op_Clear

inductive ll_spec :: "'a ll_op \<Rightarrow> (nat \<times> 'a) list \<Rightarrow> (nat \<times> 'a) list \<Rightarrow> bool" where
  spec_add: "p \<notin> fst ` set xs \<Longrightarrow> ll_spec (Op_Add x) xs (xs @ [(p, x)])"
| spec_full: "ll_spec (Op_Add x) xs xs"
| spec_remove: "p \<in> fst ` set xs \<Longrightarrow> ll_spec (Op_Remove p) xs (filter (\<lambda>(q, _). q \<noteq> p) xs)"
| spec_clear: "ll_spec Op_Clear xs []"

inductive ll_abs :: "'a ll_op list \<Rightarrow> (nat \<times> 'a) list \<Rightarrow> bool" where
  abs_empty: "ll_abs [] []"
| abs_step: "ll_abs ops xs \<Longrightarrow> ll_spec op xs ys \<Longrightarrow> ll_abs (ops @ [op]) ys"

fun ll_exec :: "'a ll_op \<Rightarrow> 'a linked_list \<Rightarrow> alloc \<Rightarrow> ('a linked_list \<times> alloc) out" where
  "ll_exec (Op_Add x) l a = Some (res_bind (linked_list_item_add l x a) (\<lambda>(_, _, l', a'). Inr (l', a')))"
| "ll_exec (Op_Remove p) l a = Some (res_bind (linked_list_item_remove l p) (\<lambda>l'. Inr (l', a)))"
| "ll_exec Op_Clear l a = out_bind (linked_list_items_dispose l) (\<lambda>l'. ret (l', a))"

text \<open>The states the code reaches from \<^verbatim>\<open>linked_list_create\<close>; a node is removed at most once.\<close>

definition op_live :: "'a linked_list \<Rightarrow> 'a ll_op \<Rightarrow> bool" where
  "op_live l op \<longleftrightarrow> (case op of Op_Remove p \<Rightarrow> ll_nodes l p \<noteq> None | _ \<Rightarrow> True)"

inductive ll_conc :: "'a ll_op list \<Rightarrow> 'a linked_list \<Rightarrow> alloc \<Rightarrow> bool" where
  conc_create: "linked_list_create a = (Some l, a') \<Longrightarrow> ll_conc [] l a'"
| conc_step: "ll_conc ops l a \<Longrightarrow> op_live l op \<Longrightarrow> ll_exec op l a = ret (l', a') \<Longrightarrow> ll_conc (ops @ [op]) l' a'"

definition ll_rep :: "'a linked_list \<Rightarrow> (nat \<times> 'a) list \<Rightarrow> bool" where
  "ll_rep l xs \<longleftrightarrow> ll_chain l (map fst xs) (map snd xs)"

lemma drop_nth_filter:
  assumes "distinct (map fst xs)" "k < length xs"
  shows "drop_nth k xs = filter (\<lambda>(q, _). q \<noteq> fst (xs ! k)) xs"
proof -
  have xs: "xs = take k xs @ xs ! k # drop (Suc k) xs" using assms(2) by (rule id_take_nth_drop)
  have "distinct (map fst (take k xs @ xs ! k # drop (Suc k) xs))" using assms(1) xs by simp
  then have "\<forall>x \<in> set (take k xs) \<union> set (drop (Suc k) xs). fst x \<noteq> fst (xs ! k)" by (force simp: image_iff)
  then have "filter (\<lambda>(q, _). q \<noteq> fst (xs ! k)) (take k xs @ xs ! k # drop (Suc k) xs) = take k xs @ drop (Suc k) xs"
    by (auto simp: case_prod_unfold)
  then show ?thesis using xs by (simp add: drop_nth_def)
qed

lemma drop_nth_map: "drop_nth k (map f xs) = map f (drop_nth k xs)"
  by (simp add: drop_nth_def take_map drop_map)

text \<open>Forward simulation, one operation.\<close>

lemma ll_simulation:
  assumes "ll_rep l xs" "op_live l op"
  shows "\<exists>l' a' ys. ll_exec op l a = ret (l', a') \<and> ll_spec op xs ys \<and> ll_rep l' ys"
proof (cases op)
  case (Op_Add x)
  obtain ok a' where m: "malloc a = (ok, a')" by (cases "malloc a")
  show ?thesis
  proof (cases ok)
    case True
    obtain l' where l': "linked_list_item_add l x a = Inr (0, Some (ll_fresh l), l', a')"
        "ll_chain l' (map fst xs @ [ll_fresh l]) (map snd xs @ [x])"
      using ll_chain_add [of l "map fst xs" "map snd xs" a a' x] assms(1) m True by (auto simp: ll_rep_def)
    have "ll_fresh l \<notin> fst ` set xs" using assms(1) by (auto simp: ll_rep_def ll_chain_def)
    then show ?thesis
      using l' Op_Add by (auto intro!: exI [of _ "xs @ [(ll_fresh l, x)]"] spec_add simp: ll_rep_def)
  qed (use assms m Op_Add ll_add_no_memory [of a a' l x] in \<open>auto intro!: exI [of _ xs] spec_full\<close>)
next
  case (Op_Remove p)
  then have "p \<in> set (map fst xs)" using assms by (auto simp: op_live_def ll_rep_def ll_chain_def)
  then obtain k where k: "k < length xs" "fst (xs ! k) = p" by (auto simp: in_set_conv_nth)
  obtain l' where "linked_list_item_remove l p = Inr l'" "ll_chain l' (drop_nth k (map fst xs)) (drop_nth k (map snd xs))"
    using ll_chain_remove [of l "map fst xs" "map snd xs" k] assms(1) k by (auto simp: ll_rep_def)
  moreover have "drop_nth k xs = filter (\<lambda>(q, _). q \<noteq> p) xs"
    using drop_nth_filter [of xs k] assms(1) k by (simp add: ll_rep_def ll_chain_def)
  ultimately show ?thesis
    using Op_Remove k \<open>p \<in> set (map fst xs)\<close>
    by (auto intro!: exI [of _ "drop_nth k xs"] spec_remove simp: ll_rep_def drop_nth_map)
next
  case Op_Clear
  then show ?thesis
    using ll_dispose_chain [of l "map fst xs" "map snd xs"] assms(1) 
    by (auto simp: ll_rep_def intro!: exI [of _ "[]"] spec_clear)
qed

lemma ll_conc_rep: "ll_conc ops l a \<Longrightarrow> \<exists>xs. ll_abs ops xs \<and> ll_rep l xs"
proof (induction rule: ll_conc.induct)
  case (conc_create a l a')
  then have "l = ll_empty" by (auto simp: linked_list_create_def ll_empty_def split: prod.splits if_splits)
  then show ?case using ll_chain_empty abs_empty by (auto simp: ll_rep_def)
next
  case (conc_step ops l a op l' a')
  then obtain xs where "ll_abs ops xs" "ll_rep l xs" by blast
  then show ?case using ll_simulation [of l xs op a] conc_step.hyps by (auto intro: abs_step)
qed

text \<open>C14: The pointer-level list refines the abstract one. After any sequence of additions, removals of nodes in
  the list and clearings, under any outcome of the allocations, the abstract list after the same operations
  says what is in it: a traversal visits exactly its items in order, the counter is their number modulo
  2^32, the allocated nodes are exactly the handles in use, so that nothing leaks; and every further
  operation returns without touching freed memory.\<close>

theorem linked_list_refines:
  assumes "ll_conc ops l a"
  shows "\<exists>xs. ll_abs ops xs \<and> linked_list_foreach l = ret (map snd xs) \<and> ll_count l = of_nat (length xs) \<and>
     dom (ll_nodes l) = fst ` set xs \<and> (\<forall>op b. op_live l op \<longrightarrow> (\<exists>l' b'. ll_exec op l b = ret (l', b')))"
proof -
  obtain xs where xs: "ll_abs ops xs" "ll_rep l xs" using ll_conc_rep [OF assms] by blast
  have "\<forall>op b. op_live l op \<longrightarrow> (\<exists>l' b'. ll_exec op l b = ret (l', b'))" using ll_simulation [OF xs(2)] by blast
  then show ?thesis
    using xs ll_foreach_chain [of l "map fst xs" "map snd xs"] by (auto simp: ll_rep_def ll_chain_def intro!: exI [of _ xs])
qed

theorem linked_list_refines_witness:
  "\<exists>l a. ll_conc [Op_Add (1 :: int), Op_Add 2, Op_Remove 0] l a \<and> linked_list_foreach l = ret [2] \<and> ll_count l = 1"
proof -
  have c0: "ll_conc [] (ll_empty :: int linked_list) []"
    by (rule conc_create [of "[]"]) (simp add: linked_list_create_def ll_empty_def)
  obtain l1 a1 where 1: "ll_exec (Op_Add 1) (ll_empty :: int linked_list) [] = ret (l1, a1)"
    by (simp add: linked_list_item_add_def ll_empty_def Let_def)
  obtain l2 a2 where 2: "ll_exec (Op_Add 2) l1 a1 = ret (l2, a2)" "ll_nodes l2 0 \<noteq> None"
    using 1 by (auto simp: linked_list_item_add_def ll_empty_def Let_def)
  obtain l3 where 3: "ll_exec (Op_Remove 0) l2 a2 = ret (l3, a2)"
    using 1 2 by (auto simp: linked_list_item_add_def linked_list_item_remove_def set_prev_def ll_empty_def Let_def)
  have "ll_conc ([] @ [Op_Add 1]) l1 a1" by (rule conc_step [OF c0 _ 1]) (simp add: op_live_def)
  then have "ll_conc (([] @ [Op_Add 1]) @ [Op_Add 2]) l2 a2" by (rule conc_step [OF _ _ 2(1)]) (simp add: op_live_def)
  then have "ll_conc ((([] @ [Op_Add 1]) @ [Op_Add 2]) @ [Op_Remove 0]) l3 a2"
    by (rule conc_step [OF _ _ 3]) (use 2(2) in \<open>simp add: op_live_def\<close>)
  then have c: "ll_conc [Op_Add 1, Op_Add 2, Op_Remove 0] l3 a2" by simp
  have f: "ll_nodes l3 1 = Some \<lparr>li_prev = None, li_next = None, li_item = 2\<rparr>" "ll_count l3 = 1" "ll_head l3 = Some 1"
    using 1 2 3 by (auto simp: linked_list_item_add_def linked_list_item_remove_def set_prev_def ll_empty_def Let_def)
  then have "linked_list_foreach l3 = ret [2]" by (simp add: linked_list_foreach_def ll_walk.simps)
  then show ?thesis using linked_list_refines [OF c] c f(2) by blast
qed

end
