(* ===== verification/HTTP_Status.thy ===== *)
theory HTTP_Status imports Prelude begin

text \<open>
  \<^verbatim>\<open>utils/src/HTTPStatusCodes.c\<close> and its header: the enumeration of status codes, the five
  class tests and the reason phrases. \<open>HttpStatus_Code_enum\<close> lists the enumerators of the header
  with their values; the \<^verbatim>\<open>switch\<close> of \<^verbatim>\<open>HttpStatus_reasonPhrase\<close> is a table, and a code outside
  it yields NULL (\<open>None\<close>).
\<close>

section \<open>The enumeration\<close>

definition HttpStatus_Code_enum :: "(string \<times> int) list" where
  "HttpStatus_Code_enum = [
    (''HttpStatus_Invalid'', -1),
    (''HttpStatus_Continue'', 100),
    (''HttpStatus_SwitchingProtocols'', 101),
    (''HttpStatus_Processing'', 102),
    (''HttpStatus_EarlyHints'', 103),
    (''HttpStatus_OK'', 200),
    (''HttpStatus_Created'', 201),
    (''HttpStatus_Accepted'', 202),
    (''HttpStatus_NonAuthoritativeInformation'', 203),
    (''HttpStatus_NoContent'', 204),
    (''HttpStatus_ResetContent'', 205),
    (''HttpStatus_PartialContent'', 206),
    (''HttpStatus_MultiStatus'', 207),
    (''HttpStatus_AlreadyReported'', 208),
    (''HttpStatus_IMUsed'', 226),
    (''HttpStatus_MultipleChoices'', 300),
    (''HttpStatus_MovedPermanently'', 301),
    (''HttpStatus_Found'', 302),
    (''HttpStatus_SeeOther'', 303),
    (''HttpStatus_NotModified'', 304),
    (''HttpStatus_UseProxy'', 305),
    (''HttpStatus_TemporaryRedirect'', 307),
    (''HttpStatus_PermanentRedirect'', 308),
    (''HttpStatus_BadRequest'', 400),
    (''HttpStatus_Unauthorized'', 401),
    (''HttpStatus_PaymentRequired'', 402),
    (''HttpStatus_Forbidden'', 403),
    (''HttpStatus_NotFound'', 404),
    (''HttpStatus_MethodNotAllowed'', 405),
    (''HttpStatus_NotAcceptable'', 406),
    (''HttpStatus_ProxyAuthenticationRequired'', 407),
    (''HttpStatus_RequestTimeout'', 408),
    (''HttpStatus_Conflict'', 409),
    (''HttpStatus_Gone'', 410),
    (''HttpStatus_LengthRequired'', 411),
    (''HttpStatus_PreconditionFailed'', 412),
    (''HttpStatus_ContentTooLarge'', 413),
    (''HttpStatus_PayloadTooLarge'', 413),
    (''HttpStatus_URITooLong'', 414),
    (''HttpStatus_UnsupportedMediaType'', 415),
    (''HttpStatus_RangeNotSatisfiable'', 416),
    (''HttpStatus_ExpectationFailed'', 417),
    (''HttpStatus_ImATeapot'', 418),
    (''HttpStatus_MisdirectedRequest'', 421),
    (''HttpStatus_UnprocessableContent'', 422),
    (''HttpStatus_UnprocessableEntity'', 422),
    (''HttpStatus_Locked'', 423),
    (''HttpStatus_FailedDependency'', 424),
    (''HttpStatus_TooEarly'', 425),
    (''HttpStatus_UpgradeRequired'', 426),
    (''HttpStatus_PreconditionRequired'', 428),
    (''HttpStatus_TooManyRequests'', 429),
    (''HttpStatus_RequestHeaderFieldsTooLarge'', 431),
    (''HttpStatus_UnavailableForLegalReasons'', 451),
    (''HttpStatus_InternalServerError'', 500),
    (''HttpStatus_NotImplemented'', 501),
    (''HttpStatus_BadGateway'', 502),
    (''HttpStatus_ServiceUnavailable'', 503),
    (''HttpStatus_GatewayTimeout'', 504),
    (''HttpStatus_HTTPVersionNotSupported'', 505),
    (''HttpStatus_VariantAlsoNegotiates'', 506),
    (''HttpStatus_InsufficientStorage'', 507),
    (''HttpStatus_LoopDetected'', 508),
    (''HttpStatus_NotExtended'', 510),
    (''HttpStatus_NetworkAuthenticationRequired'', 511),
    (''HttpStatus_xxx_max'', 1023)]"

section \<open>Class tests\<close>

definition HttpStatus_isInformational :: "int \<Rightarrow> bool" where
  "HttpStatus_isInformational code \<longleftrightarrow> code \<ge> 100 \<and> code < 200"

definition HttpStatus_isSuccessful :: "int \<Rightarrow> bool" where
  "HttpStatus_isSuccessful code \<longleftrightarrow> code \<ge> 200 \<and> code < 300"

definition HttpStatus_isRedirection :: "int \<Rightarrow> bool" where
  "HttpStatus_isRedirection code \<longleftrightarrow> code \<ge> 300 \<and> code < 400"

definition HttpStatus_isClientError :: "int \<Rightarrow> bool" where
  "HttpStatus_isClientError code \<longleftrightarrow> code \<ge> 400 \<and> code < 500"

definition HttpStatus_isServerError :: "int \<Rightarrow> bool" where
  "HttpStatus_isServerError code \<longleftrightarrow> code \<ge> 500 \<and> code < 600"

definition HttpStatus_isError :: "int \<Rightarrow> bool" where
  "HttpStatus_isError code \<longleftrightarrow> code \<ge> 400"

section \<open>Reason phrases\<close>

definition reason_table :: "(int \<times> string) list" where
  "reason_table = [
    (100, ''Continue''),
    (101, ''Switching Protocols''),
    (102, ''Processing''),
    (103, ''Early Hints''),
    (200, ''OK''),
    (201, ''Created''),
    (202, ''Accepted''),
    (203, ''Non-Authoritative Information''),
    (204, ''No Content''),
    (205, ''Reset Content''),
    (206, ''Partial Content''),
    (207, ''Multi-Status''),
    (208, ''Already Reported''),
    (226, ''IM Used''),
    (300, ''Multiple Choices''),
    (301, ''Moved Permanently''),
    (302, ''Found''),
    (303, ''See Other''),
    (304, ''Not Modified''),
    (305, ''Use Proxy''),
    (307, ''Temporary Redirect''),
    (308, ''Permanent Redirect''),
    (400, ''Bad Request''),
    (401, ''Unauthorized''),
    (402, ''Payment Required''),
    (403, ''Forbidden''),
    (404, ''Not Found''),
    (405, ''Method Not Allowed''),
    (406, ''Not Acceptable''),
    (407, ''Proxy Authentication Required''),
    (408, ''Request Timeout''),
    (409, ''Conflict''),
    (410, ''Gone''),
    (411, ''Length Required''),
    (412, ''Precondition Failed''),
    (413, ''Content Too Large''),
    (414, ''URI Too Long''),
    (415, ''Unsupported Media Type''),
    (416, ''Range Not Satisfiable''),
    (417, ''Expectation Failed''),
    (418, ''I'' @ [CHR 0x27] @ ''m a teapot''),
    (421, ''Misdirected Request''),
    (422, ''Unprocessable Content''),
    (423, ''Locked''),
    (424, ''Failed Dependency''),
    (425, ''Too Early''),
    (426, ''Upgrade Required''),
    (428, ''Precondition Required''),
    (429, ''Too Many Requests''),
    (431, ''Request Header Fields Too Large''),
    (451, ''Unavailable For Legal Reasons''),
    (500, ''Internal Server Error''),
    (501, ''Not Implemented''),
    (502, ''Bad Gateway''),
    (503, ''Service Unavailable''),
    (504, ''Gateway Timeout''),
    (505, ''HTTP Version Not Supported''),
    (506, ''Variant Also Negotiates''),
    (507, ''Insufficient Storage''),
    (508, ''Loop Detected''),
    (510, ''Not Extended''),
    (511, ''Network Authentication Required'')]"

definition HttpStatus_reasonPhrase :: "int \<Rightarrow> string option" where
  "HttpStatus_reasonPhrase code = map_of reason_table code"

section \<open>Lemmas\<close>

lemma reason_codes: "fst ` set reason_table = set (map fst reason_table)"
  by simp

lemma reason_phrase_range:
  "HttpStatus_reasonPhrase code = Some p \<Longrightarrow> 100 \<le> code \<and> code \<le> 511"
proof -
  assume "HttpStatus_reasonPhrase code = Some p"
  then have "(code, p) \<in> set reason_table"
    by (auto simp: HttpStatus_reasonPhrase_def dest: map_of_SomeD)
  moreover have "list_all (\<lambda>(c, _). 100 \<le> c \<and> c \<le> 511) reason_table"
    by (simp add: reason_table_def)
  ultimately show ?thesis by (auto simp: list_all_iff)
qed

lemma reason_phrase_text:
  "HttpStatus_reasonPhrase code = Some p \<Longrightarrow>
     p \<noteq> [] \<and> NUL \<notin> set p \<and> CR \<notin> set p \<and> LF \<notin> set p \<and> length p < 40"
proof -
  assume "HttpStatus_reasonPhrase code = Some p"
  then have "(code, p) \<in> set reason_table"
    by (auto simp: HttpStatus_reasonPhrase_def dest: map_of_SomeD)
  moreover have "list_all (\<lambda>(_, p). p \<noteq> [] \<and> NUL \<notin> set p \<and> CR \<notin> set p \<and> LF \<notin> set p \<and> length p < 40)
      reason_table"
    unfolding reason_table_def by simp
  ultimately show ?thesis by (auto simp: list_all_iff)
qed

lemma reason_phrase_defined_iff:
  "HttpStatus_reasonPhrase code \<noteq> None \<longleftrightarrow> code \<in> set (map fst reason_table)"
  by (simp add: HttpStatus_reasonPhrase_def map_of_eq_None_iff)

end
