(* ===== verification/HTTP_Parser.thy ===== *)
theory HTTP_Parser imports Linked_List String_Utils HTTP_Status begin

text \<open>
  \<^verbatim>\<open>modules/src/http_parser.c\<close> and its header: request line, status line, header block, URL,
  header lookup and disposal.

  A pointer that may be NULL is an \<open>option\<close>; an out-parameter is returned. A buffer is the list
  of its bytes with a separate length, and reading past it is the fault \<open>OutOfBounds\<close>. The
  functions that call loops over linked lists return an \<open>out\<close>: \<open>None\<close> is a call that never
  returns, \<open>fault f\<close> undefined behaviour, \<open>ret r\<close> a result. Key-value records are stored in the
  lists by value.
\<close>

section \<open>Data\<close>

datatype HTTPMethod =
  HTTP_OPTIONS | HTTP_GET | HTTP_POST | HTTP_PUT | HTTP_DELETE | HTTP_DOWNLOAD | HTTP_INVALID

record HTTP_Key_Value =
  kv_key :: "cstring option"
  kv_value :: "cstring option"

record HTTP_Response =
  resp_firstline :: "cstring option"
  resp_headers :: "cstring option"
  resp_body :: "cstring option"
  resp_full_response :: "cstring option"
  resp_version :: "cstring option"
  resp_reason_phrase :: "cstring option"
  resp_status_code_string :: "cstring option"
  resp_status_code :: int

record HTTP_Request =
  req_method_str :: "cstring option"
  req_path :: "cstring option"
  req_query :: "cstring option"
  req_version :: "cstring option"
  req_body :: "byte list option"
  req_params :: "HTTP_Key_Value linked_list option"
  req_headers :: "HTTP_Key_Value linked_list option"
  req_method :: HTTPMethod
  req_params_count :: int
  req_firstline_len :: int
  req_headers_len :: int
  req_body_len :: int

record URL_Parts =
  up_scheme :: cstring
  up_host :: cstring
  up_port :: cstring
  up_path :: cstring

text \<open>What \<^verbatim>\<open>calloc\<close> and \<^verbatim>\<open>{0}\<close> give.\<close>

definition zero_request :: HTTP_Request where
  "zero_request = \<lparr>req_method_str = None, req_path = None, req_query = None, req_version = None,
     req_body = None, req_params = None, req_headers = None, req_method = HTTP_OPTIONS,
     req_params_count = 0, req_firstline_len = 0, req_headers_len = 0, req_body_len = 0\<rparr>"

definition zero_response :: HTTP_Response where
  "zero_response = \<lparr>resp_firstline = None, resp_headers = None, resp_body = None,
     resp_full_response = None, resp_version = None, resp_reason_phrase = None,
     resp_status_code_string = None, resp_status_code = 0\<rparr>"

definition zero_url :: URL_Parts where
  "zero_url = \<lparr>up_scheme = [], up_host = [], up_port = [], up_path = []\<rparr>"

definition kv :: "cstring \<Rightarrow> cstring \<Rightarrow> HTTP_Key_Value" where
  "kv k v = \<lparr>kv_key = Some k, kv_value = Some v\<rparr>"

section \<open>Methods\<close>

definition http_method_string_to_enum :: "cstring \<Rightarrow> HTTPMethod" where
  "http_method_string_to_enum s =
     (if s = ''GET'' then HTTP_GET
      else if s = ''OPTIONS'' then HTTP_OPTIONS
      else if s = ''POST'' then HTTP_POST
      else if s = ''PUT'' then HTTP_PUT
      else if s = ''DELETE'' then HTTP_DELETE
      else if s = ''DOWNLOAD'' then HTTP_DOWNLOAD
      else HTTP_INVALID)"

fun http_method_enum_to_string :: "HTTPMethod \<Rightarrow> cstring" where
  "http_method_enum_to_string HTTP_OPTIONS = ''OPTIONS''"
| "http_method_enum_to_string HTTP_GET = ''GET''"
| "http_method_enum_to_string HTTP_POST = ''POST''"
| "http_method_enum_to_string HTTP_PUT = ''PUT''"
| "http_method_enum_to_string HTTP_DELETE = ''DELETE''"
| "http_method_enum_to_string HTTP_DOWNLOAD = ''DOWNLOAD''"
| "http_method_enum_to_string HTTP_INVALID = ''INVALID''"

section \<open>Disposal\<close>

definition http_parser_dispose_linked_list :: "HTTP_Key_Value linked_list option \<Rightarrow> unit out" where
  "http_parser_dispose_linked_list lp =
     (case lp of
        None \<Rightarrow> ret ()
      | Some l \<Rightarrow>
          out_bind (linked_list_foreach l) (\<lambda>_.
          out_bind (linked_list_items_dispose l) (\<lambda>l'.
          out_bind (linked_list_destroy (Some l')) (\<lambda>_. ret ()))))"

definition http_parser_dispose ::
  "HTTP_Request option \<Rightarrow> HTTP_Response option \<Rightarrow> (HTTP_Request option \<times> HTTP_Response option) out" where
  "http_parser_dispose rq rs =
     out_bind
       (case rq of
          None \<Rightarrow> ret None
        | Some r \<Rightarrow>
            (let r1 = r\<lparr>req_method_str := None, req_path := None, req_query := None,
                        req_version := None, req_body := None\<rparr> in
             out_bind (http_parser_dispose_linked_list (req_params r1)) (\<lambda>_.
             out_bind (http_parser_dispose_linked_list (req_headers r1)) (\<lambda>_.
             ret (Some (r1\<lparr>req_params := None, req_headers := None\<rparr>))))))
       (\<lambda>rq'.
          ret (rq',
            map_option (\<lambda>r. r\<lparr>resp_firstline := None, resp_headers := None, resp_body := None,
               resp_full_response := None, resp_version := None, resp_reason_phrase := None,
               resp_status_code_string := None\<rparr>) rs))"

section \<open>The request line\<close>

text \<open>One round of the query loop: key, value, and where the loop goes on (if it does).\<close>

definition next_param :: "cstring \<Rightarrow> (cstring \<times> cstring \<times> cstring option) option" where
  "next_param ps =
     (case strchr ps (CHR ''='') of
        None \<Rightarrow> None
      | Some e \<Rightarrow>
          let k = take e ps; tail = drop (Suc e) ps in
          (case strchr tail (CHR ''&'') of
             Some amp \<Rightarrow> Some (k, take amp tail, Some (drop (Suc amp) tail))
           | None \<Rightarrow> Some (k, tail, None)))"

lemma next_param_shorter: "next_param ps = Some (k, v, Some r) \<Longrightarrow> length r < length ps"
  by (auto simp: next_param_def Let_def split: option.splits dest: strchr_Some_less)

text \<open>The query loop; the flag is False when it leaves with \<^verbatim>\<open>ERR_NO_MEMORY\<close>. The counter \<^verbatim>\<open>params_count\<close> is an
  \<^verbatim>\<open>int\<close> and its increment is checked.\<close>

function param_loop ::
  "cstring \<Rightarrow> HTTP_Request \<Rightarrow> HTTP_Key_Value linked_list \<Rightarrow> alloc \<Rightarrow>
     (bool \<times> HTTP_Request \<times> HTTP_Key_Value linked_list \<times> alloc) res" where
  "param_loop ps rq l a =
     (if ps = [] then Inr (True, rq, l, a)
      else
        (case next_param ps of
           None \<Rightarrow> Inr (True, rq, l, a)
         | Some (k, v, rest) \<Rightarrow>
             (case malloc a of (ok, a1) \<Rightarrow>
                if \<not> ok then Inr (False, rq, l, a1)
                else
                  (case strdup k a1 of (k', a2) \<Rightarrow>
                   (case strdup v a2 of (v', a3) \<Rightarrow>
                      if k' = None \<or> v' = None then Inr (False, rq, l, a3)
                      else
                        (case linked_list_item_add l \<lparr>kv_key = k', kv_value = v'\<rparr> a3 of
                           Inl f \<Rightarrow> Inl f
                         | Inr (r, p, l', a4) \<Rightarrow>
                             if req_params_count rq \<ge> INT_MAX then Inl SignedOverflow
                             else
                               (let rq' = rq\<lparr>req_params_count := req_params_count rq + 1\<rparr> in
                                (case rest of
                                   None \<Rightarrow> Inr (True, rq', l', a4)
                                 | Some ps' \<Rightarrow> param_loop ps' rq' l' a4))))))))"
  by pat_completeness auto
termination
  by (relation "measure (\<lambda>(ps, _). length ps)") (auto dest: next_param_shorter)

declare param_loop.simps [simp del]

text \<open>The last part: method and version.\<close>

definition first_line_finish ::
  "cstring \<Rightarrow> cstring \<Rightarrow> HTTP_Request \<Rightarrow> HTTP_Key_Value linked_list option \<Rightarrow> alloc \<Rightarrow>
     (int \<times> HTTP_Request option \<times> HTTP_Key_Value linked_list option \<times> alloc) out" where
  "first_line_finish meth vers rq params a =
     (case strdup meth a of (m, a1) \<Rightarrow>
      (case strdup vers a1 of (v, a2) \<Rightarrow>
         let rq1 = rq\<lparr>req_method_str := m, req_version := v\<rparr> in
         (case m of
            Some ms \<Rightarrow>
              if v = None
              then out_bind (http_parser_dispose (Some rq1) None) (\<lambda>(rq', _).
                     ret (ERR_NO_MEMORY, rq', params, a2))
              else ret (SUCCESS, Some (rq1\<lparr>req_method := http_method_string_to_enum ms\<rparr>), params, a2)
          | None \<Rightarrow>
              out_bind (http_parser_dispose (Some rq1) None) (\<lambda>(rq', _).
                ret (ERR_NO_MEMORY, rq', params, a2)))))"

definition http_parser_first_line ::
  "byte list option \<Rightarrow> nat \<Rightarrow> HTTP_Request option \<Rightarrow> HTTP_Key_Value linked_list option option \<Rightarrow> alloc \<Rightarrow>
     (int \<times> HTTP_Request option \<times> HTTP_Key_Value linked_list option \<times> alloc) out" where
  "http_parser_first_line line line_len req params_out a =
     (case (line, req, params_out) of
        (Some ln, Some rq, Some _) \<Rightarrow>
          if line_len < 1 then ret (ERR_INVALID_ARG, req, Option.bind params_out (\<lambda>x. x), a)
          else
          (case malloc a of (ok, a1) \<Rightarrow>
             if \<not> ok then ret (ERR_NO_MEMORY, req, None, a1)
             else if length ln < line_len then fault OutOfBounds
             else
               let line_copy = c_str (take line_len ln) in
               (case strchr line_copy SP of
                  None \<Rightarrow> ret (ERR_BAD_FORMAT, req, None, a1)
                | Some i \<Rightarrow>
                    let meth = take i line_copy; rest = drop (Suc i) line_copy in
                    (case strchr rest SP of
                       None \<Rightarrow> ret (ERR_BAD_FORMAT, req, None, a1)
                     | Some j \<Rightarrow>
                         let target = take j rest; vers = drop (Suc j) rest in
                         if vers = [] then ret (ERR_BAD_FORMAT, req, None, a1)
                         else
                           (case strchr target (CHR ''?'') of
                              None \<Rightarrow>
                                (case strdup target a1 of (p, a2) \<Rightarrow>
                                   let rq1 = rq\<lparr>req_path := p\<rparr> in
                                   if p = None then ret (ERR_NO_MEMORY, Some rq1, None, a2)
                                   else first_line_finish meth vers rq1 None a2)
                            | Some q \<Rightarrow>
                                (case strdup (take q target) a1 of (p, a2) \<Rightarrow>
                                   let rq1 = rq\<lparr>req_path := p\<rparr> in
                                   if p = None then ret (ERR_NO_MEMORY, Some rq1, None, a2)
                                   else
                                     (case linked_list_create a2 of
                                        (None, a3) \<Rightarrow>
                                          out_bind (http_parser_dispose (Some rq1) None) (\<lambda>(rq', _).
                                            ret (ERR_NO_MEMORY, rq', None, a3))
                                      | (Some l, a3) \<Rightarrow>
                                          (case param_loop (drop (Suc q) target) rq1 l a3 of
                                             Inl f \<Rightarrow> fault f
                                           | Inr (ok, rq2, l', a4) \<Rightarrow>
                                               if \<not> ok
                                               then out_bind (http_parser_dispose (Some rq2) None) (\<lambda>(rq', _).
                                                      ret (ERR_NO_MEMORY, rq', Some l', a4))
                                               else first_line_finish meth vers rq2 (Some l') a4)))))))
      | _ \<Rightarrow> ret (ERR_INVALID_ARG, req, Option.bind params_out (\<lambda>x. x), a))"

section \<open>The status line\<close>

definition resp_disposed :: "HTTP_Response \<Rightarrow> HTTP_Response" where
  "resp_disposed r = r\<lparr>resp_firstline := None, resp_headers := None, resp_body := None,
     resp_full_response := None, resp_version := None, resp_reason_phrase := None,
     resp_status_code_string := None\<rparr>"

lemma http_parser_dispose_resp: "http_parser_dispose None (Some r) = ret (None, Some (resp_disposed r))"
  by (simp add: http_parser_dispose_def resp_disposed_def)

definition http_parser_response_firstline ::
  "byte list option \<Rightarrow> nat \<Rightarrow> HTTP_Response option \<Rightarrow> alloc \<Rightarrow> (int \<times> HTTP_Response option \<times> alloc) res" where
  "http_parser_response_firstline line line_len resp a =
     (case (line, resp) of
        (Some ln, Some r) \<Rightarrow>
          if line_len = 0 then Inr (ERR_INVALID_ARG, resp, a)
          else
            (case malloc a of (ok, a1) \<Rightarrow>
               if \<not> ok then Inr (ERR_NO_MEMORY, resp, a1)
               else if length ln < line_len then Inl OutOfBounds
               else
                 let line_copy = c_str (take line_len ln) in
                 (case strchr line_copy SP of
                    None \<Rightarrow> Inr (ERR_BAD_FORMAT, resp, a1)
                  | Some i \<Rightarrow>
                      let version = take i line_copy; rest = drop (Suc i) line_copy in
                      (case strchr rest SP of
                         None \<Rightarrow> Inr (ERR_BAD_FORMAT, resp, a1)
                       | Some j \<Rightarrow>
                           let status = take j rest; reason = drop (Suc j) rest in
                           (case strdup version a1 of (v, a2) \<Rightarrow>
                              let r1 = r\<lparr>resp_version := v\<rparr> in
                              if v = None then Inr (ERR_NO_MEMORY, Some r1, a2)
                              else
                                (case strdup status a2 of (s, a3) \<Rightarrow>
                                   let r2 = r1\<lparr>resp_status_code_string := s\<rparr> in
                                   if s = None then Inr (ERR_NO_MEMORY, Some (resp_disposed r2), a3)
                                   else
                                     (case strdup reason a3 of (p, a4) \<Rightarrow>
                                        let r3 = r2\<lparr>resp_reason_phrase := p\<rparr> in
                                        if p = None then Inr (ERR_NO_MEMORY, Some (resp_disposed r3), a4)
                                        else
                                          (case parse_string_to_int s True of
                                             Inl f \<Rightarrow> Inl f
                                           | Inr (_, iv) \<Rightarrow>
                                               let status_int = (case iv of None \<Rightarrow> 0 | Some n \<Rightarrow> n) in
                                               (case HttpStatus_reasonPhrase status_int of
                                                  None \<Rightarrow> Inl NullDeref
                                                | Some phrase \<Rightarrow>
                                                    if reason \<noteq> phrase
                                                    then Inr (ERR_BAD_FORMAT, Some (resp_disposed r3), a4)
                                                    else Inr (SUCCESS, Some r3, a4)))))))))
      | _ \<Rightarrow> Inr (ERR_INVALID_ARG, resp, a))"

section \<open>Line and header ends\<close>

definition crlf_at :: "byte list \<Rightarrow> nat \<Rightarrow> bool" where
  "crlf_at buf i \<longleftrightarrow> buf ! i = CR \<and> buf ! (i + 1) = LF"

definition http_parser_find_line_end :: "byte list \<Rightarrow> nat \<Rightarrow> int" where
  "http_parser_find_line_end buf buf_len =
     (if buf_len < 2 then -1
      else
        (case find (crlf_at buf) [0..<buf_len - 1] of
           Some i \<Rightarrow> c_int (int i)
         | None \<Rightarrow> -1))"

definition http_parser_find_headers_end :: "byte list \<Rightarrow> nat \<Rightarrow> int" where
  "http_parser_find_headers_end buf buf_len =
     (if buf_len < 4 then -1
      else
        (case find (\<lambda>i. crlf_at buf i \<and> crlf_at buf (i + 2)) [0..<buf_len - 3] of
           Some i \<Rightarrow> c_int (int i)
         | None \<Rightarrow> -1))"

section \<open>The header block\<close>

definition hdr_lws :: "char \<Rightarrow> bool" where
  "hdr_lws c \<longleftrightarrow> c = SP \<or> c = TAB"

definition hdr_ws :: "char \<Rightarrow> bool" where
  "hdr_ws c \<longleftrightarrow> c = SP \<or> c = TAB \<or> c = CR \<or> c = LF"

text \<open>One line of the block: \<open>None\<close> without a colon, else the trimmed key and value.\<close>

definition header_line :: "cstring \<Rightarrow> (cstring \<times> cstring) option" where
  "header_line line =
     (case strchr line (CHR '':'') of
        None \<Rightarrow> None
      | Some c \<Rightarrow> Some (rstrip hdr_ws (take c line),
                       rstrip hdr_ws (dropWhile hdr_lws (drop (Suc c) line))))"

text \<open>The exits that dispose of the list and store NULL in \<open>*_headers_out\<close>.\<close>

definition headers_fail ::
  "int \<Rightarrow> HTTP_Key_Value linked_list \<Rightarrow> alloc \<Rightarrow> (int \<times> HTTP_Key_Value linked_list option \<times> alloc) out" where
  "headers_fail code l a = out_bind (http_parser_dispose_linked_list (Some l)) (\<lambda>_. ret (code, None, a))"

partial_function (option) header_loop ::
  "byte list \<Rightarrow> nat \<Rightarrow> int \<Rightarrow> HTTP_Key_Value linked_list \<Rightarrow> alloc \<Rightarrow>
     (int \<times> HTTP_Key_Value linked_list option \<times> alloc) out" where
  "header_loop buf buf_len start l a =
     (if \<not> start < int buf_len then ret (SUCCESS, Some l, a)
      else
        (case find (crlf_at buf) [nat start..<buf_len - 1] of
           None \<Rightarrow> ret (SUCCESS, Some l, a)
         | Some e \<Rightarrow>
             (let line_end = c_int (int e); line_len = c_size (line_end - start) in
              if line_end < 0 then ret (SUCCESS, Some l, a)
              else if line_len = 0 then ret (SUCCESS, Some l, a)
              else
                (case malloc a of (ok, a1) \<Rightarrow>
                   if \<not> ok then headers_fail ERR_NO_MEMORY l a1
                   else if int (length buf) < start + line_len then fault OutOfBounds
                   else
                     (case header_line (c_str (take (nat line_len) (drop (nat start) buf))) of
                        None \<Rightarrow> headers_fail ERR_BAD_FORMAT l a1
                      | Some (key, val) \<Rightarrow>
                          (case malloc a1 of (ok2, a2) \<Rightarrow>
                             if \<not> ok2 then headers_fail ERR_NO_MEMORY l a2
                             else
                               (case strdup key a2 of (k, a3) \<Rightarrow>
                                (case strdup val a3 of (v, a4) \<Rightarrow>
                                   if k = None \<or> v = None then headers_fail ERR_NO_MEMORY l a4
                                   else
                                     (case linked_list_item_add l \<lparr>kv_key = k, kv_value = v\<rparr> a4 of
                                        Inl f \<Rightarrow> fault f
                                      | Inr (r, p, l', a5) \<Rightarrow>
                                          header_loop buf buf_len (line_end + 2) l' a5)))))))))"

declare header_loop.simps [code]

definition http_parser_headers ::
  "byte list option \<Rightarrow> nat \<Rightarrow> HTTP_Key_Value linked_list option option \<Rightarrow> alloc \<Rightarrow>
     (int \<times> HTTP_Key_Value linked_list option \<times> alloc) out" where
  "http_parser_headers buf buf_len headers_out a =
     (case (buf, headers_out) of
        (Some bs, Some _) \<Rightarrow>
          (case linked_list_create a of
             (None, a1) \<Rightarrow> ret (ERR_NO_MEMORY, None, a1)
           | (Some l, a1) \<Rightarrow>
               if length bs < buf_len then fault OutOfBounds else header_loop bs buf_len 0 l a1)
      | _ \<Rightarrow> ret (ERR_INVALID_ARG, Option.bind headers_out (\<lambda>x. x), a))"

text \<open>Lookup: the first header whose name compares equal.\<close>

definition http_parser_get_header_value ::
  "HTTP_Key_Value linked_list option \<Rightarrow> cstring option \<Rightarrow> bool \<Rightarrow> (int \<times> cstring option) out" where
  "http_parser_get_header_value headers name out =
     (case (headers, name) of
        (Some l, Some nm) \<Rightarrow>
          if \<not> out then ret (ERR_INVALID_ARG, None)
          else
            out_bind (linked_list_foreach l) (\<lambda>items.
              (case find (\<lambda>h. kv_key h = Some nm \<and> kv_value h \<noteq> None) items of
                 Some h \<Rightarrow> ret (SUCCESS, kv_value h)
               | None \<Rightarrow> ret (ERR_NOT_FOUND, None)))
      | _ \<Rightarrow> ret (ERR_INVALID_ARG, None))"

text \<open>A stub of the source: it formats the status line into a local buffer and returns NULL. A NULL phrase given to \<open>%s\<close> is
  undefined in C; some libraries print \<open>(null)\<close>, the model counts it as a fault.\<close>

definition http_build_full_response :: "int \<Rightarrow> cstring option res" where
  "http_build_full_response status_code =
     (case HttpStatus_reasonPhrase status_code of
        None \<Rightarrow> Inl NullDeref
      | Some phrase \<Rightarrow>
          (let firstline = ''HTTP/1.1 '' @ dec_str (nat status_code) @ '' '' @ phrase @ CRLF in
           if 128 \<le> length firstline then Inl OutOfBounds else Inr None))"

section \<open>URLs\<close>

definition all_digits :: "cstring \<Rightarrow> bool" where
  "all_digits s \<longleftrightarrow> list_all isdigit s"

text \<open>The scheme in lower case, cut to the five characters the comparison buffer holds.\<close>

definition scheme_lower :: "cstring \<Rightarrow> cstring" where
  "scheme_lower s = map tolower (take 5 s)"

text \<open>The last two parts: path and default port.\<close>

definition url_path_port :: "cstring \<Rightarrow> nat \<Rightarrow> URL_Parts \<Rightarrow> int \<times> URL_Parts" where
  "url_path_port rest path_start p =
     (let has_path = (path_start < length rest \<and> rest ! path_start = CHR ''/'') in
      if has_path \<and> 512 \<le> length rest - path_start then (ERR_BAD_FORMAT, p)
      else
        let p1 = p\<lparr>up_path := (if has_path then drop path_start rest else ''/'')\<rparr> in
        if up_port p1 = []
        then
          (if scheme_lower (up_scheme p1) = ''https'' then (SUCCESS, p1\<lparr>up_port := ''443''\<rparr>)
           else if scheme_lower (up_scheme p1) = ''http'' then (SUCCESS, p1\<lparr>up_port := ''80''\<rparr>)
           else (ERR_BAD_FORMAT, p1))
        else (SUCCESS, p1))"

text \<open>Where the host ends: at the first colon or slash, else at the end of the string.\<close>

definition url_host_end :: "cstring \<Rightarrow> nat" where
  "url_host_end rest =
     (case strchr rest (CHR '':'') of
        Some c \<Rightarrow>
          (case strchr rest (CHR ''/'') of
             None \<Rightarrow> c
           | Some s \<Rightarrow> if c < s then c else s)
      | None \<Rightarrow> (case strchr rest (CHR ''/'') of Some s \<Rightarrow> s | None \<Rightarrow> length rest))"

definition http_parser_url :: "cstring option \<Rightarrow> URL_Parts option \<Rightarrow> int \<times> URL_Parts option" where
  "http_parser_url url ctx =
     (case (url, ctx) of
        (Some u, Some _) \<Rightarrow>
          (case strstr u ''://'' of
             None \<Rightarrow> (ERR_BAD_FORMAT, Some zero_url)
           | Some n \<Rightarrow>
               if n = 0 \<or> 6 \<le> n then (ERR_BAD_FORMAT, Some zero_url)
               else
                 let p1 = zero_url\<lparr>up_scheme := take n u\<rparr>;
                     rest = drop (n + 3) u;
                     slash = strchr rest (CHR ''/'');
                     colon = strchr rest (CHR '':'');
                     host_end = url_host_end rest
                 in
                 if host_end = 0 \<or> 128 \<le> host_end then (ERR_BAD_FORMAT, Some p1)
                 else
                   let p2 = p1\<lparr>up_host := take host_end rest\<rparr> in
                   if colon = Some host_end
                   then
                     let port_start = Suc host_end;
                         port_end = (case slash of Some s \<Rightarrow> s | None \<Rightarrow> length rest);
                         port = take (port_end - port_start) (drop port_start rest)
                     in
                     if port_start = port_end then (ERR_BAD_FORMAT, Some p2)
                     else if 6 \<le> port_end - port_start then (ERR_BAD_FORMAT, Some p2)
                     else if \<not> all_digits port then (ERR_BAD_FORMAT, Some p2)
                     else map_prod id Some (url_path_port rest port_end (p2\<lparr>up_port := port\<rparr>))
                   else map_prod id Some (url_path_port rest host_end p2))
      | _ \<Rightarrow> (ERR_INVALID_ARG, ctx))"

lemma ll_empty_wf [simp]: "ll_wf ll_empty"
  using ll_chain_empty by (rule ll_wfI)

lemma ll_items_empty [simp]: "ll_items ll_empty = []"
  using ll_chain_empty by (rule ll_items_chain)

section \<open>Facts: line ends\<close>

lemma crlf_in_append:
  "crlf_at (pre @ line @ CRLF @ post) (length pre + length line)"
  by (simp add: crlf_at_def CRLF_def nth_append)

lemma no_crlf_in_line:
  assumes "CR \<notin> set line" "length pre \<le> j" "j < length pre + length line"
  shows "\<not> crlf_at (pre @ line @ post) j"
proof -
  obtain i where i: "j = length pre + i" "i < length line"
    using assms(2,3) by (metis add_less_cancel_left le_Suc_ex)
  then have "(pre @ line @ post) ! j = line ! (j - length pre)" by (simp add: nth_append)
  moreover have "line ! (j - length pre) \<in> set line" using assms(2,3) by simp
  ultimately show ?thesis using assms(1) by (auto simp: crlf_at_def)
qed

lemma find_crlf_line:
  assumes "CR \<notin> set line"
    and "length pre + length line < n"
  shows "find (crlf_at (pre @ line @ CRLF @ post)) [length pre..<n] = Some (length pre + length line)"
  using assms(2) crlf_in_append no_crlf_in_line [OF assms(1), of pre _ "CRLF @ post"]
  by (auto simp: find_upt_Some_iff)

lemma find_line_end_found:
  assumes "CR \<notin> set line" "length line < 2 ^ 31"
  shows "http_parser_find_line_end (line @ CRLF @ post) (length (line @ CRLF @ post)) = int (length line)"
  using find_crlf_line [OF assms(1), of "[]" "length line + length post + 1" post] assms(2)
  by (simp add: http_parser_find_line_end_def CRLF_def c_conv)

lemma find_line_end_iff:
  assumes "length buf < 2 ^ 31" "n \<le> length buf"
  shows "http_parser_find_line_end buf n = int i \<longleftrightarrow>
     Suc i < n \<and> crlf_at buf i \<and> (\<forall>j<i. \<not> crlf_at buf j)"
proof -
  have "find (crlf_at buf) [0..<n - 1] = Some j \<Longrightarrow> c_int (int j) = int j" for j
    using assms by (auto simp: find_upt_Some_iff c_conv)
  then have "http_parser_find_line_end buf n = int i \<longleftrightarrow> find (crlf_at buf) [0..<n - 1] = Some i \<and> 2 \<le> n"
    by (auto simp: http_parser_find_line_end_def split: option.splits)
  then show ?thesis by (auto simp: find_upt_Some_iff)
qed

lemma find_line_end_cases:
  assumes "length buf < 2 ^ 31" "n \<le> length buf"
  obtains "http_parser_find_line_end buf n = -1" "\<forall>j. Suc j < n \<longrightarrow> \<not> crlf_at buf j"
  | i where "http_parser_find_line_end buf n = int i" "Suc i < n" "crlf_at buf i"
      "\<forall>j<i. \<not> crlf_at buf j"
proof (cases "find (crlf_at buf) [0..<n - 1]")
  case None
  then have "http_parser_find_line_end buf n = -1" by (simp add: http_parser_find_line_end_def)
  moreover from None have "\<forall>j. Suc j < n \<longrightarrow> \<not> crlf_at buf j"
    by (auto simp: find_upt_None_iff)
  ultimately show ?thesis by (rule that(1))
next
  case (Some i)
  then have i: "Suc i < n" "crlf_at buf i" "\<forall>j<i. \<not> crlf_at buf j"
    by (auto simp: find_upt_Some_iff)
  then have "http_parser_find_line_end buf n = int i" using assms by (simp add: find_line_end_iff)
  with i show ?thesis by (intro that(2))
qed

lemma find_headers_end_iff:
  assumes "length buf < 2 ^ 31" "n \<le> length buf"
  shows "http_parser_find_headers_end buf n = int i \<longleftrightarrow>
     i + 3 < n \<and> crlf_at buf i \<and> crlf_at buf (i + 2) \<and>
     (\<forall>j<i. \<not> (crlf_at buf j \<and> crlf_at buf (j + 2)))"
proof -
  let ?f = "find (\<lambda>i. crlf_at buf i \<and> crlf_at buf (i + 2)) [0..<n - 3]"
  have "?f = Some j \<Longrightarrow> c_int (int j) = int j" for j
    using assms by (auto simp: find_upt_Some_iff c_conv)
  then have "http_parser_find_headers_end buf n = int i \<longleftrightarrow> ?f = Some i \<and> 4 \<le> n"
    by (auto simp: http_parser_find_headers_end_def split: option.splits)
  then show ?thesis by (auto simp: find_upt_Some_iff)
qed

lemma find_headers_end_none:
  assumes "\<And>i. i + 3 < n \<Longrightarrow> \<not> (crlf_at buf i \<and> crlf_at buf (i + 2))"
  shows "http_parser_find_headers_end buf n = -1"
proof -
  have "find (\<lambda>i. crlf_at buf i \<and> crlf_at buf (i + 2)) [0..<n - 3] = None"
    using assms by (auto simp: find_upt_None_iff)
  then show ?thesis by (simp add: http_parser_find_headers_end_def)
qed

section \<open>Disposal of well-formed requests\<close>

definition req_wf :: "HTTP_Request \<Rightarrow> bool" where
  "req_wf r \<longleftrightarrow> (\<forall>l. req_params r = Some l \<longrightarrow> ll_wf l) \<and> (\<forall>l. req_headers r = Some l \<longrightarrow> ll_wf l)"

lemma dispose_list_wf: "(\<And>l. lp = Some l \<Longrightarrow> ll_wf l) \<Longrightarrow> http_parser_dispose_linked_list lp = ret ()"
proof (cases lp)
  case (Some l)
  assume "\<And>l. lp = Some l \<Longrightarrow> ll_wf l"
  with Some obtain as xs where c: "ll_chain l as xs" by (auto simp: ll_wf_def)
  then obtain l' where l': "linked_list_items_dispose l = ret l'" "ll_chain l' [] []"
    using ll_dispose_chain by blast
  then have "linked_list_items_dispose l' = ret l'"
    by (simp add: linked_list_items_dispose.simps [of l'] ll_chain_def)
  with Some l' c show ?thesis
    by (simp add: http_parser_dispose_linked_list_def ll_foreach_chain linked_list_destroy_def)
qed (simp add: http_parser_dispose_linked_list_def)

definition req_disposed :: "HTTP_Request \<Rightarrow> HTTP_Request" where
  "req_disposed r = r\<lparr>req_method_str := None, req_path := None, req_query := None,
     req_version := None, req_body := None, req_params := None, req_headers := None\<rparr>"

lemma dispose_req_wf:
  "req_wf r \<Longrightarrow> http_parser_dispose (Some r) rs = ret (Some (req_disposed r), map_option resp_disposed rs)"
  by (auto simp: http_parser_dispose_def Let_def dispose_list_wf req_wf_def req_disposed_def
      resp_disposed_def [abs_def] option.map_id)

lemma headers_fail_wf: "ll_wf l \<Longrightarrow> headers_fail code l a = ret (code, None, a)"
  using dispose_list_wf [of "Some l"] by (simp add: headers_fail_def)

section \<open>Facts: the header block\<close>

lemma linked_list_create_simp:
  "linked_list_create a = (if fst (malloc a) then Some ll_empty else None, snd (malloc a))"
  by (auto simp: linked_list_create_def ll_empty_def split: prod.split)

lemma ll_add_no_fault: "ll_wf l \<Longrightarrow> linked_list_item_add l x a \<noteq> Inl f"
  by (rule ll.add_total [of l x a]) auto

lemma ll_add_wf: "ll_wf l \<Longrightarrow> linked_list_item_add l x a = Inr (r, p, l', a') \<Longrightarrow> ll_wf l'"
  by (rule ll.add_total [of l x a]) auto

definition headers_post :: "int \<Rightarrow> HTTP_Key_Value linked_list option \<Rightarrow> bool" where
  "headers_post code lo \<longleftrightarrow>
     (code = ERR_NO_MEMORY \<or> code = ERR_BAD_FORMAT) \<and> lo = None \<or>
     code = SUCCESS \<and> (\<exists>l. lo = Some l \<and> ll_wf l)"

lemma headers_postI [intro]:
  "headers_post ERR_NO_MEMORY None" "headers_post ERR_BAD_FORMAT None"
  "ll_wf l \<Longrightarrow> headers_post SUCCESS (Some l)"
  by (auto simp: headers_post_def)

lemma header_loop_total:
  assumes "length buf < 2 ^ 31" "buf_len \<le> length buf" "ll_wf l"
  shows "\<exists>code lo a'. header_loop buf buf_len (int start) l a = ret (code, lo, a') \<and>
     headers_post code lo"
  using assms(3)
proof (induction "buf_len - start" arbitrary: start l a rule: less_induct)
  case less
  show ?case
  proof (cases "\<exists>e. int start < int buf_len \<and> find (crlf_at buf) [start..<buf_len - 1] = Some e \<and> e \<noteq> start")
    case False
    have "c_int (int start) = int start" if "start < buf_len" using that assms by (simp add: c_conv)
    with False have "header_loop buf buf_len (int start) l a = ret (SUCCESS, Some l, a)"
      by (subst header_loop.simps) (auto simp: Let_def c_size_def split: option.split)
    then show ?thesis using less.prems by auto
  next
    case True
    then obtain e where e: "start < buf_len" "find (crlf_at buf) [start..<buf_len - 1] = Some e" "start < e"
      by (auto simp: find_upt_Some_iff)
    then have bounds: "e + 1 < buf_len" by (auto simp: find_upt_Some_iff)
    then have ce: "c_int (int e) = int e" "c_size (int e - int start) = int (e - start)"
      using assms e(3) by (auto simp: c_conv)
    have step: "\<exists>code lo a'. header_loop buf buf_len (int e + 2) l' a5 = ret (code, lo, a') \<and>
        headers_post code lo" if "ll_wf l'" for l' a5
      using less.hyps [of "e + 2" l' a5] e bounds that by (simp add: algebra_simps)
    show ?thesis
      using e ce bounds assms(2) less.prems step ll_add_no_fault [OF less.prems] ll_add_wf [OF less.prems]
      by (subst header_loop.simps)
        (auto simp: Let_def headers_fail_wf split: prod.split option.split sum.split)
  qed
qed

text \<open>Printing a header, and the headers that survive the trimming of the parser.\<close>

definition header_text :: "cstring \<times> cstring \<Rightarrow> cstring" where
  "header_text h = fst h @ '': '' @ snd h"

definition header_block :: "(cstring \<times> cstring) list \<Rightarrow> cstring" where
  "header_block hs = concat (map (\<lambda>h. header_text h @ CRLF) hs) @ CRLF"

definition clean_header :: "cstring \<times> cstring \<Rightarrow> bool" where
  "clean_header h \<longleftrightarrow>
     CHR '':'' \<notin> set (fst h) \<and> list_all (\<lambda>c. c \<noteq> CR \<and> c \<noteq> LF \<and> c \<noteq> NUL) (fst h @ snd h) \<and>
     (fst h \<noteq> [] \<longrightarrow> \<not> hdr_ws (last (fst h))) \<and>
     (snd h \<noteq> [] \<longrightarrow> \<not> hdr_lws (hd (snd h)) \<and> \<not> hdr_ws (last (snd h)))"

lemma header_line_text:
  assumes "clean_header h"
  shows "header_line (header_text h) = Some (fst h, snd h)"
proof -
  obtain k v where h: "h = (k, v)" by (cases h)
  have "strchr (header_text h) (CHR '':'') = Some (length k)"
    using assms h strchr_append_found [of "CHR '':''" k] by (simp add: header_text_def clean_header_def)
  moreover have "dropWhile hdr_lws v = v"
    using assms h by (cases v) (auto simp: clean_header_def)
  ultimately show ?thesis
    using assms h by (simp add: header_line_def header_text_def clean_header_def hdr_lws_def rstrip_id)
qed

lemma clean_header_c_str: "clean_header h \<Longrightarrow> c_str (header_text h) = header_text h"
  by (rule c_str_id) (auto simp: is_c_str_def clean_header_def header_text_def list_all_iff)

lemma clean_header_no_CR: "clean_header h \<Longrightarrow> CR \<notin> set (header_text h)"
  by (auto simp: clean_header_def header_text_def list_all_iff)

lemma header_loop_stop:
  assumes "length pre < n" "n \<le> length (pre @ CRLF @ post)" "length pre < 2 ^ 31" "1 < n - length pre"
  shows "header_loop (pre @ CRLF @ post) n (int (length pre)) l a = ret (SUCCESS, Some l, a)"
  using find_crlf_line [of "[]" pre "n - 1" post] assms
  by (subst header_loop.simps) (simp add: Let_def c_conv c_size_def)

lemma header_loop_step:
  assumes "clean_header h" "ll_wf l"
    and "buf = pre @ header_text h @ CRLF @ post" "length pre + length (header_text h) + 1 < n"
    and "n \<le> length buf" "length buf < 2 ^ 31"
  shows "\<exists>l'. header_loop buf n (int (length pre)) l [] =
        header_loop buf n (int (length (pre @ header_text h @ CRLF))) l' [] \<and>
      ll_wf l' \<and> ll_items l' = ll_items l @ [kv (fst h) (snd h)]"
proof -
  let ?e = "length pre + length (header_text h)"
  obtain p l' where add: "linked_list_item_add l (kv (fst h) (snd h)) [] = Inr (0, p, l', [])"
      "ll_wf l'" "ll_items l' = ll_items l @ [kv (fst h) (snd h)]"
    using ll.add_granted [OF assms(2), of "[]" "[]" "kv (fst h) (snd h)"] by auto
  have f: "find (crlf_at buf) [length pre..<n - 1] = Some ?e"
    using find_crlf_line [OF clean_header_no_CR [OF assms(1)], of pre "n - 1" post] assms(3,4) by simp
  have len: "header_text h \<noteq> []" by (simp add: header_text_def)
  have ce: "c_int (int ?e) = int ?e" "c_size (int ?e - int (length pre)) = int (length (header_text h))"
    using assms(3,4,5,6) by (auto simp: c_conv)
  have line: "take (length (header_text h)) (drop (length pre) buf) = header_text h"
    using assms(3) by simp
  have "header_loop buf n (int (length pre)) l [] = header_loop buf n (int ?e + 2) l' []"
    using f len ce line assms(3,4,5) add(1) header_line_text [OF assms(1)] clean_header_c_str [OF assms(1)]
    by (subst header_loop.simps) (simp add: Let_def kv_def split_beta)
  then show ?thesis using add by (auto simp: CRLF_def algebra_simps)
qed

lemma header_loop_block:
  assumes "list_all clean_header hs" "ll_wf l"
    and "buf = pre @ header_block hs @ post" "n = length pre + length (header_block hs)"
    and "length buf < 2 ^ 31"
  shows "\<exists>l'. header_loop buf n (int (length pre)) l [] = ret (SUCCESS, Some l', []) \<and>
      ll_wf l' \<and> ll_items l' = ll_items l @ map (\<lambda>h. kv (fst h) (snd h)) hs"
  using assms
proof (induction hs arbitrary: pre l)
  case Nil
  then show ?case
    using header_loop_stop [of pre n post l "[]"] by (auto simp: header_block_def CRLF_def)
next
  case (Cons h hs)
  have buf: "buf = pre @ header_text h @ CRLF @ (header_block hs @ post)"
    using Cons.prems by (simp add: header_block_def)
  obtain l1 where l1: "header_loop buf n (int (length pre)) l [] =
        header_loop buf n (int (length (pre @ header_text h @ CRLF))) l1 []"
      "ll_wf l1" "ll_items l1 = ll_items l @ [kv (fst h) (snd h)]"
    using header_loop_step [OF _ Cons.prems(2) buf, of n] Cons.prems
    by (auto simp: header_block_def CRLF_def)
  show ?case
    using Cons.IH [of l1 "pre @ header_text h @ CRLF"] Cons.prems l1 buf
    by (auto simp: header_block_def)
qed

lemma headers_block:
  assumes "list_all clean_header hs" "length (header_block hs @ post) < 2 ^ 31"
  shows "\<exists>l. http_parser_headers (Some (header_block hs @ post)) (length (header_block hs)) (Some lo) []
           = ret (SUCCESS, Some l, []) \<and>
      ll_wf l \<and> ll_items l = map (\<lambda>h. kv (fst h) (snd h)) hs"
proof -
  obtain l where "header_loop (header_block hs @ post) (length (header_block hs)) 0 ll_empty [] =
        ret (SUCCESS, Some l, [])" "ll_wf l" "ll_items l = map (\<lambda>h. kv (fst h) (snd h)) hs"
    using header_loop_block [OF assms(1), of ll_empty "header_block hs @ post" "[]" post
        "length (header_block hs)"] assms(2) by auto
  then show ?thesis by (simp add: http_parser_headers_def linked_list_create_simp)
qed

lemma headers_total:
  assumes "n \<le> length bs" "length bs < 2 ^ 31"
  shows "\<exists>code lo' a'. http_parser_headers (Some bs) n (Some lo) a = ret (code, lo', a') \<and>
      headers_post code lo'"
proof -
  show ?thesis
    using header_loop_total [OF assms(2,1) ll_empty_wf, of 0] assms(1)
    by (auto simp: http_parser_headers_def linked_list_create_simp)
qed

lemma get_header_value_items:
  assumes "ll_wf l" "ll_items l = map (\<lambda>h. kv (fst h) (snd h)) hs"
  shows "http_parser_get_header_value (Some l) (Some nm) True =
    ret (case map_of hs nm of Some v \<Rightarrow> (SUCCESS, Some v) | None \<Rightarrow> (ERR_NOT_FOUND, None))"
proof -
  have "find (\<lambda>h. kv_key h = Some nm \<and> kv_value h \<noteq> None) (map (\<lambda>h. kv (fst h) (snd h)) hs) =
      map_option (kv nm) (map_of hs nm)"
    by (induction hs) (auto simp: kv_def)
  then show ?thesis
    using assms ll.visit_items [OF assms(1)]
    by (auto simp: http_parser_get_header_value_def kv_def split: option.split)
qed

section \<open>Facts: the request line\<close>

fun query_text :: "(cstring \<times> cstring) list \<Rightarrow> cstring" where
  "query_text [] = []"
| "query_text [(k, v)] = k @ ''='' @ v"
| "query_text ((k, v) # ps) = k @ ''='' @ v @ ''&'' @ query_text ps"

definition clean_param :: "cstring \<times> cstring \<Rightarrow> bool" where
  "clean_param p \<longleftrightarrow> CHR ''='' \<notin> set (fst p) \<and> CHR ''&'' \<notin> set (snd p)"

lemma next_param_last:
  assumes "clean_param (k, v)"
  shows "next_param (k @ ''='' @ v) = Some (k, v, None)"
  using assms strchr_append_found [of "CHR ''=''" k v]
  by (simp add: next_param_def clean_param_def strchr_notin)

lemma next_param_more:
  assumes "clean_param (k, v)"
  shows "next_param (k @ ''='' @ v @ ''&'' @ r) = Some (k, v, Some r)"
  using assms strchr_append_found [of "CHR ''=''" k "v @ ''&'' @ r"]
    strchr_append_found [of "CHR ''&''" v r]
  by (simp add: next_param_def clean_param_def)

lemma param_loop_query:
  assumes "list_all clean_param ps" "ll_wf l" "req_params_count rq + int (length ps) \<le> INT_MAX"
  shows "\<exists>l'. param_loop (query_text ps) rq l [] =
        Inr (True, rq\<lparr>req_params_count := req_params_count rq + int (length ps)\<rparr>, l', []) \<and>
      ll_wf l' \<and> ll_items l' = ll_items l @ map (\<lambda>p. kv (fst p) (snd p)) ps"
  using assms
proof (induction ps arbitrary: rq l rule: query_text.induct)
  case 1
  then show ?case by (simp add: param_loop.simps)
next
  case (2 k v)
  then obtain p l' where "linked_list_item_add l (kv k v) [] = Inr (0, p, l', [])" "ll_wf l'"
      "ll_items l' = ll_items l @ [kv k v]"
    using ll.add_granted [of l "[]" "[]" "kv k v"] by auto
  then show ?case
    using 2 next_param_last [of k v] by (subst param_loop.simps) (simp add: kv_def Let_def)
next
  case (3 k v q qs)
  then obtain p l1 where l1: "linked_list_item_add l (kv k v) [] = Inr (0, p, l1, [])" "ll_wf l1"
      "ll_items l1 = ll_items l @ [kv k v]"
    using ll.add_granted [of l "[]" "[]" "kv k v"] by auto
  let ?rq = "rq\<lparr>req_params_count := req_params_count rq + 1\<rparr>"
  have "param_loop (query_text ((k, v) # q # qs)) rq l [] = param_loop (query_text (q # qs)) ?rq l1 []"
    using 3 l1 next_param_more [of k v "query_text (q # qs)"]
    by (subst param_loop.simps) (simp add: kv_def Let_def)
  then show ?case using "3.IH" [of l1 ?rq] "3.prems" l1 by (auto simp: algebra_simps)
qed

lemma param_loop_total:
  assumes "ll_wf l" "req_wf rq" "req_params_count rq + int (length ps) \<le> INT_MAX"
  shows "\<exists>ok rq' l' a'. param_loop ps rq l a = Inr (ok, rq', l', a') \<and> ll_wf l' \<and> req_wf rq'"
  using assms
proof (induction ps rq l a rule: param_loop.induct)
  case (1 ps rq l a)
  have rq: "req_wf (rq\<lparr>req_params_count := n\<rparr>)" for n using "1.prems" by (simp add: req_wf_def)
  show ?case
  proof (cases "ps = [] \<or> next_param ps = None")
    case True
    then show ?thesis using "1.prems" by (subst param_loop.simps) auto
  next
    case False
    then obtain k v rest where np: "ps \<noteq> []" "next_param ps = Some (k, v, rest)" by auto
    obtain ok a1 where m: "malloc a = (ok, a1)" by (cases "malloc a")
    obtain k' a2 where k: "strdup k a1 = (k', a2)" by (cases "strdup k a1")
    obtain v' a3 where v: "strdup v a2 = (v', a3)" by (cases "strdup v a2")
    obtain r p l' a4 where add: "linked_list_item_add l \<lparr>kv_key = k', kv_value = v'\<rparr> a3 = Inr (r, p, l', a4)"
        "ll_wf l'"
      by (rule ll.add_total [OF "1.prems"(1), of "\<lparr>kv_key = k', kv_value = v'\<rparr>" a3])
    let ?rq = "rq\<lparr>req_params_count := req_params_count rq + 1\<rparr>"
    have c: "\<not> INT_MAX \<le> req_params_count rq" using "1.prems"(3) np(1) by (cases ps) auto
    have b: "req_params_count ?rq + int (length ps') \<le> INT_MAX" if "rest = Some ps'" for ps'
      using next_param_shorter [of ps k v ps'] np(2) that "1.prems"(3) by simp
    have rec: "\<exists>ok rq' l'' a'. param_loop ps' ?rq l' a4 = Inr (ok, rq', l'', a') \<and> ll_wf l'' \<and> req_wf rq'"
      if "rest = Some ps'" "ok" "k' \<noteq> None" "v' \<noteq> None" for ps'
      using "1.IH" [OF np(1) np(2) refl refl m [symmetric] _ k [symmetric] v [symmetric]] that np m k v add rq c b
      by auto
    show ?thesis
      using np m k v add rec "1.prems" rq c
      by (subst param_loop.simps) (auto simp: Let_def split: option.split)
  qed
qed

lemma first_line_finish_wf:
  assumes "req_wf rq"
  shows "\<exists>code rq' a'. first_line_finish m v rq params a = ret (code, Some rq', params, a') \<and> req_wf rq' \<and>
      (code = SUCCESS \<or> code = ERR_NO_MEMORY)"
proof -
  have wf: "req_wf (rq\<lparr>req_method_str := x, req_version := y\<rparr>)"
      "req_wf (rq\<lparr>req_method_str := x, req_version := y, req_method := z\<rparr>)" for x y z
    using assms by (auto simp: req_wf_def)
  have d: "req_wf (req_disposed r)" for r by (simp add: req_wf_def req_disposed_def)
  show ?thesis
    by (auto simp: first_line_finish_def Let_def dispose_req_wf wf d split: prod.split option.split)
qed

lemma first_line_finish_granted:
  "first_line_finish m v rq params [] =
     ret (SUCCESS, Some (rq\<lparr>req_method_str := Some m, req_version := Some v,
        req_method := http_method_string_to_enum m\<rparr>), params, [])"
  by (simp add: first_line_finish_def)

text \<open>What every call of the request-line parser on proper arguments gives back.\<close>

definition first_line_post ::
  "(int \<times> HTTP_Request option \<times> HTTP_Key_Value linked_list option \<times> alloc) out \<Rightarrow> bool" where
  "first_line_post r \<longleftrightarrow>
     (\<exists>code rq po a. r = ret (code, Some rq, po, a) \<and> req_wf rq \<and>
        code \<in> {SUCCESS, ERR_INVALID_ARG, ERR_BAD_FORMAT, ERR_NO_MEMORY})"

lemma first_line_post_ret:
  "req_wf rq \<Longrightarrow> code \<in> {SUCCESS, ERR_INVALID_ARG, ERR_BAD_FORMAT, ERR_NO_MEMORY} \<Longrightarrow>
     first_line_post (ret (code, Some rq, po, a))"
  by (auto simp: first_line_post_def)

lemma req_wf_disposed [simp]: "req_wf (req_disposed r)"
  by (simp add: req_wf_def req_disposed_def)

lemma first_line_post_finish: "req_wf rq \<Longrightarrow> first_line_post (first_line_finish m v rq params a)"
  using first_line_finish_wf [of rq m v params a] by (auto simp: first_line_post_def)

lemma first_line_post_dispose:
  "req_wf rq \<Longrightarrow>
     first_line_post (out_bind (http_parser_dispose (Some rq) None) (\<lambda>(rq', _). ret (ERR_NO_MEMORY, rq', po, a)))"
  by (simp add: dispose_req_wf first_line_post_ret)

lemma first_line_post_loop:
  assumes "req_wf rq" "req_params_count rq + int (length ps) \<le> INT_MAX"
  shows "first_line_post
     (case param_loop ps rq ll_empty a of
        Inl f \<Rightarrow> fault f
      | Inr (ok, rq2, l', a4) \<Rightarrow>
          if \<not> ok
          then out_bind (http_parser_dispose (Some rq2) None) (\<lambda>(rq', _). ret (ERR_NO_MEMORY, rq', Some l', a4))
          else first_line_finish m v rq2 (Some l') a4)"
  using param_loop_total [OF ll_empty_wf assms, of a]
  by (auto simp: first_line_post_dispose first_line_post_finish)

lemma first_line_total:
  assumes "n \<le> length ln" "req_wf rq" "req_params_count rq + int n \<le> INT_MAX"
  shows "first_line_post (http_parser_first_line (Some ln) n (Some rq) (Some po) a)"
proof -
  have wf: "req_wf (rq\<lparr>req_path := p\<rparr>)" for p using assms(2) by (simp add: req_wf_def)
  have "length (c_str (take n ln)) \<le> n" using length_takeWhile_le [of _ "take n ln"] by (simp add: c_str_def)
  then have fit: "req_params_count (rq\<lparr>req_path := p\<rparr>) + int (length (drop k (take j (drop i (c_str (take n ln)))))) \<le> INT_MAX"
    for p i j k using assms(3) by simp
  show ?thesis
    using assms
    by (simp add: http_parser_first_line_def Let_def wf first_line_post_ret first_line_post_finish
        first_line_post_dispose first_line_post_loop [OF wf fit] linked_list_create_simp split: prod.split option.split)
qed

text \<open>A request line, as the client writes it.\<close>

definition request_line :: "cstring \<Rightarrow> cstring \<Rightarrow> (cstring \<times> cstring) list option \<Rightarrow> cstring \<Rightarrow> cstring" where
  "request_line m path q v =
     m @ '' '' @ path @ (case q of None \<Rightarrow> [] | Some ps \<Rightarrow> ''?'' @ query_text ps) @ '' '' @ v"

lemma first_line_split:
  assumes "SP \<notin> set m" "SP \<notin> set t" "is_c_str (m @ t @ v)" "v \<noteq> []"
    and "ln = m @ '' '' @ t @ '' '' @ v @ post" "n = length (m @ '' '' @ t @ '' '' @ v)"
  shows "http_parser_first_line (Some ln) n (Some rq) (Some po) [] =
     (case strchr t (CHR ''?'') of
        None \<Rightarrow> first_line_finish m v (rq\<lparr>req_path := Some t\<rparr>) None []
      | Some q \<Rightarrow>
          (case param_loop (drop (Suc q) t) (rq\<lparr>req_path := Some (take q t)\<rparr>) ll_empty [] of
             Inl f \<Rightarrow> fault f
           | Inr (ok, rq2, l', a4) \<Rightarrow>
               if \<not> ok
               then out_bind (http_parser_dispose (Some rq2) None) (\<lambda>(rq', _). ret (ERR_NO_MEMORY, rq', Some l', a4))
               else first_line_finish m v rq2 (Some l') a4))"
proof -
  let ?s = "m @ '' '' @ t @ '' '' @ v"
  have c: "c_str (take n ln) = ?s"
    using assms(3,5,6) by (simp add: is_c_str_def c_str_id)
  have s1: "strchr ?s SP = Some (length m)" and s2: "strchr (t @ '' '' @ v) SP = Some (length t)"
    using strchr_append_found [OF assms(1), of "t @ '' '' @ v"] strchr_append_found [OF assms(2), of v]
    by simp_all
  have n: "\<not> n < 1" "\<not> length ln < n" using assms(5,6) by auto
  show ?thesis
    using assms(4) c s1 s2 n
    by (simp add: http_parser_first_line_def Let_def linked_list_create_simp split: option.split)
qed

lemma first_line_roundtrip_plain:
  assumes "SP \<notin> set m" "SP \<notin> set path" "CHR ''?'' \<notin> set path" "is_c_str (m @ path @ v)" "v \<noteq> []"
  shows "http_parser_first_line (Some (request_line m path None v @ post)) (length (request_line m path None v))
       (Some rq) (Some po) [] =
     ret (SUCCESS, Some (rq\<lparr>req_path := Some path, req_method_str := Some m, req_version := Some v,
        req_method := http_method_string_to_enum m\<rparr>), None, [])"
  using first_line_split [OF assms(1,2,4,5) _ refl, of _ post rq po] assms(3)
  by (simp add: request_line_def first_line_finish_granted strchr_notin)

lemma first_line_roundtrip_query:
  assumes "SP \<notin> set m" "SP \<notin> set (path @ query_text ps)" "CHR ''?'' \<notin> set path"
    and "is_c_str (m @ path @ query_text ps @ v)" "v \<noteq> []" "list_all clean_param ps"
    and "req_params_count rq + int (length ps) \<le> INT_MAX"
  shows "\<exists>l. http_parser_first_line (Some (request_line m path (Some ps) v @ post))
        (length (request_line m path (Some ps) v)) (Some rq) (Some po) [] =
     ret (SUCCESS, Some (rq\<lparr>req_path := Some path, req_params_count := req_params_count rq + int (length ps),
        req_method_str := Some m, req_version := Some v,
        req_method := http_method_string_to_enum m\<rparr>), Some l, []) \<and>
     ll_wf l \<and> ll_items l = map (\<lambda>p. kv (fst p) (snd p)) ps"
proof -
  let ?t = "path @ ''?'' @ query_text ps"
  obtain l where l: "param_loop (query_text ps) (rq\<lparr>req_path := Some path\<rparr>) ll_empty [] =
        Inr (True, rq\<lparr>req_path := Some path, req_params_count := req_params_count rq + int (length ps)\<rparr>, l, [])"
      "ll_wf l" "ll_items l = map (\<lambda>p. kv (fst p) (snd p)) ps"
    using param_loop_query [OF assms(6) ll_empty_wf, of "rq\<lparr>req_path := Some path\<rparr>"] assms(7) by auto
  have t: "SP \<notin> set ?t" "is_c_str (m @ ?t @ v)" using assms(2,4) by (auto simp: is_c_str_def)
  have q: "strchr ?t (CHR ''?'') = Some (length path)"
    using strchr_append_found [OF assms(3), of "query_text ps"] by simp
  show ?thesis
    using first_line_split [OF assms(1) t(1,2) assms(5) _ refl, of _ post rq po] q l
    by (simp add: request_line_def first_line_finish_granted)
qed

section \<open>Facts: the status line\<close>

definition status_line :: "cstring \<Rightarrow> cstring \<Rightarrow> cstring \<Rightarrow> cstring" where
  "status_line v code phrase = v @ '' '' @ code @ '' '' @ phrase"

lemma response_firstline_split:
  assumes "SP \<notin> set v" "SP \<notin> set code" "is_c_str (v @ code @ phrase)"
  shows "http_parser_response_firstline (Some (status_line v code phrase @ post))
        (length (status_line v code phrase)) (Some r) [] =
     (let r3 = r\<lparr>resp_version := Some v, resp_status_code_string := Some code,
                resp_reason_phrase := Some phrase\<rparr> in
      res_bind (parse_string_to_int (Some code) True) (\<lambda>(_, iv).
        (case HttpStatus_reasonPhrase (case iv of None \<Rightarrow> 0 | Some n \<Rightarrow> n) of
           None \<Rightarrow> Inl NullDeref
         | Some p \<Rightarrow>
             if phrase \<noteq> p then Inr (ERR_BAD_FORMAT, Some (resp_disposed r3), [])
             else Inr (SUCCESS, Some r3, []))))"
proof -
  let ?s = "v @ '' '' @ code @ '' '' @ phrase"
  have c: "c_str (take (length ?s) (?s @ post)) = ?s"
    using assms(3) by (simp add: is_c_str_def c_str_id)
  have s: "strchr ?s SP = Some (length v)" "strchr (code @ '' '' @ phrase) SP = Some (length code)"
    using strchr_append_found [OF assms(1), of "code @ '' '' @ phrase"]
      strchr_append_found [OF assms(2), of phrase] by simp_all
  show ?thesis
    using c s
    by (simp add: http_parser_response_firstline_def status_line_def Let_def res_bind_def
        split: sum.split prod.split)
qed

lemma parse_int_dec_str:
  assumes "n \<le> 2 ^ 31 - 1"
  shows "parse_string_to_int (Some (dec_str n)) True = Inr (0, Some (int n))"
proof -
  have "length (dec_str n) \<le> 10" using assms dec_str_length [of n 9] by simp
  then have "c_int (int (length (dec_str n))) = int (length (dec_str n))"
      "take (length (dec_str n)) (dec_str n) = dec_str n" "\<not> int (length (dec_str n)) > 36"
    by (simp_all add: c_conv)
  moreover have "strtol10 (dec_str n) = (int n, True, [], False)"
    using strtol10_digits [of "dec_str n" "[]"] assms by (simp add: LONG_MAX_def)
  ultimately show ?thesis
    using assms by (simp add: parse_string_to_int_def Let_def INT_MIN_def INT_MAX_def c_conv)
qed

lemma dec_str_no_SP: "SP \<notin> set (dec_str n)" "is_c_str (dec_str n)"
  using dec_str_digits [of n] isdigit_not_special by (auto simp: list_all_iff is_c_str_def)

lemma response_firstline_code:
  assumes "SP \<notin> set v" "is_c_str (v @ phrase)" "0 \<le> code" "code < 2 ^ 31"
  shows "http_parser_response_firstline (Some (status_line v (dec_str (nat code)) phrase @ post))
        (length (status_line v (dec_str (nat code)) phrase)) (Some r) [] =
     (let r3 = r\<lparr>resp_version := Some v, resp_status_code_string := Some (dec_str (nat code)),
                resp_reason_phrase := Some phrase\<rparr> in
      (case HttpStatus_reasonPhrase code of
         None \<Rightarrow> Inl NullDeref
       | Some p \<Rightarrow>
           if phrase \<noteq> p then Inr (ERR_BAD_FORMAT, Some (resp_disposed r3), [])
           else Inr (SUCCESS, Some r3, [])))"
proof -
  have "parse_string_to_int (Some (dec_str (nat code))) True = Inr (0, Some code)"
    using parse_int_dec_str [of "nat code"] assms(3,4) by simp
  then show ?thesis
    using response_firstline_split [OF assms(1), of "dec_str (nat code)" phrase post r] assms(2)
      dec_str_no_SP by simp
qed

section \<open>Facts: URLs\<close>

lemma strstr_scheme:
  assumes "CHR '':'' \<notin> set s"
  shows "strstr (s @ ''://'' @ r) ''://'' = Some (length s)"
  using assms by (induction s) auto

definition url_ok :: "URL_Parts \<Rightarrow> bool" where
  "url_ok p \<longleftrightarrow> up_scheme p \<noteq> [] \<and> length (up_scheme p) \<le> 5 \<and>
     up_host p \<noteq> [] \<and> length (up_host p) \<le> 127 \<and>
     up_port p \<noteq> [] \<and> length (up_port p) \<le> 5 \<and> all_digits (up_port p) \<and>
     up_path p \<noteq> [] \<and> hd (up_path p) = CHR ''/'' \<and> length (up_path p) \<le> 511"

lemma default_ports_digits: "all_digits ''443''" "all_digits ''80''"
  by (simp_all add: all_digits_def isdigit_def char_code_def)

lemma url_path_port_ok:
  assumes "url_path_port rest k p = (SUCCESS, p')"
    and "up_scheme p \<noteq> []" "length (up_scheme p) \<le> 5" "up_host p \<noteq> []" "length (up_host p) \<le> 127"
    and "length (up_port p) \<le> 5" "all_digits (up_port p)"
  shows "url_ok p' \<and> up_scheme p' = up_scheme p \<and> up_host p' = up_host p \<and>
     (up_port p \<noteq> [] \<longrightarrow> up_port p' = up_port p)"
  using assms hd_drop_conv_nth [of k rest] default_ports_digits
  by (auto simp: url_path_port_def url_ok_def Let_def err_codes split: if_splits)

lemma url_host_end_le: "url_host_end rest \<le> length rest"
  by (auto simp: url_host_end_def split: option.split dest: strchr_Some_less)

lemma url_parts:
  assumes "http_parser_url (Some u) (Some c) = (SUCCESS, p)" "strstr u ''://'' = Some n"
  shows "\<exists>k p1 q. url_path_port (drop (n + 3) u) k p1 = (SUCCESS, q) \<and> p = Some q \<and>
      up_scheme p1 = take n u \<and> up_host p1 = take (url_host_end (drop (n + 3) u)) (drop (n + 3) u) \<and>
      url_host_end (drop (n + 3) u) \<noteq> 0 \<and> url_host_end (drop (n + 3) u) < 128 \<and>
      0 < n \<and> n < 6 \<and> length (up_port p1) \<le> 5 \<and> all_digits (up_port p1)"
proof (cases "strchr (drop (n + 3) u) (CHR '':'') = Some (url_host_end (drop (n + 3) u))")
  case True
  let ?r = "drop (n + 3) u"
  let ?e = "case strchr ?r (CHR ''/'') of Some s \<Rightarrow> s | None \<Rightarrow> length ?r"
  let ?port = "take (?e - Suc (url_host_end ?r)) (drop (Suc (url_host_end ?r)) ?r)"
  let ?p1 = "zero_url\<lparr>up_scheme := take n u, up_host := take (url_host_end ?r) ?r, up_port := ?port\<rparr>"
  have "map_prod id Some (url_path_port ?r ?e ?p1) = (SUCCESS, p) \<and> all_digits ?port \<and> length ?port \<le> 5 \<and>
      0 < n \<and> n < 6 \<and> url_host_end ?r \<noteq> 0 \<and> url_host_end ?r < 128"
    using assms True by (simp add: http_parser_url_def Let_def err_codes split: if_splits)
  then show ?thesis by (cases "url_path_port ?r ?e ?p1") (force simp: zero_url_def)
next
  case False
  let ?r = "drop (n + 3) u"
  let ?p1 = "zero_url\<lparr>up_scheme := take n u, up_host := take (url_host_end ?r) ?r\<rparr>"
  have "map_prod id Some (url_path_port ?r (url_host_end ?r) ?p1) = (SUCCESS, p) \<and>
      0 < n \<and> n < 6 \<and> url_host_end ?r \<noteq> 0 \<and> url_host_end ?r < 128"
    using assms False by (simp add: http_parser_url_def Let_def err_codes split: if_splits)
  then show ?thesis
    by (cases "url_path_port ?r (url_host_end ?r) ?p1") (force simp: zero_url_def all_digits_def)
qed

lemma url_sound:
  assumes "http_parser_url (Some u) (Some c) = (SUCCESS, p)"
  shows "\<exists>q r. p = Some q \<and> url_ok q \<and> u = up_scheme q @ ''://'' @ up_host q @ r"
proof -
  obtain n where n: "strstr u ''://'' = Some n"
    using assms by (auto simp: http_parser_url_def err_codes split: option.splits if_splits)
  let ?rest = "drop (n + 3) u"
  have pre: "take (length ''://'') (drop n u) = ''://''" "n \<le> length u"
    using strstr_Some_prefix [OF n(1)] by blast+
  have u: "u = take n u @ ''://'' @ ?rest"
  proof -
    have "u = take n u @ take (length ''://'') (drop n u) @ drop (length ''://'') (drop n u)"
      by (simp only: append_take_drop_id)
    then show ?thesis unfolding pre(1) by (simp add: add.commute numeral_3_eq_3)
  qed
  obtain k p1 q where q: "url_path_port ?rest k p1 = (SUCCESS, q)" "p = Some q"
      "up_scheme p1 = take n u" "up_host p1 = take (url_host_end ?rest) ?rest" "url_host_end ?rest \<noteq> 0"
      "url_host_end ?rest < 128" "0 < n" "n < 6" "length (up_port p1) \<le> 5" "all_digits (up_port p1)"
    using url_parts [OF assms n] by blast
  have len: "length (up_scheme p1) = n" "length (up_host p1) = url_host_end ?rest"
    using q(3,4) pre(2) url_host_end_le [of ?rest] by auto
  have "url_ok q \<and> up_scheme q = up_scheme p1 \<and> up_host q = up_host p1"
    using url_path_port_ok [OF q(1) _ _ _ _ q(9,10)] len q(5-8) by fastforce
  moreover have "?rest = up_host p1 @ drop (url_host_end ?rest) ?rest"
    unfolding q(4) by (rule append_take_drop_id [symmetric])
  ultimately show ?thesis using u q(2,3) by metis
qed

text \<open>Printing a URL with and without a port.\<close>

definition url_text :: "cstring \<Rightarrow> cstring \<Rightarrow> cstring option \<Rightarrow> cstring \<Rightarrow> cstring" where
  "url_text sch host port path =
     sch @ ''://'' @ host @ (case port of None \<Rightarrow> [] | Some d \<Rightarrow> CHR '':'' # d) @ path"

lemma url_host_end_stop:
  assumes "CHR '':'' \<notin> set host" "CHR ''/'' \<notin> set host" "r \<noteq> [] \<longrightarrow> hd r = CHR '':'' \<or> hd r = CHR ''/''"
  shows "url_host_end (host @ r) = length host"
  using assms
proof (induction host)
  case Nil
  then show ?case by (cases r) (auto simp: url_host_end_def split: option.split)
next
  case (Cons x xs)
  then show ?case by (auto simp: url_host_end_def split: option.splits if_splits)
qed

lemma digits_no_slash: "all_digits d \<Longrightarrow> CHR ''/'' \<notin> set d"
  by (auto simp: all_digits_def list_all_iff isdigit_def char_code_def)

lemma url_roundtrip_port:
  assumes "sch \<noteq> []" "length sch \<le> 5" "CHR '':'' \<notin> set sch"
    and "host \<noteq> []" "length host \<le> 127" "CHR '':'' \<notin> set host" "CHR ''/'' \<notin> set host"
    and "d \<noteq> []" "length d \<le> 5" "all_digits d"
    and "path = [] \<or> hd path = CHR ''/''" "length path \<le> 511"
  shows "http_parser_url (Some (url_text sch host (Some d) path)) (Some c) =
     (SUCCESS, Some \<lparr>up_scheme = sch, up_host = host, up_port = d,
        up_path = (if path = [] then ''/'' else path)\<rparr>)"
proof -
  let ?r = "host @ (CHR '':'' # d @ path)"
  have s: "strstr (url_text sch host (Some d) path) ''://'' = Some (length sch)"
    using strstr_scheme [OF assms(3), of ?r] by (simp add: url_text_def)
  have r: "drop (length sch + 3) (url_text sch host (Some d) path) = ?r"
    by (simp add: url_text_def numeral_3_eq_3)
  have t: "take (length sch) (url_text sch host (Some d) path) = sch" by (simp add: url_text_def)
  have h: "url_host_end ?r = length host" using assms(6,7) by (simp add: url_host_end_stop)
  have c: "strchr ?r (CHR '':'') = Some (length host)" using assms(6) by (rule strchr_append_found)
  have sl: "(case strchr ?r (CHR ''/'') of None \<Rightarrow> length ?r | Some s \<Rightarrow> s) = length host + 1 + length d"
  proof (cases path)
    case Nil
    then show ?thesis using assms(7,10) digits_no_slash by (simp add: strchr_notin)
  next
    case (Cons x xs)
    then have "?r = (host @ CHR '':'' # d) @ CHR ''/'' # xs" using assms(11) by simp
    moreover have "CHR ''/'' \<notin> set (host @ CHR '':'' # d)" using assms(7,10) digits_no_slash by simp
    ultimately show ?thesis using strchr_append_found by (metis (no_types, lifting) add.assoc
          length_Cons length_append option.case(2) plus_1_eq_Suc)
  qed
  have port: "take (length d) (drop (Suc (length host)) ?r) = d" by simp
  have pp: "url_path_port ?r (length host + 1 + length d) p =
      (SUCCESS, p\<lparr>up_path := (if path = [] then ''/'' else path)\<rparr>)" if "up_port p = d" for p
    using assms(8,11,12) that
    by (cases path) (auto simp: url_path_port_def Let_def nth_append err_codes)
  show ?thesis
    using assms s r t h c sl port pp by (simp add: http_parser_url_def Let_def zero_url_def)
qed

lemma url_roundtrip_default:
  assumes "map tolower sch = ''https'' \<and> d = ''443'' \<or> map tolower sch = ''http'' \<and> d = ''80''"
    and "host \<noteq> []" "length host \<le> 127" "CHR '':'' \<notin> set host" "CHR ''/'' \<notin> set host"
    and "path = [] \<or> hd path = CHR ''/''" "length path \<le> 511"
  shows "http_parser_url (Some (url_text sch host None path)) (Some c) =
     (SUCCESS, Some \<lparr>up_scheme = sch, up_host = host, up_port = d,
        up_path = (if path = [] then ''/'' else path)\<rparr>)"
proof -
  let ?r = "host @ path"
  have len: "sch \<noteq> []" "length sch \<le> 5" using assms(1) by (auto dest!: arg_cong [of _ _ length])
  have "CHR '':'' \<notin> set (map tolower sch)" using assms(1) by auto
  moreover have "tolower (CHR '':'') = CHR '':''" by (simp add: tolower_def char_code_def)
  ultimately have ns: "CHR '':'' \<notin> set sch" by (metis image_eqI list.set_map)
  have s: "strstr (url_text sch host None path) ''://'' = Some (length sch)"
    using strstr_scheme [OF ns, of ?r] by (simp add: url_text_def)
  have r: "drop (length sch + 3) (url_text sch host None path) = ?r"
    by (simp add: url_text_def numeral_3_eq_3)
  have t: "take (length sch) (url_text sch host None path) = sch" by (simp add: url_text_def)
  have h: "url_host_end ?r = length host" using assms(4-6) by (auto intro: url_host_end_stop)
  have c: "strchr ?r (CHR '':'') \<noteq> Some (length host)"
    using assms(6) by (cases path) (auto simp: strchr_Some_iff)
  have sl: "scheme_lower sch = map tolower sch" using len by (simp add: scheme_lower_def)
  have pp: "url_path_port ?r (length host) p =
      (SUCCESS, p\<lparr>up_path := (if path = [] then ''/'' else path), up_port := d\<rparr>)"
    if "up_port p = []" "up_scheme p = sch" for p
    using assms(1,6,7) that sl
    by (cases path) (auto simp: url_path_port_def Let_def nth_append err_codes)
  show ?thesis
    using assms(2,3) len s r t h c pp by (simp add: http_parser_url_def Let_def zero_url_def)
qed

section \<open>Properties\<close>

text \<open>C20: Whatever the bytes of the buffer and whatever allocations fail, the header parser returns:
  it never reads outside the buffer, never loops forever, and gives either SUCCESS with a well-formed
  list, which the dispose function then releases completely, or ERR_NO_MEMORY or ERR_BAD_FORMAT with
  NULL in the out-parameter.\<close>

theorem headers_safe:
  assumes "n \<le> length bs" "length bs < 2 ^ 31"
  shows "\<exists>code lo' a'. http_parser_headers (Some bs) n (Some lo) a = ret (code, lo', a') \<and>
     headers_post code lo' \<and> http_parser_dispose_linked_list lo' = ret ()"
proof -
  obtain code lo' a' where r: "http_parser_headers (Some bs) n (Some lo) a = ret (code, lo', a')"
      "headers_post code lo'"
    using headers_total [OF assms] by blast
  then have "http_parser_dispose_linked_list lo' = ret ()"
    by (intro dispose_list_wf) (auto simp: headers_post_def)
  with r show ?thesis by blast
qed

theorem headers_safe_witness:
  "\<exists>code lo' a'. http_parser_headers (Some (''no colon'' @ CRLF)) 10 (Some None) [True, False] =
      ret (code, lo', a') \<and> headers_post code lo' \<and> http_parser_dispose_linked_list lo' = ret ()"
  by (rule headers_safe) (simp_all add: CRLF_def)

text \<open>C21: Round trip of the header block: a block printed from headers without control characters or
  surrounding blanks is parsed to exactly those headers in their order, and the lookup then returns
  for every name the value of the first header of that name, or ERR_NOT_FOUND.\<close>

theorem headers_roundtrip:
  assumes "list_all clean_header hs" "length (header_block hs @ post) < 2 ^ 31"
  shows "\<exists>l. http_parser_headers (Some (header_block hs @ post)) (length (header_block hs)) (Some lo) []
        = ret (SUCCESS, Some l, []) \<and>
      ll_items l = map (\<lambda>h. kv (fst h) (snd h)) hs \<and>
      (\<forall>nm. http_parser_get_header_value (Some l) (Some nm) True =
         ret (case map_of hs nm of Some v \<Rightarrow> (SUCCESS, Some v) | None \<Rightarrow> (ERR_NOT_FOUND, None)))"
  using headers_block [OF assms, of lo] get_header_value_items by blast

theorem headers_roundtrip_witness:
  "\<exists>l. http_parser_headers (Some (header_block [(''Host'', ''a b''), (''X'', ''1''), (''X'', ''2'')] @ ''body''))
        (length (header_block [(''Host'', ''a b''), (''X'', ''1''), (''X'', ''2'')])) (Some None) []
      = ret (SUCCESS, Some l, []) \<and>
      ll_items l = [kv ''Host'' ''a b'', kv ''X'' ''1'', kv ''X'' ''2''] \<and>
      http_parser_get_header_value (Some l) (Some ''X'') True = ret (SUCCESS, Some ''1'')"
proof -
  have "list_all clean_header [(''Host'', ''a b''), (''X'', ''1''), (''X'', ''2'')]"
    by (simp add: clean_header_def hdr_ws_def hdr_lws_def)
  moreover have "length (header_block [(''Host'', ''a b''), (''X'', ''1''), (''X'', ''2'')] @ ''body'') < 2 ^ 31"
    by (simp add: header_block_def header_text_def CRLF_def)
  ultimately show ?thesis
    using headers_roundtrip [of "[(''Host'', ''a b''), (''X'', ''1''), (''X'', ''2'')]" "''body''" None]
    by (elim exE conjE impE meta_impE) (auto intro!: exI)
qed

text \<open>A full counter overflows at the first parameter.\<close>

lemma param_count_overflow:
  assumes "clean_param (k, v)" "req_params_count rq = INT_MAX"
  shows "param_loop (query_text [(k, v)]) rq ll_empty [] = Inl SignedOverflow"
proof -
  obtain p l' where "linked_list_item_add ll_empty (kv k v) [] = Inr (0, p, l', [])"
    using ll.add_granted [OF ll_empty_wf, of "[]" "[]" "kv k v"] by auto
  then show ?thesis using assms next_param_last [of k v] by (subst param_loop.simps) (simp add: kv_def)
qed

text \<open>C22: Whatever the bytes of the line and whatever allocations fail, the request-line parser returns
  one of its four codes without a fault and leaves a request whose lists can be disposed of. The parameter counter
  of the request, an \<^verbatim>\<open>int\<close> that the parser adds to, has room for a line of this length; without room
  the increment overflows, see \<open>param_count_overflow\<close>.\<close>

theorem first_line_safe:
  assumes "n \<le> length ln" "req_wf rq" "req_params_count rq + int n \<le> INT_MAX"
  shows "\<exists>code rq' po' a'. http_parser_first_line (Some ln) n (Some rq) (Some po) a = ret (code, Some rq', po', a') \<and>
     code \<in> {SUCCESS, ERR_INVALID_ARG, ERR_BAD_FORMAT, ERR_NO_MEMORY} \<and>
     http_parser_dispose (Some rq') None = ret (Some (req_disposed rq'), None)"
  using first_line_total [OF assms, of po a] dispose_req_wf [of _ None]
  by (auto simp: first_line_post_def)

theorem first_line_safe_witness:
  "\<exists>code rq' po' a'. http_parser_first_line (Some ''GET /a?b=c HTTP/1.1'') 19 (Some zero_request) (Some None)
        [True, True, True, True, False] = ret (code, Some rq', po', a') \<and>
     code \<in> {SUCCESS, ERR_INVALID_ARG, ERR_BAD_FORMAT, ERR_NO_MEMORY} \<and>
     http_parser_dispose (Some rq') None = ret (Some (req_disposed rq'), None)"
  by (rule first_line_safe) (simp_all add: req_wf_def zero_request_def INT_MAX_def)

text \<open>C23: Round trip of the request line with a query: method, path, version and every parameter, in
  order, come back as they were printed, and the parameter counter grows by their number, as long as the \<^verbatim>\<open>int\<close> can
  hold it.\<close>

theorem first_line_roundtrip:
  assumes "SP \<notin> set m" "SP \<notin> set (path @ query_text ps)" "CHR ''?'' \<notin> set path"
    and "is_c_str (m @ path @ query_text ps @ v)" "v \<noteq> []" "list_all clean_param ps"
    and "req_params_count rq + int (length ps) \<le> INT_MAX"
  shows "\<exists>l. http_parser_first_line (Some (request_line m path (Some ps) v @ post))
        (length (request_line m path (Some ps) v)) (Some rq) (Some po) [] =
     ret (SUCCESS, Some (rq\<lparr>req_path := Some path, req_params_count := req_params_count rq + int (length ps),
        req_method_str := Some m, req_version := Some v,
        req_method := http_method_string_to_enum m\<rparr>), Some l, []) \<and>
     ll_wf l \<and> ll_items l = map (\<lambda>p. kv (fst p) (snd p)) ps"
  by (rule first_line_roundtrip_query [OF assms])

theorem first_line_roundtrip_witness:
  "\<exists>l. http_parser_first_line (Some (request_line ''PUT'' ''/p'' (Some [(''a'', ''1''), (''b'', ''2'')]) ''HTTP/1.1'' @ CRLF))
        (length (request_line ''PUT'' ''/p'' (Some [(''a'', ''1''), (''b'', ''2'')]) ''HTTP/1.1''))
        (Some zero_request) (Some None) [] =
     ret (SUCCESS, Some (zero_request\<lparr>req_path := Some ''/p'',
        req_params_count := req_params_count zero_request + int (length [(''a'', ''1''), (''b'', ''2'')]),
        req_method_str := Some ''PUT'', req_version := Some ''HTTP/1.1'',
        req_method := http_method_string_to_enum ''PUT''\<rparr>), Some l, []) \<and>
     ll_wf l \<and> ll_items l = map (\<lambda>p. kv (fst p) (snd p)) [(''a'', ''1''), (''b'', ''2'')]"
  by (rule first_line_roundtrip) (simp_all add: is_c_str_def clean_param_def zero_request_def INT_MAX_def)

text \<open>C24: The status line of every code the library knows, with the phrase the library has for it, is
  accepted and its three parts stored; the same code with another phrase is refused with
  ERR_BAD_FORMAT and all parts released.\<close>

theorem status_line_roundtrip:
  assumes "SP \<notin> set v" "is_c_str (v @ phrase)" "0 \<le> code" "code < 2 ^ 31"
    and "HttpStatus_reasonPhrase code = Some p"
  shows "http_parser_response_firstline (Some (status_line v (dec_str (nat code)) phrase @ post))
        (length (status_line v (dec_str (nat code)) phrase)) (Some r) [] =
     (let r3 = r\<lparr>resp_version := Some v, resp_status_code_string := Some (dec_str (nat code)),
                resp_reason_phrase := Some phrase\<rparr> in
      if phrase = p then Inr (SUCCESS, Some r3, [])
      else Inr (ERR_BAD_FORMAT, Some (resp_disposed r3), []))"
  using response_firstline_code [OF assms(1-4), of post r] assms(5) by (simp add: Let_def)

theorem status_line_roundtrip_witness:
  "http_parser_response_firstline (Some (status_line ''HTTP/1.1'' (dec_str (nat 404)) ''Not Found'' @ CRLF))
        (length (status_line ''HTTP/1.1'' (dec_str (nat 404)) ''Not Found'')) (Some zero_response) [] =
     Inr (SUCCESS, Some (zero_response\<lparr>resp_version := Some ''HTTP/1.1'',
        resp_status_code_string := Some (dec_str (nat 404)), resp_reason_phrase := Some ''Not Found''\<rparr>), [])"
proof -
  have "HttpStatus_reasonPhrase 404 = Some ''Not Found''"
    by (simp add: HttpStatus_reasonPhrase_def reason_table_def)
  from status_line_roundtrip [OF _ _ _ _ this, of "''HTTP/1.1''" "''Not Found''" CRLF zero_response]
  show ?thesis by (simp add: is_c_str_def Let_def)
qed

text \<open>C25: A status line whose code is not in the library's table makes the parser call strcmp on a null
  pointer: the phrase lookup returns NULL and its result is used unchecked.\<close>

theorem status_line_unknown_code:
  assumes "SP \<notin> set v" "is_c_str (v @ phrase)" "0 \<le> code" "code < 2 ^ 31"
    and "HttpStatus_reasonPhrase code = None"
  shows "http_parser_response_firstline (Some (status_line v (dec_str (nat code)) phrase @ post))
        (length (status_line v (dec_str (nat code)) phrase)) (Some r) [] = Inl NullDeref"
  using response_firstline_code [OF assms(1-4), of post r] assms(5) by (simp add: Let_def)

theorem status_line_unknown_code_witness:
  "http_parser_response_firstline (Some (status_line ''HTTP/1.1'' (dec_str (nat 299)) ''Odd'' @ CRLF))
        (length (status_line ''HTTP/1.1'' (dec_str (nat 299)) ''Odd'')) (Some zero_response) [] = Inl NullDeref"
  by (rule status_line_unknown_code) (simp_all add: is_c_str_def HttpStatus_reasonPhrase_def reason_table_def)

text \<open>C27: Whenever the URL parser reports SUCCESS, the scheme and the host are a prefix of the URL around
  the separator, every part fits its fixed array with its terminator, the port is a non-empty string
  of at most five digits and the path starts with a slash.\<close>

theorem url_parser_sound:
  assumes "http_parser_url (Some u) (Some c) = (SUCCESS, p)"
  shows "\<exists>q r. p = Some q \<and> url_ok q \<and> u = up_scheme q @ ''://'' @ up_host q @ r"
  using assms by (rule url_sound)

theorem url_parser_sound_witness:
  "\<exists>q r. Some \<lparr>up_scheme = ''https'', up_host = ''a.se'', up_port = ''8443'', up_path = ''/x''\<rparr> = Some q \<and>
     url_ok q \<and> url_text ''https'' ''a.se'' (Some ''8443'') ''/x'' = up_scheme q @ ''://'' @ up_host q @ r"
proof (rule url_parser_sound)
  show "http_parser_url (Some (url_text ''https'' ''a.se'' (Some ''8443'') ''/x'')) (Some zero_url) =
      (SUCCESS, Some \<lparr>up_scheme = ''https'', up_host = ''a.se'', up_port = ''8443'', up_path = ''/x''\<rparr>)"
    using url_roundtrip_port [of "''https''" "''a.se''" "''8443''" "''/x''" zero_url]
    by (simp add: all_digits_def isdigit_def char_code_def)
qed

text \<open>C28: Round trip of URLs: scheme, host, optional port and path come back as printed; without a port
  the default of the scheme, whatever its case, is filled in, and an empty path becomes a slash.\<close>

theorem url_roundtrip:
  assumes "sch \<noteq> []" "length sch \<le> 5" "CHR '':'' \<notin> set sch"
    and "host \<noteq> []" "length host \<le> 127" "CHR '':'' \<notin> set host" "CHR ''/'' \<notin> set host"
    and "path = [] \<or> hd path = CHR ''/''" "length path \<le> 511"
    and "case port of
           Some p \<Rightarrow> d = p \<and> p \<noteq> [] \<and> length p \<le> 5 \<and> all_digits p
         | None \<Rightarrow> map tolower sch = ''https'' \<and> d = ''443'' \<or> map tolower sch = ''http'' \<and> d = ''80''"
  shows "http_parser_url (Some (url_text sch host port path)) (Some c) =
     (SUCCESS, Some \<lparr>up_scheme = sch, up_host = host, up_port = d,
        up_path = (if path = [] then ''/'' else path)\<rparr>)"
proof (cases port)
  case None
  then show ?thesis using assms url_roundtrip_default [of sch d host path c] by simp
next
  case (Some p)
  then show ?thesis using assms url_roundtrip_port [of sch host p path c] by simp
qed

theorem url_roundtrip_witness:
  "http_parser_url (Some (url_text ''HTTPS'' ''api.se'' None ''/v1?q=1'')) (Some zero_url) =
     (SUCCESS, Some \<lparr>up_scheme = ''HTTPS'', up_host = ''api.se'', up_port = ''443'', up_path = ''/v1?q=1''\<rparr>)"
proof -
  have "map tolower ''HTTPS'' = ''https''" by code_simp
  then show ?thesis
    using url_roundtrip [where port = None and d = "''443''" and sch = "''HTTPS''" and host = "''api.se''"
        and path = "''/v1?q=1''" and c = zero_url] by simp
qed

text \<open>The line scan is exact: on a buffer of less than 2 GiB it returns i precisely when the first
  CR LF of the scanned bytes starts at i, and -1 precisely when there is none.\<close>

lemma find_line_end_exact:
  assumes "length buf < 2 ^ 31" "n \<le> length buf"
  shows "(http_parser_find_line_end buf n = int i \<longleftrightarrow>
       Suc i < n \<and> crlf_at buf i \<and> (\<forall>j<i. \<not> crlf_at buf j)) \<and>
     (http_parser_find_line_end buf n = -1 \<longleftrightarrow> (\<forall>j. Suc j < n \<longrightarrow> \<not> crlf_at buf j))"
proof -
  have "http_parser_find_line_end buf n = -1 \<longleftrightarrow> (\<forall>j. Suc j < n \<longrightarrow> \<not> crlf_at buf j)"
    by (rule find_line_end_cases [OF assms]) auto
  then show ?thesis using find_line_end_iff [OF assms] by blast
qed

lemma find_line_end_exact_witness:
  "http_parser_find_line_end (''ab'' @ CRLF @ ''cd'') 6 = int 2"
proof -
  have "length (''ab'' @ CRLF @ ''cd'') < 2 ^ 31" "6 \<le> length (''ab'' @ CRLF @ ''cd'')"
    by (simp_all add: CRLF_def)
  from find_line_end_exact [OF this, of 2] show ?thesis
    by (simp add: CRLF_def crlf_at_def less_Suc_eq numeral_2_eq_2)
qed

end
