(* ===== verification/Transport.thy ===== *)
theory Transport imports TLS_Client HTTP_Parser begin

text \<open>
  \<^verbatim>\<open>modules/src/transport.c\<close>: plain TCP or TLS over TCP behind one interface. The BIO callbacks
  capture the TCP client of the transport they are made in. A blocking handshake that never
  completes is a call that never returns (\<open>None\<close>). What the HTTP client relies on when it reads is the
  locale \<open>byte_stream\<close> of \<open>HTTP_Stream\<close>, interpreted there on the plain transport.
\<close>

section \<open>Data\<close>

record 's Transport =
  tr_host :: "cstring option"
  tr_port :: "cstring option"
  tr_scheme :: "cstring option"
  tr_tcp :: TCP_Client
  tr_tls :: "'s TLS_Client"
  tr_timeout_ms :: int
  tr_use_tls :: bool
  tr_use_blocking :: bool
  tr_tls_initiated :: bool

definition zero_transport :: "'s mbedtls \<Rightarrow> 's Transport" where
  "zero_transport mb = \<lparr>tr_host = None, tr_port = None, tr_scheme = None, tr_tcp = zero_tcp,
     tr_tls = zero_tls mb, tr_timeout_ms = 0, tr_use_tls = False, tr_use_blocking = False,
     tr_tls_initiated = False\<rparr>"

section \<open>Callbacks\<close>

definition transport_bio_send :: "TCP_Client \<Rightarrow> send_fn" where
  "transport_bio_send tcp buf w =
     (case tcp_client_write_simple tcp buf w of (r, w1) \<Rightarrow> (if r < 0 then -1 else r, w1))"

definition transport_bio_recv :: "TCP_Client \<Rightarrow> recv_fn" where
  "transport_bio_recv tcp len w = tcp_client_read_simple tcp len w"

definition transport_bio :: "TCP_Client \<Rightarrow> TLS_BIO" where
  "transport_bio tcp = \<lparr>bio_send = Some (transport_bio_send tcp), bio_recv = Some (transport_bio_recv tcp)\<rparr>"

section \<open>Operations\<close>

text \<open>\<open>Some\<close> (use TLS?) for a supported scheme.\<close>

definition scheme_uses_tls :: "cstring \<Rightarrow> bool option" where
  "scheme_uses_tls scheme =
     (if scheme_lower scheme = ''https'' then Some True
      else if scheme_lower scheme = ''http'' then Some False
      else None)"

text \<open>\<^verbatim>\<open>while (true)\<close>: handshake until it succeeds or fails.\<close>

partial_function (option) handshake_loop ::
  "'s mbedtls \<Rightarrow> 's TLS_Client option \<Rightarrow> world \<Rightarrow>
     (int \<times> 's TLS_Client option \<times> world) option" where
  "handshake_loop mb tls w =
     (case tls_client_handshake_step mb tls w of (hs, tls', w') \<Rightarrow>
        if hs = 0 then Some (SUCCESS, tls', w')
        else if hs = ERR_IN_PROGRESS then handshake_loop mb tls' w'
        else Some (ERR_IO, tls', w'))"

declare handshake_loop.simps [code]

definition transport_init ::
  "'s mbedtls \<Rightarrow> 's Transport option \<Rightarrow> cstring option \<Rightarrow> cstring option \<Rightarrow> cstring option \<Rightarrow>
     int \<Rightarrow> bool \<Rightarrow> world \<Rightarrow> (int \<times> 's Transport option \<times> world) out" where
  "transport_init mb t host port scheme timeout_ms use_blocking w =
     (case (t, host, port, scheme) of
        (Some _, Some h, Some p, Some s) \<Rightarrow>
          if h = [] \<or> p = [] \<or> s = [] then ret (ERR_INVALID_ARG, t, w)
          else
            (let t1 = (zero_transport mb)\<lparr>tr_host := host, tr_port := port, tr_scheme := scheme,
                        tr_timeout_ms := timeout_ms, tr_use_blocking := use_blocking\<rparr> in
             (case scheme_uses_tls s of
                None \<Rightarrow> ret (ERR_BAD_FORMAT, Some t1, w)
              | Some use_tls \<Rightarrow>
                  (let t2 = t1\<lparr>tr_use_tls := use_tls\<rparr> in
                   (case (if use_blocking
                          then tcp_client_blocking_init (Some (tr_tcp t2)) host port timeout_ms w
                          else tcp_client_init (Some (tr_tcp t2)) host port w)
                    of (res, tcp, w1) \<Rightarrow>
                      (let t3 = t2\<lparr>tr_tcp := the tcp\<rparr> in
                       if res \<noteq> SUCCESS \<and> res \<noteq> ERR_IN_PROGRESS then ret (res, Some t3, w1)
                       else if use_tls
                       then
                         (if use_blocking
                          then
                            (case tls_client_init mb (Some (tr_tls t3)) host (Some (transport_bio (tr_tcp t3))) w1
                             of (r, tls, w2) \<Rightarrow>
                               (let t4 = t3\<lparr>tr_tls := the tls\<rparr> in
                                if r \<noteq> 0
                                then
                                  (case tcp_client_dispose (Some (tr_tcp t4)) w2 of (tcp', w3) \<Rightarrow>
                                     ret (ERR_IO, Some (t4\<lparr>tr_tcp := the tcp'\<rparr>), w3))
                                else
                                  (case handshake_loop mb tls w2 of
                                     None \<Rightarrow> None
                                   | Some (hs, tls', w3) \<Rightarrow>
                                       ret (hs, Some (t4\<lparr>tr_tls := the tls', tr_tls_initiated := True\<rparr>), w3))))
                          else ret (res, Some (t3\<lparr>tr_tls_initiated := False\<rparr>), w1))
                       else ret (res, Some t3, w1))))))
      | _ \<Rightarrow> ret (ERR_INVALID_ARG, t, w))"

definition transport_read ::
  "'s mbedtls \<Rightarrow> 's Transport option \<Rightarrow> nat \<Rightarrow> world \<Rightarrow>
     int \<times> byte list \<times> 's Transport option \<times> world" where
  "transport_read mb t len w =
     (case t of
        None \<Rightarrow> (ERR_INVALID_ARG, [], t, w)
      | Some tr \<Rightarrow>
          if \<not> tr_use_tls tr
          then (case tcp_client_read_simple (tr_tcp tr) len w of (n, bs, w1) \<Rightarrow> (n, bs, t, w1))
          else
            (case tls_client_read mb (Some (tr_tls tr)) len w of (res, bs, tls, w1) \<Rightarrow>
               (let t1 = Some (tr\<lparr>tr_tls := the tls\<rparr>) in
                if res \<ge> 0 then (res, bs, t1, w1)
                else if would_block (w_errno w1) then (-1, [], t1, w1)
                else (ERR_IO, [], t1, w1))))"

definition transport_write ::
  "'s mbedtls \<Rightarrow> 's Transport option \<Rightarrow> byte list \<Rightarrow> world \<Rightarrow>
     int \<times> 's Transport option \<times> world" where
  "transport_write mb t bs w =
     (case t of
        None \<Rightarrow> (ERR_INVALID_ARG, t, w)
      | Some tr \<Rightarrow>
          if tr_use_tls tr
          then (case tls_client_write mb (Some (tr_tls tr)) (Some bs) w of (res, tls, w1) \<Rightarrow>
                  (res, Some (tr\<lparr>tr_tls := the tls\<rparr>), w1))
          else (case tcp_client_write_simple (tr_tcp tr) bs w of (n, w1) \<Rightarrow> (n, t, w1)))"

definition transport_finish_connect ::
  "'s mbedtls \<Rightarrow> 's Transport option \<Rightarrow> world \<Rightarrow>
     int \<times> 's Transport option \<times> world" where
  "transport_finish_connect mb t w =
     (case t of
        None \<Rightarrow> (ERR_INVALID_ARG, t, w)
      | Some tr \<Rightarrow>
          if \<not> tr_use_tls tr
          then
            (if tr_use_blocking tr then (SUCCESS, t, w)
             else (case tcp_client_finish_connect (tcp_fd (tr_tcp tr)) w of (r, w1) \<Rightarrow> (r, t, w1)))
          else
            (case
               (if tr_use_blocking tr then (SUCCESS, tr, w)
                else
                  (case tcp_client_finish_connect (tcp_fd (tr_tcp tr)) w of (cres, w1) \<Rightarrow>
                     if cres \<noteq> SUCCESS then (cres, tr, w1)
                     else if \<not> tr_tls_initiated tr
                     then
                       (case tls_client_init mb (Some (tr_tls tr)) (tr_host tr)
                               (Some (transport_bio (tr_tcp tr))) w1 of (r, tls, w2) \<Rightarrow>
                          if r \<noteq> 0 then (ERR_IO, tr\<lparr>tr_tls := the tls\<rparr>, w2)
                          else (SUCCESS, tr\<lparr>tr_tls := the tls, tr_tls_initiated := True\<rparr>, w2))
                     else (SUCCESS, tr, w1)))
             of (pre, tr1, w3) \<Rightarrow>
               if pre \<noteq> SUCCESS then (pre, Some tr1, w3)
               else
                 (case tls_client_handshake_step mb (Some (tr_tls tr1)) w3 of (hs, tls, w4) \<Rightarrow>
                    (if hs = 0 then SUCCESS else if hs = ERR_IN_PROGRESS then ERR_IN_PROGRESS else ERR_IO,
                     Some (tr1\<lparr>tr_tls := the tls\<rparr>), w4))))"

definition transport_dispose ::
  "'s mbedtls \<Rightarrow> 's Transport option \<Rightarrow> world \<Rightarrow>
     's Transport option \<times> world" where
  "transport_dispose mb t w =
     (case t of
        None \<Rightarrow> (None, w)
      | Some tr \<Rightarrow>
          if tr_use_tls tr
          then
            (case tls_client_dispose mb (Some (tr_tls tr)) w of (tls, w1) \<Rightarrow>
             (case tcp_client_dispose (Some (tr_tcp tr)) w1 of (tcp, w2) \<Rightarrow>
                (Some (tr\<lparr>tr_tls := the tls, tr_tcp := the tcp\<rparr>), w2)))
          else
            (case tcp_client_dispose (Some (tr_tcp tr)) w of (tcp, w1) \<Rightarrow>
               (Some (tr\<lparr>tr_tcp := the tcp\<rparr>), w1)))"

end
