(* ===== verification/Time_Utils.thy ===== *)
theory Time_Utils imports World String_Utils begin

text \<open>
  \<^verbatim>\<open>utils/src/time_utils.c\<close>: the monotonic clock and sleeping.
\<close>

section \<open>Sleeping and the monotonic clock\<close>

definition ms_sleep :: "int \<Rightarrow> world \<Rightarrow> world" where
  "ms_sleep ms w = sys_nanosleep (ms div 1000) ((ms mod 1000) * 1000000) w"

definition SystemMonotonicMS :: "world \<Rightarrow> int \<times> world" where
  "SystemMonotonicMS w =
     (case sys_clock_gettime w of ((s, ns), w') \<Rightarrow>
        (c_size (c_size (c_size s * 1000) + c_div ns 1000000), w'))"

lemma monotonic_frame [simp]:
  "w_sched (snd (SystemMonotonicMS w)) = w_sched w" "w_delivered (snd (SystemMonotonicMS w)) = w_delivered w"
  "w_in (snd (SystemMonotonicMS w)) = w_in w" "w_out (snd (SystemMonotonicMS w)) = w_out w"
  "w_open (snd (SystemMonotonicMS w)) = w_open w" "w_alloc (snd (SystemMonotonicMS w)) = w_alloc w"
  "w_errno (snd (SystemMonotonicMS w)) = w_errno w" "w_send (snd (SystemMonotonicMS w)) = w_send w"
  by (auto simp: SystemMonotonicMS_def sys_clock_gettime_def split: list.splits prod.splits)

lemma ms_sleep_frame [simp]:
  "w_sched (ms_sleep ms w) = w_sched w" "w_delivered (ms_sleep ms w) = w_delivered w"
  "w_in (ms_sleep ms w) = w_in w" "w_open (ms_sleep ms w) = w_open w"
  by (simp_all add: ms_sleep_def sys_nanosleep_def)

end
