(* ===== verification/Scheduler.thy ===== *)
theory Scheduler imports Time_Utils begin

text \<open>
  \<^verbatim>\<open>modules/src/scheduler.c\<close>: the global task table, a field \<open>w_sched\<close> of the system state. Its
  length is \<^verbatim>\<open>SCHEDULER_MAX_TASKS\<close>, a macro a build may override, so the theorems hold for every
  length. A task pointer is the index of its slot; context and callback pointers are numbers (the
  address of a client, the identity of a function), NULL is \<open>None\<close>.

  \<open>scheduler_work\<close> is parametrised by what calling a callback does to the whole state, the task
  table included: callbacks create and destroy tasks while the loop runs over the table.
\<close>

definition idle_task :: Scheduler_Task where
  "idle_task = \<lparr>st_context = None, st_callback = None\<rparr>"

definition task_free :: "Scheduler_Task \<Rightarrow> bool" where
  "task_free t \<longleftrightarrow> st_context t = None \<and> st_callback t = None"

definition task_live :: "Scheduler_Task \<Rightarrow> bool" where
  "task_live t \<longleftrightarrow> st_callback t \<noteq> None"

definition scheduler_init :: "world \<Rightarrow> int \<times> world" where
  "scheduler_init w = (0, w\<lparr>w_sched := replicate (length (w_sched w)) idle_task\<rparr>)"

definition scheduler_create_task ::
  "nat option \<Rightarrow> nat option \<Rightarrow> world \<Rightarrow> nat option \<times> world" where
  "scheduler_create_task ctx cb w =
     (case find (\<lambda>i. task_free (w_sched w ! i)) [0..<length (w_sched w)] of
        Some i \<Rightarrow>
          (Some i, w\<lparr>w_sched := (w_sched w)[i := \<lparr>st_context = ctx, st_callback = cb\<rparr>]\<rparr>)
      | None \<Rightarrow> (None, w))"

definition scheduler_destroy_task :: "nat option \<Rightarrow> world \<Rightarrow> world" where
  "scheduler_destroy_task task w =
     (case task of
        None \<Rightarrow> w
      | Some p \<Rightarrow>
          (case find (\<lambda>i. i = p) [0..<length (w_sched w)] of
             Some i \<Rightarrow> w\<lparr>w_sched := (w_sched w)[i := idle_task]\<rparr>
           | None \<Rightarrow> w))"

definition MIN_LOOP_MS :: int where "MIN_LOOP_MS = 1"

text \<open>One round of the loop for slot \<open>i\<close>; \<open>h\<close> is the memory the callbacks work on.\<close>

type_synonym 'h callbacks = "nat \<Rightarrow> nat option \<Rightarrow> int \<Rightarrow> 'h \<times> world \<Rightarrow> ('h \<times> world) out"

definition scheduler_slot :: "'h callbacks \<Rightarrow> int \<Rightarrow> nat \<Rightarrow> 'h \<times> world \<Rightarrow> ('h \<times> world) out" where
  "scheduler_slot run montime i hw =
     (case hw of (h, w) \<Rightarrow>
        (case st_callback (w_sched w ! i) of
           None \<Rightarrow> ret (h, w)
         | Some cb \<Rightarrow>
             (case SystemMonotonicMS w of (start, w1) \<Rightarrow>
              out_bind (run cb (st_context (w_sched w1 ! i)) montime (h, w1)) (\<lambda>(h2, w2).
              (case SystemMonotonicMS w2 of (fin, w3) \<Rightarrow>
                 (let elapsed = c_size (fin - start) in
                  if elapsed < MIN_LOOP_MS then ret (h2, ms_sleep (c_size (MIN_LOOP_MS - elapsed)) w3)
                  else ret (h2, w3)))))))"

fun scheduler_slots :: "'h callbacks \<Rightarrow> int \<Rightarrow> nat list \<Rightarrow> 'h \<times> world \<Rightarrow> ('h \<times> world) out" where
  "scheduler_slots run montime [] hw = ret hw"
| "scheduler_slots run montime (i # is) hw =
     out_bind (scheduler_slot run montime i hw) (scheduler_slots run montime is)"

definition scheduler_work :: "'h callbacks \<Rightarrow> int \<Rightarrow> 'h \<times> world \<Rightarrow> ('h \<times> world) out" where
  "scheduler_work run montime hw = scheduler_slots run montime [0..<length (w_sched (snd hw))] hw"

definition scheduler_get_task_count :: "world \<Rightarrow> int" where
  "scheduler_get_task_count w = foldl (\<lambda>n t. if task_live t then n + 1 else n) 0 (w_sched w)"

definition scheduler_dispose :: "world \<Rightarrow> world" where
  "scheduler_dispose w = w\<lparr>w_sched := replicate (length (w_sched w)) idle_task\<rparr>"

section \<open>The live tasks\<close>

definition live_tasks :: "world \<Rightarrow> Scheduler_Task list" where
  "live_tasks w = filter task_live (w_sched w)"

text \<open>The invariant of the table: a slot without a callback is wholly free.\<close>

definition sched_wf :: "world \<Rightarrow> bool" where
  "sched_wf w \<longleftrightarrow> (\<forall>t \<in> set (w_sched w). task_live t \<or> task_free t)"

lemma idle_task_free [simp]: "task_free idle_task" "\<not> task_live idle_task"
  by (simp_all add: idle_task_def task_free_def task_live_def)

lemma task_free_idle: "task_free t \<Longrightarrow> t = idle_task"
  by (simp add: task_free_def idle_task_def)

lemma count_fold:
  "foldl (\<lambda>n t. if task_live t then n + 1 else n) k ts = k + int (length (filter task_live ts))"
  by (induction ts arbitrary: k) auto

lemma task_count_live: "scheduler_get_task_count w = int (length (live_tasks w))"
  by (simp add: scheduler_get_task_count_def live_tasks_def count_fold)

lemma create_task_cases:
  obtains i where "scheduler_create_task ctx cb w =
      (Some i, w\<lparr>w_sched := (w_sched w)[i := \<lparr>st_context = ctx, st_callback = cb\<rparr>]\<rparr>)"
    "i < length (w_sched w)" "task_free (w_sched w ! i)" "\<forall>j<i. \<not> task_free (w_sched w ! j)"
  | "scheduler_create_task ctx cb w = (None, w)" "\<forall>j<length (w_sched w). \<not> task_free (w_sched w ! j)"
proof (cases "find (\<lambda>i. task_free (w_sched w ! i)) [0..<length (w_sched w)]")
  case None
  then have "scheduler_create_task ctx cb w = (None, w)" by (simp add: scheduler_create_task_def)
  with None that(2) show ?thesis by (auto simp: find_upt_None_iff)
next
  case (Some i)
  then have "scheduler_create_task ctx cb w =
      (Some i, w\<lparr>w_sched := (w_sched w)[i := \<lparr>st_context = ctx, st_callback = cb\<rparr>]\<rparr>)"
    by (simp add: scheduler_create_task_def)
  moreover from Some have "i < length (w_sched w)" "task_free (w_sched w ! i)"
      "\<forall>j<i. \<not> task_free (w_sched w ! j)"
    by (auto simp: find_upt_Some_iff)
  ultimately show ?thesis by (rule that(1))
qed

lemma destroy_task_simp:
  "scheduler_destroy_task (Some p) w =
     (if p < length (w_sched w) then w\<lparr>w_sched := (w_sched w)[p := idle_task]\<rparr> else w)"
proof (cases "p < length (w_sched w)")
  case True
  then have "find (\<lambda>i. i = p) [0..<length (w_sched w)] = Some p" by (auto simp: find_upt_Some_iff)
  with True show ?thesis by (simp add: scheduler_destroy_task_def)
next
  case False
  then have "find (\<lambda>i. i = p) [0..<length (w_sched w)] = None" by (auto simp: find_upt_None_iff)
  with False show ?thesis by (simp add: scheduler_destroy_task_def)
qed

lemma filter_update_length:
  assumes "i < length xs"
  shows "int (length (filter P (xs[i := x]))) =
     int (length (filter P xs)) - of_bool (P (xs ! i)) + of_bool (P x)"
  using assms
proof (induction xs arbitrary: i)
  case (Cons y ys)
  then show ?case by (cases i) auto
qed simp

lemma sched_wf_update:
  "sched_wf w \<Longrightarrow> task_live t \<or> task_free t \<Longrightarrow> sched_wf (w\<lparr>w_sched := (w_sched w)[i := t]\<rparr>)"
  using set_update_subset_insert [of "w_sched w" i t] by (auto simp: sched_wf_def)

lemma scheduler_slot_live:
  assumes "st_callback (w_sched w ! i) = Some cb"
    and "run cb (st_context (w_sched w ! i)) montime (h, snd (SystemMonotonicMS w)) = ret (h2, w2)"
  shows "\<exists>w3. scheduler_slot run montime i (h, w) = ret (h2, w3) \<and> w_sched w3 = w_sched w2"
  using assms monotonic_frame(1) [of w] monotonic_frame(1) [of w2]
  by (auto simp: scheduler_slot_def Let_def split_beta)

section \<open>Tasks of a scheduler\<close>

text \<open>A task may count on \<open>J\<close> when it is called, keeps it, and returns; only the clock runs between the calls.\<close>

locale task_table =
  fixes run :: "'h callbacks"
    and J :: "'h \<Rightarrow> world \<Rightarrow> bool"
  assumes call: "J h w \<Longrightarrow> i < length (w_sched w) \<Longrightarrow> st_callback (w_sched w ! i) = Some cb \<Longrightarrow>
      \<exists>h' w'. run cb (st_context (w_sched w ! i)) t (h, w) = ret (h', w') \<and> J h' w' \<and> length (w_sched w') = length (w_sched w)"
    and clock: "J h w \<Longrightarrow> J h (snd (SystemMonotonicMS w))"
    and pause: "J h w \<Longrightarrow> J h (ms_sleep ms w)"
begin

lemma slot_keeps:
  assumes "J h w" "i < length (w_sched w)"
  shows "\<exists>h' w'. scheduler_slot run t i (h, w) = ret (h', w') \<and> J h' w' \<and> length (w_sched w') = length (w_sched w)"
proof (cases "st_callback (w_sched w ! i)")
  case None
  then show ?thesis using assms(1) by (simp add: scheduler_slot_def)
next
  case (Some cb)
  obtain start w1 where m: "SystemMonotonicMS w = (start, w1)" by (cases "SystemMonotonicMS w")
  note f = monotonic_frame [of w, unfolded m snd_conv]
  have "J h w1" using clock [OF assms(1)] m by simp
  from call [OF this, of i cb t] obtain h2 w2 where r: "run cb (st_context (w_sched w1 ! i)) t (h, w1) = ret (h2, w2)" "J h2 w2"
      "length (w_sched w2) = length (w_sched w1)"
    using assms(2) Some f(1) by auto
  obtain fin w3 where m3: "SystemMonotonicMS w2 = (fin, w3)" by (cases "SystemMonotonicMS w2")
  note f3 = monotonic_frame [of w2, unfolded m3 snd_conv]
  let ?e = "c_size (fin - start)"
  let ?w = "if ?e < MIN_LOOP_MS then ms_sleep (c_size (MIN_LOOP_MS - ?e)) w3 else w3"
  have "J h2 ?w" using clock [OF r(2)] pause [of h2 w3] m3 by simp
  moreover have "length (w_sched ?w) = length (w_sched w)" using r(3) f(1) f3(1) by simp
  moreover have "scheduler_slot run t i (h, w) = ret (h2, ?w)" using Some m r(1) m3 by (simp add: scheduler_slot_def Let_def)
  ultimately show ?thesis by blast
qed

lemma slots_keep:
  assumes "J h w" "\<forall>i \<in> set is. i < length (w_sched w)"
  shows "\<exists>h' w'. scheduler_slots run t is (h, w) = ret (h', w') \<and> J h' w' \<and> length (w_sched w') = length (w_sched w)"
  using assms
proof (induction "is" arbitrary: h w)
  case (Cons i "is")
  then obtain h1 w1 where "scheduler_slot run t i (h, w) = ret (h1, w1)" "J h1 w1" "length (w_sched w1) = length (w_sched w)"
    using slot_keeps [of h w i t] by auto
  then show ?case using Cons.IH [of h1 w1] Cons.prems(2) by auto
qed simp

lemma pass_keeps: "J h w \<Longrightarrow> \<exists>h' w'. scheduler_work run t (h, w) = ret (h', w') \<and> J h' w'"
  using slots_keep [of h w "[0..<length (w_sched w)]" t] by (auto simp: scheduler_work_def)

end

text \<open>A sequence of passes, at the times given.\<close>

fun passes :: "'h callbacks \<Rightarrow> int list \<Rightarrow> 'h \<times> world \<Rightarrow> ('h \<times> world) out" where
  "passes run [] hw = ret hw"
| "passes run (t # ts) hw = out_bind (scheduler_work run t hw) (passes run ts)"

context task_table
begin

lemma passes_keep: "J h w \<Longrightarrow> \<exists>h' w'. passes run ts (h, w) = ret (h', w') \<and> J h' w'"
proof (induction ts arbitrary: h w)
  case (Cons t ts)
  then obtain h1 w1 where "scheduler_work run t (h, w) = ret (h1, w1)" "J h1 w1" using pass_keeps by blast
  then show ?case using Cons.IH by simp
qed simp

end

section \<open>The calls of a pass\<close>

text \<open>The same callbacks, with a record of the calls kept beside their memory: function, context and time of each.\<close>

type_synonym calls = "(nat \<times> nat option \<times> int) list"

definition logged :: "'h callbacks \<Rightarrow> ('h \<times> calls) callbacks" where
  "logged run cb ctx t hw =
     (case hw of ((h, log), w) \<Rightarrow>
        out_bind (run cb ctx t (h, w)) (\<lambda>(h', w'). ret ((h', log @ [(cb, ctx, t)]), w')))"

text \<open>The calls that the tasks of a table ask for, in the order of the slots.\<close>

definition calls_of :: "int \<Rightarrow> Scheduler_Task list \<Rightarrow> calls" where
  "calls_of t ts = map (\<lambda>s. (the (st_callback s), st_context s, t)) (filter task_live ts)"

lemma calls_of_simps [simp]:
  "calls_of t [] = []"
  "calls_of t (s # ts) = (if task_live s then [(the (st_callback s), st_context s, t)] else []) @ calls_of t ts"
  by (simp_all add: calls_of_def)

lemma logged_slot:
  assumes "scheduler_slot run t i (h, w) = ret (h', w')"
  shows "scheduler_slot (logged run) t i ((h, log), w) = ret ((h', log @ calls_of t [w_sched w ! i]), w')"
proof (cases "st_callback (w_sched w ! i)")
  case None
  then show ?thesis using assms by (simp add: scheduler_slot_def task_live_def)
next
  case (Some cb)
  let ?c = "snd (SystemMonotonicMS w)"
  obtain h2 w2 where "run cb (st_context (w_sched w ! i)) t (h, ?c) = ret (h2, w2)"
    using assms Some by (auto simp: scheduler_slot_def out_bind_eq_ret split_beta)
  then show ?thesis using assms Some by (simp add: scheduler_slot_def logged_def task_live_def Let_def split_beta split: if_splits)
qed

text \<open>Tasks that may free their own slot and put new tasks into free slots, and leave the tasks of others in place.\<close>

locale task_order = task_table +
  assumes others: "J h w \<Longrightarrow> i < length (w_sched w) \<Longrightarrow> st_callback (w_sched w ! i) = Some cb \<Longrightarrow>
      run cb (st_context (w_sched w ! i)) t (h, w) = ret (h', w') \<Longrightarrow> j < length (w_sched w) \<Longrightarrow> j \<noteq> i \<Longrightarrow>
      task_live (w_sched w ! j) \<Longrightarrow> w_sched w' ! j = w_sched w ! j"
begin

lemma slot_others:
  assumes "J h w" "i < length (w_sched w)" "scheduler_slot run t i (h, w) = ret (h', w')"
    and "j < length (w_sched w)" "j \<noteq> i" "task_live (w_sched w ! j)"
  shows "w_sched w' ! j = w_sched w ! j"
proof (cases "st_callback (w_sched w ! i)")
  case None
  then show ?thesis using assms(3) by (simp add: scheduler_slot_def)
next
  case (Some cb)
  let ?c = "snd (SystemMonotonicMS w)"
  have J: "J h ?c" by (rule clock [OF assms(1)])
  obtain h2 w2 where r: "run cb (st_context (w_sched ?c ! i)) t (h, ?c) = ret (h2, w2)"
    using call [OF J, of i cb t] Some assms(2) by auto
  have "w_sched w2 ! j = w_sched w ! j"
    using others [OF J _ _ r, of j] Some assms by simp
  moreover have "w_sched w' = w_sched w2"
    using scheduler_slot_live [OF Some, of run t h h2 w2] r assms(3) by simp
  ultimately show ?thesis by simp
qed

lemma slots_calls:
  assumes "J h w" "\<forall>i \<in> set is. i < length (w_sched w)" "distinct is"
  shows "\<exists>h' w' met. scheduler_slots run t is (h, w) = ret (h', w') \<and>
     scheduler_slots (logged run) t is ((h, log), w) = ret ((h', log @ calls_of t (map met is)), w') \<and>
     (\<forall>j \<in> set is. task_live (w_sched w ! j) \<longrightarrow> met j = w_sched w ! j)"
  using assms
proof (induction "is" arbitrary: h w log)
  case (Cons i "is")
  obtain h1 w1 where s: "scheduler_slot run t i (h, w) = ret (h1, w1)" "J h1 w1" "length (w_sched w1) = length (w_sched w)"
    using slot_keeps [of h w i t] Cons.prems by auto
  note l = logged_slot [OF s(1), of log]
  obtain h' w' met where r: "scheduler_slots run t is (h1, w1) = ret (h', w')"
      "scheduler_slots (logged run) t is ((h1, log @ calls_of t [w_sched w ! i]), w1) =
         ret ((h', (log @ calls_of t [w_sched w ! i]) @ calls_of t (map met is)), w')"
      "\<forall>j \<in> set is. task_live (w_sched w1 ! j) \<longrightarrow> met j = w_sched w1 ! j"
    using Cons.IH [OF s(2), of "log @ calls_of t [w_sched w ! i]"] Cons.prems s(3) by auto
  let ?m = "met(i := w_sched w ! i)"
  have m: "map ?m is = map met is" using Cons.prems(3) by (auto intro: map_cong)
  have "met j = w_sched w ! j" if "j \<in> set is" "task_live (w_sched w ! j)" for j
  proof -
    have "j \<noteq> i" using that(1) Cons.prems(3) by auto
    then have "w_sched w1 ! j = w_sched w ! j"
      using slot_others [OF Cons.prems(1) _ s(1), of j] that Cons.prems(2) by simp
    then show ?thesis using r(3) that by simp
  qed
  then have "\<forall>j \<in> set (i # is). task_live (w_sched w ! j) \<longrightarrow> ?m j = w_sched w ! j" by simp
  moreover have "scheduler_slots run t (i # is) (h, w) = ret (h', w')" using s(1) r(1) by simp
  moreover have "scheduler_slots (logged run) t (i # is) ((h, log), w) = ret ((h', log @ calls_of t (map ?m (i # is))), w')"
    using l r(2) by (simp add: m del: map_eq_conv)
  ultimately show ?case by blast
qed auto

lemma pass_calls:
  assumes "J h w"
  shows "\<exists>h' w' met. scheduler_work run t (h, w) = ret (h', w') \<and> J h' w' \<and> length met = length (w_sched w) \<and>
     scheduler_work (logged run) t ((h, []), w) = ret ((h', calls_of t met), w') \<and>
     (\<forall>j < length (w_sched w). task_live (w_sched w ! j) \<longrightarrow> met ! j = w_sched w ! j)"
proof -
  let ?is = "[0..<length (w_sched w)]"
  obtain h' w' met where r: "scheduler_slots run t ?is (h, w) = ret (h', w')"
      "scheduler_slots (logged run) t ?is ((h, []), w) = ret ((h', calls_of t (map met ?is)), w')"
      "\<forall>j < length (w_sched w). task_live (w_sched w ! j) \<longrightarrow> met j = w_sched w ! j"
    using slots_calls [OF assms, of ?is t "[]"] by auto
  moreover have "J h' w'" using pass_keeps [OF assms, of t] r(1) by (auto simp: scheduler_work_def)
  ultimately show ?thesis
    by (intro exI [of _ h'] exI [of _ w'] exI [of _ "map met ?is"]) (simp add: scheduler_work_def)
qed

end

section \<open>Properties\<close>

text \<open>Creating a task succeeds exactly when a slot is free; it then takes the first free slot, every
  other slot is untouched, the count of live tasks grows by one, and destroying the returned pointer
  gives the state before, slot for slot.\<close>

theorem scheduler_create_destroy:
  assumes "sched_wf w" "cb \<noteq> None"
  shows "case scheduler_create_task ctx cb w of
      (Some i, w') \<Rightarrow>
        i < length (w_sched w) \<and> w_sched w' = (w_sched w)[i := \<lparr>st_context = ctx, st_callback = cb\<rparr>] \<and>
        (\<forall>j<i. task_live (w_sched w ! j)) \<and> sched_wf w' \<and>
        scheduler_get_task_count w' = scheduler_get_task_count w + 1 \<and>
        scheduler_destroy_task (Some i) w' = w
    | (None, w') \<Rightarrow> w' = w \<and> scheduler_get_task_count w = int (length (w_sched w))"
proof (cases rule: create_task_cases [of ctx cb w])
  case (1 i)
  let ?t = "\<lparr>st_context = ctx, st_callback = cb\<rparr>"
  let ?w = "w\<lparr>w_sched := (w_sched w)[i := ?t]\<rparr>"
  have idle: "w_sched w ! i = idle_task" using 1(3) by (rule task_free_idle)
  have live: "task_live ?t" using assms(2) by (simp add: task_live_def)
  have "sched_wf ?w" using assms live by (intro sched_wf_update) auto
  moreover have "scheduler_get_task_count ?w = scheduler_get_task_count w + 1"
    using idle live filter_update_length [OF 1(2), of task_live ?t]
    by (simp add: task_count_live live_tasks_def)
  moreover have "scheduler_destroy_task (Some i) ?w = w"
    using 1(2) list_update_id [of "w_sched w" i] by (simp add: destroy_task_simp idle)
  moreover have "\<forall>j<i. task_live (w_sched w ! j)"
    using 1(2,4) assms(1) by (auto simp: sched_wf_def)
  ultimately show ?thesis using 1(1,2) by simp
next
  case 2
  have "\<forall>t \<in> set (w_sched w). task_live t"
    using 2(2) assms(1) by (metis in_set_conv_nth sched_wf_def)
  then have "filter task_live (w_sched w) = w_sched w" by (intro filter_True) auto
  then show ?thesis using 2(1) by (simp add: task_count_live live_tasks_def)
qed

theorem scheduler_create_destroy_witness:
  "case scheduler_create_task (Some 3) (Some 0) (world0 2) of
      (Some i, w') \<Rightarrow>
        i < 2 \<and> scheduler_get_task_count w' = scheduler_get_task_count (world0 2) + 1 \<and>
        scheduler_destroy_task (Some i) w' = world0 2
    | (None, w') \<Rightarrow> w' = world0 2 \<and> scheduler_get_task_count (world0 2) = 2"
proof -
  have "sched_wf (world0 2)" by (simp add: sched_wf_def world0_def task_free_def)
  from scheduler_create_destroy [OF this, of "Some 0" "Some 3"] show ?thesis
    by (simp add: world0_def split: prod.splits option.splits)
qed

text \<open>C19: One pass of the scheduler returns and has called every task that was in the table at its start exactly once,
  in the order of the slots, each with its own context and the time passed in; \<open>met\<close> is the table as the pass
  meets it, slot by slot, and the calls of the pass are those of its live slots. The callbacks may work on any
  memory, destroy their own task (as the callback of the HTTP client does, for which the theory \<open>HTTP_Clients\<close>
  discharges these conditions) and create tasks in free slots; a slot is called once whatever it holds, so a task created
  behind the pass waits for the next one. What is asked of the callbacks: they return, keep an
  invariant \<open>J\<close> of theirs, which the clock and the pauses of the loop keep too, and leave the tasks of the other slots in place.\<close>

theorem scheduler_work_order:
  assumes "J h w"
    and "\<And>h w i cb t. J h w \<Longrightarrow> i < length (w_sched w) \<Longrightarrow> st_callback (w_sched w ! i) = Some cb \<Longrightarrow>
      \<exists>h' w'. run cb (st_context (w_sched w ! i)) t (h, w) = ret (h', w') \<and> J h' w' \<and>
        length (w_sched w') = length (w_sched w) \<and>
        (\<forall>j < length (w_sched w). j \<noteq> i \<and> task_live (w_sched w ! j) \<longrightarrow> w_sched w' ! j = w_sched w ! j)"
    and "\<And>h w ms. J h w \<Longrightarrow> J h (snd (SystemMonotonicMS w)) \<and> J h (ms_sleep ms w)"
  shows "\<exists>h' w' met. scheduler_work run montime (h, w) = ret (h', w') \<and> J h' w' \<and> length met = length (w_sched w) \<and>
     scheduler_work (logged run) montime ((h, []), w) =
       ret ((h', map (\<lambda>t. (the (st_callback t), st_context t, montime)) (filter task_live met)), w') \<and>
     (\<forall>j < length (w_sched w). task_live (w_sched w ! j) \<longrightarrow> met ! j = w_sched w ! j)"
proof -
  have "task_order run J"
  proof (unfold_locales, goal_cases)
    case (1 h w i cb t)
    then show ?case using assms(2) [of h w i cb t] by blast
  next
    case (4 h w i cb t h' w' j)
    then show ?case using assms(2) [of h w i cb t] by auto
  qed (use assms(3) in blast)+
  from task_order.pass_calls [OF this assms(1), of montime] show ?thesis by (simp add: calls_of_def)
qed

text \<open>Two kinds of callbacks: the first destroys its own task, the slot that is its context; any other
  starts a new task.\<close>

definition turnover_run :: "nat list callbacks" where
  "turnover_run cb ctx t hw =
     (case hw of (h, w) \<Rightarrow>
        if cb = 1 then ret (cb # h, scheduler_destroy_task ctx w)
        else ret (cb # h, snd (scheduler_create_task (Some 9) (Some 3) w)))"

definition turnover_inv :: "world \<Rightarrow> bool" where
  "turnover_inv w \<longleftrightarrow> (\<forall>i < length (w_sched w). st_callback (w_sched w ! i) = Some 1 \<longrightarrow> st_context (w_sched w ! i) = Some i)"

lemma turnover_call:
  assumes "turnover_inv w" "i < length (w_sched w)" "st_callback (w_sched w ! i) = Some cb"
  shows "\<exists>h' w'. turnover_run cb (st_context (w_sched w ! i)) t (h, w) = ret (h', w') \<and> turnover_inv w' \<and>
     length (w_sched w') = length (w_sched w) \<and>
     (\<forall>j < length (w_sched w). j \<noteq> i \<and> task_live (w_sched w ! j) \<longrightarrow> w_sched w' ! j = w_sched w ! j)"
proof (cases "cb = 1")
  case True
  then have "st_context (w_sched w ! i) = Some i" using assms by (simp add: turnover_inv_def)
  then show ?thesis
    using True assms(1,2) by (simp add: turnover_run_def destroy_task_simp turnover_inv_def nth_list_update idle_task_def)
next
  case False
  show ?thesis
  proof (cases rule: create_task_cases [of "Some 9" "Some 3" w])
    case (1 k)
    have "k \<noteq> j" if "task_live (w_sched w ! j)" for j using 1(3) that by (auto simp: task_free_def task_live_def)
    then show ?thesis using False assms(1) 1(1) 1(2) by (auto simp: turnover_run_def turnover_inv_def nth_list_update split: if_splits)
  next
    case 2
    then show ?thesis using False assms(1) by (simp add: turnover_run_def)
  qed
qed

theorem scheduler_work_order_witness:
  "\<exists>h' w'. scheduler_work (logged turnover_run) 5 (([], []), (world0 1)\<lparr>w_sched :=
       [\<lparr>st_context = Some 0, st_callback = Some 1\<rparr>, \<lparr>st_context = Some 8, st_callback = Some 2\<rparr>]\<rparr>) =
      ret ((h', [(1, Some 0, 5), (2, Some 8, 5)]), w')"
proof -
  let ?ts = "[\<lparr>st_context = Some 0, st_callback = Some 1\<rparr>, \<lparr>st_context = Some 8, st_callback = Some 2\<rparr>]"
  let ?w = "(world0 1)\<lparr>w_sched := ?ts\<rparr>"
  let ?J = "\<lambda>h::nat list. turnover_inv"
  have J: "turnover_inv ?w" by (simp add: turnover_inv_def less_Suc_eq numeral_2_eq_2)
  have c: "turnover_inv w \<Longrightarrow> turnover_inv (snd (SystemMonotonicMS w)) \<and> turnover_inv (ms_sleep ms w)" for w ms
    by (simp add: turnover_inv_def)
  from scheduler_work_order [where J = ?J and run = turnover_run and montime = 5, OF J turnover_call c]
  obtain h' w' met where r: "length met = length (w_sched ?w)"
      "scheduler_work (logged turnover_run) 5 (([], []), ?w) =
         ret ((h', map (\<lambda>t. (the (st_callback t), st_context t, 5)) (filter task_live met)), w')"
      "\<forall>j < length (w_sched ?w). task_live (w_sched ?w ! j) \<longrightarrow> met ! j = w_sched ?w ! j"
    by blast
  have "met = ?ts" using r(1,3) by (intro nth_equalityI) (auto simp: less_Suc_eq task_live_def)
  then show ?thesis using r(2) by (simp add: task_live_def)
qed

end
