(* ===== verification/HTTP_Client.thy ===== *)
theory HTTP_Client imports Transport Scheduler begin

text \<open>
  \<^verbatim>\<open>modules/src/http_client.c\<close>: the state machine of a request, driven either by the scheduler
  (\<open>http_client_taskwork\<close>, one step per call) or by a loop (\<open>http_blocking_work\<close>).

  A client is a value of the record \<open>HTTP_Client\<close>. Its \<^verbatim>\<open>recv_buf\<close> points at its own \<^verbatim>\<open>resp_buf\<close> from
  initialisation to disposal in both constructors, so the two are one field here; the fields
  \<^verbatim>\<open>bytes_received\<close> and \<^verbatim>\<open>response_buffer\<close> are never used by the code and are left out. A heap block
  with its size field is a \<open>http_data\<close>; its contents are the first \<open>hd_size\<close> bytes of the block, and
  reading beyond the block is a fault. The success callback of a client is application code: calling
  it is recorded in \<open>w_delivered\<close> with the client's context and the bytes of the response.

  The state functions return the next state, the client and the system state; \<open>None\<close> is a call that
  never returns and \<open>fault f\<close> undefined behaviour.
\<close>

section \<open>Data\<close>

datatype HTTPClientState =
  HTTP_CLIENT_INITIALIZING | HTTP_CLIENT_CONNECTING | HTTP_CLIENT_WAITING_CONNECT
| HTTP_CLIENT_BUILDING_REQUEST | HTTP_CLIENT_SENDING_REQUEST | HTTP_CLIENT_READING_FIRSTLINE
| HTTP_CLIENT_READING_HEADERS | HTTP_CLIENT_DECIPHER_CHONKINESS | HTTP_CLIENT_READING_BODY_CHUNKED
| HTTP_CLIENT_READING_BODY | HTTP_CLIENT_RETURNING | HTTP_CLIENT_DISPOSING | HTTP_CLIENT_ERROR

record http_data =
  hd_addr :: "byte list option"
  hd_size :: int

record 's HTTP_Client =
  hc_url_parts :: URL_Parts
  hc_next_retry_at :: int
  hc_bytes_sent :: int
  hc_decoded_body_len :: int
  hc_task :: "nat option"
  hc_URL :: "cstring option"
  hc_req :: "HTTP_Request option"
  hc_resp :: "HTTP_Response option"
  hc_on_success :: bool
  hc_context :: nat
  hc_response_out :: "nat option"
  hc_request_buffer :: "byte list option"
  hc_decoded_body :: "byte list option"
  hc_recv_buf :: http_data
  hc_blocking_out :: "http_data option"
  hc_transport :: "'s Transport"
  hc_request_length :: int
  hc_retries :: int
  hc_content_length :: int
  hc_chunked :: int
  hc_chunk_remaining :: int
  hc_timeout_ms :: int
  hc_state :: HTTPClientState
  hc_method :: HTTPMethod
  hc_blocking_mode :: bool

type_synonym 's step = "(HTTPClientState \<times> 's HTTP_Client \<times> world) out"

definition empty_data :: http_data where
  "empty_data = \<lparr>hd_addr = None, hd_size = 0\<rparr>"

text \<open>\<^verbatim>\<open>calloc\<close>.\<close>

definition zero_client :: "'s mbedtls \<Rightarrow> 's HTTP_Client" where
  "zero_client mb = \<lparr>hc_url_parts = zero_url, hc_next_retry_at = 0, hc_bytes_sent = 0,
     hc_decoded_body_len = 0, hc_task = None, hc_URL = None, hc_req = None, hc_resp = None,
     hc_on_success = False, hc_context = 0, hc_response_out = None, hc_request_buffer = None,
     hc_decoded_body = None, hc_recv_buf = empty_data, hc_blocking_out = None,
     hc_transport = zero_transport mb, hc_request_length = 0, hc_retries = 0, hc_content_length = 0,
     hc_chunked = 0, hc_chunk_remaining = 0, hc_timeout_ms = 0, hc_state = HTTP_CLIENT_INITIALIZING,
     hc_method = HTTP_OPTIONS, hc_blocking_mode = False\<rparr>"

text \<open>The identity of \<open>http_client_taskwork\<close> in the task table.\<close>

definition HTTP_TASKWORK :: nat where "HTTP_TASKWORK = 0"

section \<open>Buffers\<close>

text \<open>The contents of a buffer, if its size field stays within the block.\<close>

definition buf_view :: "http_data \<Rightarrow> byte list res" where
  "buf_view d =
     (if 0 \<le> hd_size d \<and> hd_size d \<le> int (length (block_bytes (hd_addr d)))
      then Inr (take (nat (hd_size d)) (block_bytes (hd_addr d)))
      else Inl OutOfBounds)"

text \<open>Removing \<open>k\<close> bytes at the front: \<^verbatim>\<open>memmove\<close> when something is left, then the size shrinks.\<close>

definition buf_consume :: "int \<Rightarrow> http_data \<Rightarrow> http_data" where
  "buf_consume k d =
     (let n = nat (hd_size d - k); blk = block_bytes (hd_addr d) in
      d\<lparr>hd_addr := (if hd_size d > k then Some (take n (drop (nat k) blk) @ drop n blk) else hd_addr d),
        hd_size := hd_size d - k\<rparr>)"

definition client_append :: "byte list \<Rightarrow> 's HTTP_Client \<Rightarrow> world \<Rightarrow> (int \<times> 's HTTP_Client \<times> world) res" where
  "client_append bs c w =
     (case buffer_append (hd_addr (hc_recv_buf c)) (hd_size (hc_recv_buf c)) (Some bs) (w_alloc w) of
        Inl f \<Rightarrow> Inl f
      | Inr (r, blk, n, a) \<Rightarrow>
          Inr (r, c\<lparr>hc_recv_buf := \<lparr>hd_addr = blk, hd_size = n\<rparr>\<rparr>, w\<lparr>w_alloc := a\<rparr>))"

definition client_read ::
  "'s mbedtls \<Rightarrow> nat \<Rightarrow> 's HTTP_Client \<Rightarrow> world \<Rightarrow> int \<times> byte list \<times> 's HTTP_Client \<times> world" where
  "client_read mb len c w =
     (case transport_read mb (Some (hc_transport c)) len w of (n, bs, t, w1) \<Rightarrow>
        (n, bs, c\<lparr>hc_transport := the t\<rparr>, w1))"

text \<open>Reading more into the buffer and coming back to the state \<open>again\<close>.\<close>

definition client_fill :: "'s mbedtls \<Rightarrow> nat \<Rightarrow> HTTPClientState \<Rightarrow> 's HTTP_Client \<Rightarrow> world \<Rightarrow> 's step" where
  "client_fill mb len again c w =
     (case client_read mb len c w of (n, bs, c1, w1) \<Rightarrow>
        if n < 0
        then ret (if would_block (w_errno w1) then again else HTTP_CLIENT_ERROR, c1, w1)
        else if n = 0 then ret (HTTP_CLIENT_ERROR, c1, w1)
        else
          (case client_append bs c1 w1 of
             Inl f \<Rightarrow> fault f
           | Inr (r, c2, w2) \<Rightarrow> ret (if r < 0 then HTTP_CLIENT_ERROR else again, c2, w2)))"

section \<open>Connecting\<close>

definition http_client_worktask_connecting :: "'s mbedtls \<Rightarrow> 's HTTP_Client \<Rightarrow> world \<Rightarrow> 's step" where
  "http_client_worktask_connecting mb c w =
     (case http_parser_url (hc_URL c) (Some (hc_url_parts c)) of (r, u) \<Rightarrow>
        (let c1 = c\<lparr>hc_url_parts := the u\<rparr> in
         if r \<noteq> SUCCESS then ret (HTTP_CLIENT_ERROR, c1, w)
         else
           out_bind (transport_init mb (Some (hc_transport c1)) (Some (up_host (hc_url_parts c1)))
               (Some (up_port (hc_url_parts c1))) (Some (up_scheme (hc_url_parts c1)))
               (hc_timeout_ms c1) (hc_blocking_mode c1) w)
             (\<lambda>(result, t, w1).
                ret (if result = ERR_IN_PROGRESS then HTTP_CLIENT_WAITING_CONNECT
                     else if result \<noteq> SUCCESS then HTTP_CLIENT_ERROR
                     else HTTP_CLIENT_BUILDING_REQUEST,
                     c1\<lparr>hc_transport := the t\<rparr>, w1))))"

definition http_client_worktask_waiting_connect :: "'s mbedtls \<Rightarrow> 's HTTP_Client \<Rightarrow> world \<Rightarrow> 's step" where
  "http_client_worktask_waiting_connect mb c w =
     (case transport_finish_connect mb (Some (hc_transport c)) w of (res, t, w1) \<Rightarrow>
        (let c1 = c\<lparr>hc_transport := the t\<rparr> in
         if res = SUCCESS then ret (HTTP_CLIENT_BUILDING_REQUEST, c1\<lparr>hc_retries := 0\<rparr>, w1)
         else if w_errno w1 = EINPROGRESS \<or> w_errno w1 = EALREADY \<or> w_errno w1 = EAGAIN
         then
           (case SystemMonotonicMS w1 of (now, w2) \<Rightarrow>
              ret (HTTP_CLIENT_WAITING_CONNECT, c1\<lparr>hc_next_retry_at := c_size (now + 50)\<rparr>, w2))
         else ret (HTTP_CLIENT_ERROR, c1, w1)))"

section \<open>Building and sending the request\<close>

definition method_str :: "HTTPMethod \<Rightarrow> cstring" where
  "method_str m =
     (if m = HTTP_POST then ''POST'' else if m = HTTP_PUT then ''PUT''
      else if m = HTTP_DELETE then ''DELETE'' else ''GET'')"

definition request_head :: "cstring \<Rightarrow> cstring \<Rightarrow> cstring \<Rightarrow> nat option \<Rightarrow> cstring" where
  "request_head meth path host body_len =
     meth @ '' '' @ path @ '' HTTP/1.1'' @ CRLF @ ''Host: '' @ host @ CRLF @
     ''User-Agent: httpclient'' @ CRLF @ ''Connection: close'' @ CRLF @
     (case body_len of
        None \<Rightarrow> []
      | Some n \<Rightarrow> ''Content-Length: '' @ dec_str n @ CRLF @
          ''Content-Type: application/octet-stream'' @ CRLF) @ CRLF"

text \<open>\<^verbatim>\<open>snprintf(buf, n, ...)\<close> into a block of \<open>n\<close> bytes: cut to \<open>n - 1\<close> characters and terminated.\<close>

definition snprintf_block :: "nat \<Rightarrow> cstring \<Rightarrow> byte list" where
  "snprintf_block n s = take n (take (n - 1) s @ replicate (n - length s) NUL @ [NUL])"

definition http_client_worktask_build_request :: "'s HTTP_Client \<Rightarrow> world \<Rightarrow> 's step" where
  "http_client_worktask_build_request c w =
     (case hc_req c of
        None \<Rightarrow> fault NullDeref
      | Some req \<Rightarrow>
          (let meth = method_str (hc_method c);
               path = (if up_path (hc_url_parts c) \<noteq> [] then up_path (hc_url_parts c) else ''/'');
               host = up_host (hc_url_parts c);
               body_len = (if req_body req \<noteq> None \<and> req_body_len req > 0 then nat (req_body_len req) else 0);
               extra_space = (if body_len > 0 then 128 else 0);
               max_len = length host + length path + 256 + extra_space + body_len in
           (case w_malloc w of (ok, w1) \<Rightarrow>
              if \<not> ok then ret (HTTP_CLIENT_ERROR, c\<lparr>hc_request_buffer := None\<rparr>, w1)
              else
                (let hdr = request_head meth path host
                       (if body_len > 0 \<and> (hc_method c = HTTP_POST \<or> hc_method c = HTTP_PUT)
                        then Some body_len else None);
                     buf = snprintf_block max_len hdr; hdr_len = c_int (int (length hdr)) in
                 if hdr_len < 0 then ret (HTTP_CLIENT_ERROR, c\<lparr>hc_request_buffer := None\<rparr>, w1)
                 else if nat hdr_len + body_len > max_len
                 then ret (HTTP_CLIENT_ERROR, c\<lparr>hc_request_buffer := None\<rparr>, w1)
                 else if length (block_bytes (req_body req)) < body_len then fault OutOfBounds
                 else
                   (let buf1 = (if body_len > 0
                                then block_write buf (nat hdr_len) (take body_len (block_bytes (req_body req)))
                                else buf) in
                    ret (HTTP_CLIENT_SENDING_REQUEST,
                         c\<lparr>hc_request_buffer := Some buf1,
                           hc_request_length := c_int (hdr_len + int body_len), hc_bytes_sent := 0\<rparr>, w1))))))"

text \<open>\<^verbatim>\<open>retries\<close> is an \<^verbatim>\<open>int\<close> in the source and unbounded here: only a send that reports no byte and no error is counted without
  a limit, and 2^31 of them in a row on one client are out of reach.\<close>

definition http_client_worktask_send_request :: "'s mbedtls \<Rightarrow> 's HTTP_Client \<Rightarrow> world \<Rightarrow> 's step" where
  "http_client_worktask_send_request mb c w =
     (let buf = block_bytes (hc_request_buffer c);
          remaining = c_size (hc_request_length c - hc_bytes_sent c) in
      if int (length buf) < hc_bytes_sent c + remaining then fault OutOfBounds
      else
        (case transport_write mb (Some (hc_transport c))
                (take (nat remaining) (drop (nat (hc_bytes_sent c)) buf)) w of (written, t, w1) \<Rightarrow>
           (let c1 = c\<lparr>hc_transport := the t\<rparr> in
            if written > 0
            then
              (let c2 = c1\<lparr>hc_bytes_sent := c_size (hc_bytes_sent c1 + written)\<rparr> in
               if hc_bytes_sent c2 \<ge> c_size (hc_request_length c2)
               then ret (HTTP_CLIENT_READING_FIRSTLINE, c2\<lparr>hc_retries := 0\<rparr>, w1)
               else
                 (case SystemMonotonicMS w1 of (now, w2) \<Rightarrow>
                    ret (HTTP_CLIENT_SENDING_REQUEST, c2\<lparr>hc_next_retry_at := c_size (now + 100)\<rparr>, w2)))
            else if written = 0
            then
              (case SystemMonotonicMS w1 of (now, w2) \<Rightarrow>
                 ret (HTTP_CLIENT_SENDING_REQUEST,
                      c1\<lparr>hc_retries := hc_retries c1 + 1, hc_next_retry_at := c_size (now + 1000)\<rparr>, w2))
            else if would_block (w_errno w1)
            then
              (case SystemMonotonicMS w1 of (now, w2) \<Rightarrow>
                 ret (HTTP_CLIENT_SENDING_REQUEST, c1\<lparr>hc_next_retry_at := c_size (now + 100)\<rparr>, w2))
            else if hc_retries c1 < 3
            then
              (case SystemMonotonicMS w1 of (now, w2) \<Rightarrow>
                 ret (HTTP_CLIENT_SENDING_REQUEST,
                      c1\<lparr>hc_retries := hc_retries c1 + 1, hc_next_retry_at := c_size (now + 1000)\<rparr>, w2))
            else ret (HTTP_CLIENT_ERROR, c1, w1))))"

section \<open>Reading the status line and the headers\<close>

definition firstline_done :: "byte list \<Rightarrow> nat \<Rightarrow> 's HTTP_Client \<Rightarrow> world \<Rightarrow> 's step" where
  "firstline_done buf line_len c w =
     (case http_parser_response_firstline (Some buf) line_len (hc_resp c) (w_alloc w) of
        Inl f \<Rightarrow> fault f
      | Inr (r, resp, a) \<Rightarrow>
          (let c1 = c\<lparr>hc_resp := resp\<rparr>; w1 = w\<lparr>w_alloc := a\<rparr> in
           if r \<noteq> SUCCESS then ret (HTTP_CLIENT_ERROR, c1, w1)
           else ret (HTTP_CLIENT_READING_HEADERS,
                     c1\<lparr>hc_recv_buf := buf_consume (int line_len + 2) (hc_recv_buf c1)\<rparr>, w1)))"

definition firstline_scan :: "'s HTTP_Client \<Rightarrow> world \<Rightarrow> 's step" where
  "firstline_scan c w =
     (case buf_view (hc_recv_buf c) of
        Inl f \<Rightarrow> fault f
      | Inr buf \<Rightarrow>
          if buf = [] then ret (HTTP_CLIENT_READING_FIRSTLINE, c, w)
          else
            (let line_end = http_parser_find_line_end buf (length buf) in
             if line_end < 0
             then ret (if hd_size (hc_recv_buf c) \<ge> 1024 then HTTP_CLIENT_ERROR
                       else HTTP_CLIENT_READING_FIRSTLINE, c, w)
             else if line_end = 0 \<or> line_end \<ge> 1024 then ret (HTTP_CLIENT_ERROR, c, w)
             else firstline_done buf (nat line_end) c w))"

definition http_client_worktask_read_firstline :: "'s mbedtls \<Rightarrow> 's HTTP_Client \<Rightarrow> world \<Rightarrow> 's step" where
  "http_client_worktask_read_firstline mb c w =
     (case client_read mb 8095 c w of (n, bs, c1, w1) \<Rightarrow>
        if n < 0
        then ret (if would_block (w_errno w1) then HTTP_CLIENT_READING_FIRSTLINE else HTTP_CLIENT_ERROR, c1, w1)
        else if n = 0 then ret (HTTP_CLIENT_ERROR, c1, w1)
        else
          (case client_append bs c1 w1 of
             Inl f \<Rightarrow> fault f
           | Inr (r, c2, w2) \<Rightarrow>
               if r < 0 then ret (HTTP_CLIENT_ERROR, c2, w2) else firstline_scan c2 w2))"

text \<open>The decision after the header block: chunked, a body of known length, or nothing more to read.\<close>

definition body_state :: "HTTP_Key_Value linked_list option \<Rightarrow> 's HTTP_Client \<Rightarrow> (HTTPClientState \<times> 's HTTP_Client) out" where
  "body_state headers c =
     out_bind (http_parser_get_header_value headers (Some ''Transfer-Encoding'') True) (\<lambda>(r1, te).
       if r1 = SUCCESS \<and> te \<noteq> None \<and> strstr (the te) ''chunked'' \<noteq> None
       then ret (HTTP_CLIENT_DECIPHER_CHONKINESS, c)
       else
         out_bind (http_parser_get_header_value headers (Some ''Content-Length'') True) (\<lambda>(r2, cls).
           if r2 = SUCCESS \<and> cls \<noteq> None
           then
             (case parse_string_to_int cls True of
                Inl f \<Rightarrow> fault f
              | Inr (_, v) \<Rightarrow>
                  (let cl = (case v of None \<Rightarrow> 0 | Some n \<Rightarrow> n) in
                   if cl > 0
                   then
                     (let c1 = c\<lparr>hc_content_length := cl\<rparr> in
                      ret (if c_size (hd_size (hc_recv_buf c1)) \<ge> cl then HTTP_CLIENT_RETURNING
                           else HTTP_CLIENT_READING_BODY, c1))
                   else ret (HTTP_CLIENT_RETURNING, c)))
           else ret (HTTP_CLIENT_RETURNING, c)))"

definition headers_done :: "byte list \<Rightarrow> nat \<Rightarrow> 's HTTP_Client \<Rightarrow> world \<Rightarrow> 's step" where
  "headers_done buf parsed_len c w =
     (case hc_req c of
        None \<Rightarrow> fault NullDeref
      | Some req \<Rightarrow>
          out_bind (http_parser_headers (Some buf) parsed_len (Some (req_headers req)) (w_alloc w))
            (\<lambda>(r, headers, a).
               (let c1 = c\<lparr>hc_req := Some (req\<lparr>req_headers := headers\<rparr>)\<rparr>; w1 = w\<lparr>w_alloc := a\<rparr> in
                if r \<noteq> SUCCESS then ret (HTTP_CLIENT_ERROR, c1, w1)
                else
                  out_bind
                    (body_state headers
                       (c1\<lparr>hc_recv_buf := buf_consume (int parsed_len) (hc_recv_buf c1), hc_retries := 0\<rparr>))
                    (\<lambda>(st, c2). ret (st, c2, w1)))))"

definition http_client_worktask_read_headers :: "'s mbedtls \<Rightarrow> 's HTTP_Client \<Rightarrow> world \<Rightarrow> 's step" where
  "http_client_worktask_read_headers mb c w =
     (case buf_view (hc_recv_buf c) of
        Inl f \<Rightarrow> fault f
      | Inr buf \<Rightarrow>
          (let headers_end = http_parser_find_headers_end buf (length buf) in
           if hd_size (hc_recv_buf c) > 0 \<and> headers_end \<ge> 0
           then headers_done buf (nat headers_end + 4) c w
           else
             (case client_read mb 1023 c w of (n, bs, c1, w1) \<Rightarrow>
                if n < 0
                then ret (if would_block (w_errno w1) then HTTP_CLIENT_READING_HEADERS else HTTP_CLIENT_ERROR, c1, w1)
                else if n = 0
                then
                  (if headers_end \<ge> 0 then headers_done buf (nat headers_end + 4) c1 w1
                   else ret (HTTP_CLIENT_ERROR, c1, w1))
                else
                  (case client_append bs c1 w1 of
                     Inl f \<Rightarrow> fault f
                   | Inr (r, c2, w2) \<Rightarrow>
                       ret (if r < 0 then HTTP_CLIENT_ERROR else HTTP_CLIENT_READING_HEADERS, c2, w2)))))"

section \<open>Chunked bodies\<close>

definition hex_val :: "char \<Rightarrow> int option" where
  "hex_val c =
     (let k = char_code c in
      if 48 \<le> k \<and> k \<le> 57 then Some (k - 48)
      else if 97 \<le> k \<and> k \<le> 102 then Some (k - 87)
      else if 65 \<le> k \<and> k \<le> 70 then Some (k - 55)
      else None)"

definition hex_digits :: "cstring \<Rightarrow> cstring" where
  "hex_digits s = takeWhile (\<lambda>c. hex_val c \<noteq> None) s"

definition hex_number :: "cstring \<Rightarrow> int" where
  "hex_number ds = foldl (\<lambda>n c. 16 * n + the (hex_val c)) 0 ds"

text \<open>\<^verbatim>\<open>strtoull(s, &end, 16)\<close>: the value, or \<open>None\<close> when no number was read (\<open>end == s\<close>).\<close>

definition strtoull16 :: "cstring \<Rightarrow> int option" where
  "strtoull16 s =
     (let s1 = dropWhile isspace s;
          neg = (s1 \<noteq> [] \<and> hd s1 = CHR ''-'');
          s2 = (if s1 \<noteq> [] \<and> (hd s1 = CHR ''-'' \<or> hd s1 = CHR ''+'') then tl s1 else s1);
          s3 = (if take 2 s2 \<in> {''0x'', ''0X''} \<and> hex_digits (drop 2 s2) \<noteq> [] then drop 2 s2 else s2);
          ds = hex_digits s3
      in if ds = [] then None
         else if hex_number ds \<ge> 2 ^ 64 then Some (2 ^ 64 - 1)
         else Some (if neg then c_size (- hex_number ds) else hex_number ds))"

text \<open>How much of the line is the number: up to an extension or a blank.\<close>

definition chunk_parse_len :: "byte list \<Rightarrow> nat \<Rightarrow> nat" where
  "chunk_parse_len buf line_end =
     (case find (\<lambda>i. buf ! i = CHR '';'' \<or> buf ! i = SP \<or> buf ! i = TAB) [0..<line_end] of
        Some i \<Rightarrow> i
      | None \<Rightarrow> line_end)"

text \<open>The last chunk: the empty line or the trailers.\<close>

definition last_chunk :: "'s mbedtls \<Rightarrow> 's HTTP_Client \<Rightarrow> world \<Rightarrow> 's step" where
  "last_chunk mb c w =
     (case buf_view (hc_recv_buf c) of
        Inl f \<Rightarrow> fault f
      | Inr buf \<Rightarrow>
          if length buf \<ge> 2 \<and> buf ! 0 = CR \<and> buf ! 1 = LF
          then ret (HTTP_CLIENT_RETURNING, c\<lparr>hc_recv_buf := buf_consume 2 (hc_recv_buf c)\<rparr>, w)
          else
            (let trailing_end = http_parser_find_headers_end buf (length buf) in
             if trailing_end \<ge> 0
             then ret (HTTP_CLIENT_RETURNING,
                       c\<lparr>hc_recv_buf := buf_consume (trailing_end + 4) (hc_recv_buf c)\<rparr>, w)
             else client_fill mb 1023 HTTP_CLIENT_DECIPHER_CHONKINESS c w))"

definition http_client_worktask_decipher_chonkiness :: "'s mbedtls \<Rightarrow> 's HTTP_Client \<Rightarrow> world \<Rightarrow> 's step" where
  "http_client_worktask_decipher_chonkiness mb c w =
     (case buf_view (hc_recv_buf c) of
        Inl f \<Rightarrow> fault f
      | Inr buf \<Rightarrow>
          (let line_end = http_parser_find_line_end buf (length buf) in
           if line_end < 0 then client_fill mb 1023 HTTP_CLIENT_DECIPHER_CHONKINESS c w
           else
             (let parse_len = chunk_parse_len buf (nat line_end) in
              if parse_len = 0 then ret (HTTP_CLIENT_ERROR, c, w)
              else if parse_len \<ge> 48 then fault OutOfBounds
              else
                (case strtoull16 (c_str (take parse_len buf)) of
                   None \<Rightarrow> ret (HTTP_CLIENT_ERROR, c, w)
                 | Some val \<Rightarrow>
                     (let chunk_size = c_ssize val;
                          c1 = c\<lparr>hc_recv_buf := buf_consume (line_end + 2) (hc_recv_buf c)\<rparr> in
                      if chunk_size = 0 then last_chunk mb c1 w
                      else ret (HTTP_CLIENT_READING_BODY_CHUNKED,
                                c1\<lparr>hc_chunk_remaining := c_size (c_int chunk_size)\<rparr>, w))))))"

text \<open>The end of a chunk: its CR LF.\<close>

definition chunk_end :: "'s mbedtls \<Rightarrow> 's HTTP_Client \<Rightarrow> world \<Rightarrow> 's step" where
  "chunk_end mb c w =
     (case buf_view (hc_recv_buf c) of
        Inl f \<Rightarrow> fault f
      | Inr buf \<Rightarrow>
          if hd_size (hc_recv_buf c) < 2 then client_fill mb 1024 HTTP_CLIENT_READING_BODY_CHUNKED c w
          else if buf ! 0 \<noteq> CR \<or> buf ! 1 \<noteq> LF then ret (HTTP_CLIENT_ERROR, c, w)
          else ret (HTTP_CLIENT_DECIPHER_CHONKINESS, c\<lparr>hc_recv_buf := buf_consume 2 (hc_recv_buf c)\<rparr>, w))"

definition http_client_worktask_read_body_chunked :: "'s mbedtls \<Rightarrow> 's HTTP_Client \<Rightarrow> world \<Rightarrow> 's step" where
  "http_client_worktask_read_body_chunked mb c w =
     (let remaining = hc_chunk_remaining c in
      if hd_size (hc_recv_buf c) < c_ssize remaining
      then client_fill mb 1023 HTTP_CLIENT_READING_BODY_CHUNKED c w
      else
        (let old_len = hc_decoded_body_len c; new_len = c_size (old_len + remaining) in
         (case w_malloc w of (ok, w1) \<Rightarrow>
            if \<not> ok then ret (HTTP_CLIENT_ERROR, c, w1)
            else
              (let blk = block_realloc (nat (c_size (new_len + 1))) (hc_decoded_body c) in
               if int (length (block_bytes (hd_addr (hc_recv_buf c)))) < remaining \<or>
                  int (length blk) < old_len + remaining + 1
               then fault OutOfBounds
               else
                 (let data = take (nat remaining) (block_bytes (hd_addr (hc_recv_buf c)));
                      blk1 = (block_write blk (nat old_len) data)[nat new_len := NUL];
                      c1 = c\<lparr>hc_decoded_body := Some blk1, hc_decoded_body_len := new_len,
                             hc_recv_buf := buf_consume remaining (hc_recv_buf c), hc_chunk_remaining := 0\<rparr> in
                  chunk_end mb c1 w1)))))"

section \<open>Bodies of known length\<close>

definition body_check :: "'s HTTP_Client \<Rightarrow> world \<Rightarrow> 's step" where
  "body_check c w =
     (if hd_size (hc_recv_buf c) < hc_content_length c then ret (HTTP_CLIENT_READING_BODY, c, w)
      else ret (HTTP_CLIENT_RETURNING, c\<lparr>hc_retries := 0\<rparr>, w))"

definition http_client_worktask_read_body :: "'s mbedtls \<Rightarrow> 's HTTP_Client \<Rightarrow> world \<Rightarrow> 's step" where
  "http_client_worktask_read_body mb c w =
     (case client_read mb 1023 c w of (n, bs, c1, w1) \<Rightarrow>
        if n < 0
        then ret (if would_block (w_errno w1) then HTTP_CLIENT_READING_BODY else HTTP_CLIENT_ERROR, c1, w1)
        else if n = 0 \<and> hd_size (hc_recv_buf c1) < hc_content_length c1 then ret (HTTP_CLIENT_ERROR, c1, w1)
        else if n > 0
        then
          (case client_append bs c1 w1 of
             Inl f \<Rightarrow> fault f
           | Inr (r, c2, w2) \<Rightarrow>
               if r < 0 then ret (HTTP_CLIENT_ERROR, c2, w2) else body_check c2 w2)
        else body_check c1 w1)"

section \<open>Handing out the response\<close>

text \<open>What is handed out: the decoded body if there is one, else what is in the receive buffer.\<close>

definition response_source :: "'s HTTP_Client \<Rightarrow> byte list res" where
  "response_source c =
     (if hc_decoded_body c \<noteq> None \<and> hc_decoded_body_len c > 0
      then buf_view \<lparr>hd_addr = hc_decoded_body c, hd_size = hc_decoded_body_len c\<rparr>
      else buf_view (hc_recv_buf c))"

definition http_client_worktask_returning :: "'s HTTP_Client \<Rightarrow> world \<Rightarrow> 's step" where
  "http_client_worktask_returning c w =
     (if hc_blocking_mode c
      then
        (case hc_blocking_out c of
           None \<Rightarrow> ret (HTTP_CLIENT_ERROR, c, w)
         | Some out \<Rightarrow>
             (let c1 = (if hd_addr out \<noteq> None then c\<lparr>hc_blocking_out := Some empty_data\<rparr> else c) in
              (case w_malloc w of (ok, w1) \<Rightarrow>
                 if \<not> ok then ret (HTTP_CLIENT_ERROR, c1, w1)
                 else
                   (case response_source c1 of
                      Inl f \<Rightarrow> fault f
                    | Inr src \<Rightarrow>
                        ret (HTTP_CLIENT_DISPOSING,
                             c1\<lparr>hc_blocking_out := Some \<lparr>hd_addr = Some (src @ [NUL]), hd_size = int (length src)\<rparr>\<rparr>,
                             w1)))))
      else if \<not> hc_on_success c then ret (HTTP_CLIENT_ERROR, c, w)
      else
        (case w_malloc w of (ok, w1) \<Rightarrow>
           if \<not> ok then ret (HTTP_CLIENT_ERROR, c, w1)
           else
             (case response_source c of
                Inl f \<Rightarrow> fault f
              | Inr src \<Rightarrow>
                  ret (HTTP_CLIENT_DISPOSING, c,
                       w1\<lparr>w_delivered := w_delivered w1 @ [(hc_context c, src)]\<rparr>))))"

section \<open>Disposal\<close>

definition http_client_dispose :: "'s mbedtls \<Rightarrow> 's HTTP_Client option \<Rightarrow> world \<Rightarrow> ('s HTTP_Client option \<times> world) out" where
  "http_client_dispose mb client w =
     (case client of
        None \<Rightarrow> ret (None, w)
      | Some c \<Rightarrow>
          (let w1 = scheduler_destroy_task (hc_task c) w; c1 = c\<lparr>hc_task := None\<rparr> in
           (case transport_dispose mb (Some (hc_transport c1)) w1 of (t, w2) \<Rightarrow>
              (let c2 = c1\<lparr>hc_transport := the t, hc_URL := None\<rparr> in
               out_bind (http_parser_dispose (hc_req c2) (hc_resp c2)) (\<lambda>_.
                 (let c3 = c2\<lparr>hc_req := None, hc_resp := None, hc_request_buffer := None\<rparr>;
                      c4 = (if hc_decoded_body c3 \<noteq> None
                            then c3\<lparr>hc_decoded_body := None, hc_decoded_body_len := 0\<rparr> else c3);
                      c5 = (if hd_addr (hc_recv_buf c4) \<noteq> None
                            then c4\<lparr>hc_recv_buf := empty_data\<rparr> else c4) in
                  ret (Some c5, w2)))))))"

definition http_client_destroy :: "'s mbedtls \<Rightarrow> 's HTTP_Client option \<Rightarrow> world \<Rightarrow> world out" where
  "http_client_destroy mb client w =
     (case client of
        None \<Rightarrow> ret w
      | Some _ \<Rightarrow> out_bind (http_client_dispose mb client w) (\<lambda>(_, w1). ret w1))"

section \<open>The scheduler interface\<close>

text \<open>\<open>me\<close> is the address of the client, the context its task is created with.\<close>

definition http_client_initiate ::
  "nat \<Rightarrow> 's HTTP_Client option \<Rightarrow> cstring option \<Rightarrow> HTTPMethod \<Rightarrow> bool \<Rightarrow> nat \<Rightarrow> nat option \<Rightarrow> world \<Rightarrow>
     int \<times> 's HTTP_Client option \<times> world" where
  "http_client_initiate me client url meth on_success context response_out w =
     (case client of
        None \<Rightarrow> (ERR_INVALID_ARG, client, w)
      | Some c \<Rightarrow>
          (case w_malloc w of (ok, w1) \<Rightarrow>
             if \<not> ok then (ERR_NO_MEMORY, client, w1)
             else
               (case w_malloc w1 of (ok2, w2) \<Rightarrow>
                  if \<not> ok2 then (ERR_NO_MEMORY, client, w2)
                  else
                    (case scheduler_create_task (Some me) (Some HTTP_TASKWORK) w2 of (task, w3) \<Rightarrow>
                       if task = None then (ERR_BUSY, Some (c\<lparr>hc_task := task\<rparr>), w3)
                       else
                         (case strdup_ptr url (w_alloc w3) of (url_copy, a) \<Rightarrow>
                            (let w4 = w3\<lparr>w_alloc := a\<rparr> in
                             if url_copy = None
                             then (ERR_NO_MEMORY, Some (c\<lparr>hc_task := None\<rparr>), scheduler_destroy_task task w4)
                             else
                               (case SystemMonotonicMS w4 of (now, w5) \<Rightarrow>
                                  (0,
                                   Some (c\<lparr>hc_task := task, hc_on_success := on_success,
                                     hc_resp := Some zero_response, hc_req := Some zero_request,
                                     hc_URL := url_copy, hc_state := HTTP_CLIENT_CONNECTING,
                                     hc_request_length := 0, hc_bytes_sent := 0, hc_retries := 0,
                                     hc_next_retry_at := now, hc_url_parts := zero_url,
                                     hc_response_out := response_out, hc_context := context,
                                     hc_timeout_ms := 0, hc_decoded_body := None, hc_decoded_body_len := 0,
                                     hc_recv_buf := empty_data, hc_blocking_out := None,
                                     hc_blocking_mode := False, hc_content_length := 0,
                                     hc_chunk_remaining := 0, hc_chunked := -1\<rparr>), w5))))))))"

text \<open>The states whose work waits for \<open>next_retry_at\<close>.\<close>

definition set_state :: "'s step \<Rightarrow> ('s HTTP_Client option \<times> world) out" where
  "set_state r = out_bind r (\<lambda>(st, c, w). ret (Some (c\<lparr>hc_state := st\<rparr>), w))"

definition http_client_taskwork ::
  "'s mbedtls \<Rightarrow> 's HTTP_Client option \<Rightarrow> int \<Rightarrow> world \<Rightarrow> ('s HTTP_Client option \<times> world) out" where
  "http_client_taskwork mb client montime w0 =
     (case client of
        None \<Rightarrow> ret (None, w0)
      | Some c \<Rightarrow>
          (case SystemMonotonicMS w0 of (now, w) \<Rightarrow>
             (let due = (now \<ge> hc_next_retry_at c) in
              (case hc_state c of
                 HTTP_CLIENT_INITIALIZING \<Rightarrow> ret (client, w)
               | HTTP_CLIENT_CONNECTING \<Rightarrow>
                   if due then set_state (http_client_worktask_connecting mb c w) else ret (client, w)
               | HTTP_CLIENT_WAITING_CONNECT \<Rightarrow> set_state (http_client_worktask_waiting_connect mb c w)
               | HTTP_CLIENT_BUILDING_REQUEST \<Rightarrow> set_state (http_client_worktask_build_request c w)
               | HTTP_CLIENT_SENDING_REQUEST \<Rightarrow>
                   if due then set_state (http_client_worktask_send_request mb c w) else ret (client, w)
               | HTTP_CLIENT_READING_FIRSTLINE \<Rightarrow>
                   if due then set_state (http_client_worktask_read_firstline mb c w) else ret (client, w)
               | HTTP_CLIENT_READING_HEADERS \<Rightarrow>
                   if due then set_state (http_client_worktask_read_headers mb c w) else ret (client, w)
               | HTTP_CLIENT_DECIPHER_CHONKINESS \<Rightarrow> set_state (http_client_worktask_decipher_chonkiness mb c w)
               | HTTP_CLIENT_READING_BODY_CHUNKED \<Rightarrow> set_state (http_client_worktask_read_body_chunked mb c w)
               | HTTP_CLIENT_READING_BODY \<Rightarrow>
                   if due then set_state (http_client_worktask_read_body mb c w) else ret (client, w)
               | HTTP_CLIENT_RETURNING \<Rightarrow> set_state (http_client_worktask_returning c w)
               | HTTP_CLIENT_ERROR \<Rightarrow> ret (Some (c\<lparr>hc_state := HTTP_CLIENT_DISPOSING\<rparr>), w)
               | HTTP_CLIENT_DISPOSING \<Rightarrow> http_client_dispose mb client w))))"

section \<open>The blocking interface\<close>

text \<open>One round of the switch: \<open>None\<close> when the state is not one of the working states.\<close>

definition blocking_step :: "'s mbedtls \<Rightarrow> 's HTTP_Client \<Rightarrow> world \<Rightarrow> 's step option" where
  "blocking_step mb c w =
     (case hc_state c of
        HTTP_CLIENT_CONNECTING \<Rightarrow> Some (http_client_worktask_connecting mb c w)
      | HTTP_CLIENT_BUILDING_REQUEST \<Rightarrow> Some (http_client_worktask_build_request c w)
      | HTTP_CLIENT_SENDING_REQUEST \<Rightarrow> Some (http_client_worktask_send_request mb c w)
      | HTTP_CLIENT_READING_FIRSTLINE \<Rightarrow> Some (http_client_worktask_read_firstline mb c w)
      | HTTP_CLIENT_READING_HEADERS \<Rightarrow> Some (http_client_worktask_read_headers mb c w)
      | HTTP_CLIENT_DECIPHER_CHONKINESS \<Rightarrow> Some (http_client_worktask_decipher_chonkiness mb c w)
      | HTTP_CLIENT_READING_BODY_CHUNKED \<Rightarrow> Some (http_client_worktask_read_body_chunked mb c w)
      | HTTP_CLIENT_READING_BODY \<Rightarrow> Some (http_client_worktask_read_body mb c w)
      | HTTP_CLIENT_RETURNING \<Rightarrow> Some (http_client_worktask_returning c w)
      | _ \<Rightarrow> None)"

text \<open>Leaving the loop: destroy the client and return the code with what is in the caller's buffer.\<close>

definition blocking_exit :: "'s mbedtls \<Rightarrow> int \<Rightarrow> 's HTTP_Client \<Rightarrow> world \<Rightarrow> (int \<times> http_data option \<times> world) out" where
  "blocking_exit mb code c w =
     out_bind (http_client_destroy mb (Some c) w) (\<lambda>w1. ret (code, hc_blocking_out c, w1))"

definition timed_out :: "int \<Rightarrow> int \<Rightarrow> int \<Rightarrow> bool" where
  "timed_out timeout_ms start now \<longleftrightarrow> timeout_ms > 0 \<and> c_size (c_int now - start) > timeout_ms"

partial_function (option) blocking_loop ::
  "'s mbedtls \<Rightarrow> int \<Rightarrow> int \<Rightarrow> 's HTTP_Client \<Rightarrow> world \<Rightarrow> (int \<times> http_data option \<times> world) out" where
  "blocking_loop mb timeout_ms start c w0 =
     (case SystemMonotonicMS w0 of (now, w) \<Rightarrow>
        if timed_out timeout_ms start now then blocking_exit mb ERR_TIMEOUT c w
        else
          (case blocking_step mb c w of
             None \<Rightarrow>
               blocking_exit mb (if hc_state c = HTTP_CLIENT_DISPOSING then SUCCESS else ERR_IO) c w
           | Some r \<Rightarrow>
               (case r of
                  None \<Rightarrow> None
                | Some (Inl f) \<Rightarrow> fault f
                | Some (Inr (st, c1, w1)) \<Rightarrow>
                    blocking_loop mb timeout_ms start (c1\<lparr>hc_state := st\<rparr>) w1)))"

declare blocking_loop.simps [code]

definition blocking_start :: "'s mbedtls \<Rightarrow> int \<Rightarrow> 's HTTP_Client \<Rightarrow> world \<Rightarrow> (int \<times> http_data option \<times> world) out" where
  "blocking_start mb timeout_ms c w =
     (case SystemMonotonicMS w of (start, w1) \<Rightarrow>
        blocking_loop mb timeout_ms start (c\<lparr>hc_state := HTTP_CLIENT_CONNECTING\<rparr>) w1)"

definition blocking_no_memory ::
  "'s mbedtls \<Rightarrow> http_data option \<Rightarrow> 's HTTP_Client \<Rightarrow> world \<Rightarrow> (int \<times> http_data option \<times> world) out" where
  "blocking_no_memory mb out_body c w =
     out_bind (http_client_destroy mb (Some c) w) (\<lambda>w1. ret (ERR_NO_MEMORY, out_body, w1))"

text \<open>The copy of the request body; its length goes into an \<^verbatim>\<open>int\<close>.\<close>

definition blocking_body ::
  "'s mbedtls \<Rightarrow> http_data option \<Rightarrow> http_data option \<Rightarrow> int \<Rightarrow> 's HTTP_Client \<Rightarrow> world \<Rightarrow>
     (int \<times> http_data option \<times> world) out" where
  "blocking_body mb in_body out_body timeout_ms c w =
     (case in_body of
        None \<Rightarrow> blocking_start mb timeout_ms c w
      | Some d \<Rightarrow>
          if hd_addr d = None \<or> hd_size d \<le> 0 then blocking_start mb timeout_ms c w
          else
            (case w_malloc w of (ok, w1) \<Rightarrow>
               if \<not> ok then blocking_no_memory mb out_body c w1
               else
                 (case buf_view d of
                    Inl f \<Rightarrow> fault f
                  | Inr bs \<Rightarrow>
                      blocking_start mb timeout_ms
                        (c\<lparr>hc_req := map_option (\<lambda>r. r\<lparr>req_body := Some bs, req_body_len := c_int (hd_size d)\<rparr>) (hc_req c)\<rparr>)
                        w1)))"

definition http_blocking_work ::
  "'s mbedtls \<Rightarrow> cstring option \<Rightarrow> HTTPMethod \<Rightarrow> http_data option \<Rightarrow> http_data option \<Rightarrow> int \<Rightarrow> world \<Rightarrow>
     (int \<times> http_data option \<times> world) out" where
  "http_blocking_work mb url meth in_body out_body timeout_ms w =
     (case w_malloc w of (ok, w1) \<Rightarrow>
        if \<not> ok then ret (ERR_NO_MEMORY, out_body, w1)
        else
          (case strdup_ptr url (w_alloc w1) of (u, a) \<Rightarrow>
           (case w_malloc (w1\<lparr>w_alloc := a\<rparr>) of (ok_req, w2) \<Rightarrow>
            (case w_malloc w2 of (ok_resp, w3) \<Rightarrow>
               (let c = (zero_client mb)\<lparr>hc_URL := u,
                          hc_req := (if ok_req then Some zero_request else None),
                          hc_resp := (if ok_resp then Some zero_response else None)\<rparr> in
                if u = None \<or> \<not> ok_req \<or> \<not> ok_resp then blocking_no_memory mb out_body c w3
                else
                  blocking_body mb in_body out_body timeout_ms
                    (c\<lparr>hc_recv_buf := empty_data, hc_decoded_body := None, hc_decoded_body_len := 0,
                       hc_content_length := 0, hc_chunk_remaining := 0, hc_chunked := -1,
                       hc_blocking_mode := True, hc_blocking_out := out_body,
                       hc_timeout_ms := timeout_ms, hc_method := meth\<rparr>) w3)))))"

definition http_blocking_get ::
  "'s mbedtls \<Rightarrow> cstring option \<Rightarrow> http_data option \<Rightarrow> int \<Rightarrow> world \<Rightarrow> (int \<times> http_data option \<times> world) out" where
  "http_blocking_get mb url out timeout_ms w =
     (if url = None \<or> out = None then ret (ERR_INVALID_ARG, out, w)
      else http_blocking_work mb url HTTP_GET None (Some empty_data) timeout_ms w)"

definition http_blocking_post ::
  "'s mbedtls \<Rightarrow> cstring option \<Rightarrow> http_data option \<Rightarrow> http_data option \<Rightarrow> int \<Rightarrow> world \<Rightarrow>
     (int \<times> http_data option \<times> world) out" where
  "http_blocking_post mb url inp out timeout_ms w =
     (case inp of
        None \<Rightarrow> ret (ERR_INVALID_ARG, out, w)
      | Some d \<Rightarrow>
          if url = None \<or> hd_size d < 0 then ret (ERR_INVALID_ARG, out, w)
          else http_blocking_work mb url HTTP_POST (Some d) (map_option (\<lambda>_. empty_data) out) timeout_ms w)"

end
