(* ===== verification/HTTP_Stream.thy ===== *)
theory HTTP_Stream imports HTTP_Client begin

text \<open>
  Facts about the HTTP client of \<^verbatim>\<open>modules/src/http_client.c\<close> that all its reading states share: its
  receive buffer, the contract it needs of a transport (locale \<open>byte_stream\<close>), the interpretation of
  that contract on plain TCP, the runs of the task function, and what is handed out at the end.
\<close>

section \<open>Facts: buffers\<close>

definition contents :: "http_data \<Rightarrow> byte list" where
  "contents d = block_contents (hd_addr d) (hd_size d)"

definition buf_ok :: "http_data \<Rightarrow> bool" where
  "buf_ok d \<longleftrightarrow> block_inv (hd_addr d) (hd_size d)"

lemma contents_length: "buf_ok d \<Longrightarrow> int (length (contents d)) = hd_size d"
  by (simp add: contents_def buf_ok_def block_contents_length)

lemma contents_empty [simp]: "contents empty_data = []" "buf_ok empty_data"
  by (simp_all add: contents_def empty_data_def block_contents_def buf_ok_def block_inv_def block_bytes_def)

lemma buf_view_ok: "buf_ok d \<Longrightarrow> buf_view d = Inr (contents d)"
  by (auto simp: buf_view_def contents_def block_contents_def buf_ok_def block_inv_def)

lemma buf_consume_ok:
  assumes "buf_ok d" "0 \<le> k" "k \<le> hd_size d"
  shows "buf_ok (buf_consume k d)" "contents (buf_consume k d) = drop (nat k) (contents d)"
    "hd_size (buf_consume k d) = hd_size d - k"
proof -
  define n where "n = nat (hd_size d - k)"
  define blk where "blk = block_bytes (hd_addr d)"
  have sz: "hd_size d = int (n + nat k)" "n + nat k \<le> length blk"
    using assms by (auto simp: n_def blk_def buf_ok_def block_inv_def)
  have c: "contents (buf_consume k d) = drop (nat k) (contents d)"
  proof (cases "hd_size d > k")
    case True
    then have "block_bytes (hd_addr (buf_consume k d)) = take n (drop (nat k) blk) @ drop n blk"
      by (simp add: buf_consume_def n_def blk_def Let_def block_bytes_def)
    moreover have "nat (hd_size (buf_consume k d)) = n" by (simp add: buf_consume_def n_def Let_def)
    moreover have "length (take n (drop (nat k) blk)) = n" using sz by simp
    moreover have "contents d = take (n + nat k) blk"
      unfolding contents_def block_contents_def sz(1) blk_def by (simp only: nat_int)
    ultimately show ?thesis by (simp add: contents_def block_contents_def drop_take)
  next
    case False
    then have "n = 0" by (simp add: n_def)
    with sz have "contents d = take (nat k) blk" by (simp add: contents_def block_contents_def blk_def)
    moreover have "hd_size (buf_consume k d) = 0" using False assms(3) by (simp add: buf_consume_def Let_def)
    ultimately show ?thesis by (simp add: contents_def block_contents_def)
  qed
  then show "contents (buf_consume k d) = drop (nat k) (contents d)" .
  show "hd_size (buf_consume k d) = hd_size d - k" by (simp add: buf_consume_def Let_def)
  have "n \<le> length (block_bytes (hd_addr (buf_consume k d)))"
    using sz assms(3) by (auto simp: buf_consume_def Let_def n_def blk_def block_bytes_def)
  then show "buf_ok (buf_consume k d)"
    using assms by (auto simp: buf_ok_def block_inv_def n_def buf_consume_def Let_def)
qed

lemma client_append_granted:
  assumes "buf_ok (hc_recv_buf c)" "bs \<noteq> []" "length (contents (hc_recv_buf c)) + length bs < 2 ^ 31"
    and "malloc (w_alloc w) = (True, a)"
  shows "\<exists>d. client_append bs c w = Inr (int (length bs), c\<lparr>hc_recv_buf := d\<rparr>, w\<lparr>w_alloc := a\<rparr>) \<and>
     buf_ok d \<and> contents d = contents (hc_recv_buf c) @ bs"
proof -
  let ?d = "hc_recv_buf c"
  have inv: "block_inv (hd_addr ?d) (hd_size ?d)" using assms(1) by (simp add: buf_ok_def)
  have len: "hd_size ?d + int (length bs) < 2 ^ 31" "length bs < 2 ^ 32"
    using contents_length [OF assms(1)] assms(3) by simp_all
  obtain b where b: "buffer_append (hd_addr ?d) (hd_size ?d) (Some bs) (w_alloc w) =
        Inr (int (length bs), Some b, hd_size ?d + int (length bs), a)"
      "length b = nat (hd_size ?d) + length bs + 1"
      "block_contents (Some b) (hd_size ?d + int (length bs)) = block_contents (hd_addr ?d) (hd_size ?d) @ bs"
    using buffer_append_granted [OF inv assms(2) len(2) assms(4)] by blast
  have "0 \<le> hd_size ?d" using inv by (simp add: block_inv_def)
  with b len show ?thesis
    by (intro exI [of _ "\<lparr>hd_addr = Some b, hd_size = hd_size ?d + int (length bs)\<rparr>"])
      (auto simp: client_append_def contents_def buf_ok_def block_inv_def block_bytes_def)
qed

lemma client_append_refused:
  assumes "bs \<noteq> []" "malloc (w_alloc w) = (False, a)"
  shows "client_append bs c w = Inr (ERR_NO_MEMORY, c\<lparr>hc_recv_buf := hc_recv_buf c\<rparr>, w\<lparr>w_alloc := a\<rparr>)"
  using buffer_append_refused [OF assms] by (simp add: client_append_def)

section \<open>The interface to the transport\<close>

text \<open>Everything the client has received and not consumed, followed by what is still to come.\<close>

definition stream_of :: "('s Transport \<Rightarrow> world \<Rightarrow> byte list) \<Rightarrow> 's HTTP_Client \<Rightarrow> world \<Rightarrow> byte list" where
  "stream_of unread c w = contents (hc_recv_buf c) @ unread (hc_transport c) w"

definition client_ready ::
  "('s Transport \<Rightarrow> world \<Rightarrow> bool) \<Rightarrow> ('s Transport \<Rightarrow> world \<Rightarrow> byte list) \<Rightarrow> 's HTTP_Client \<Rightarrow> world \<Rightarrow> bool" where
  "client_ready up unread c w \<longleftrightarrow>
     up (hc_transport c) w \<and> buf_ok (hc_recv_buf c) \<and> length (stream_of unread c w) < 2 ^ 31"

text \<open>
  What the client relies on when it reads: \<open>up\<close> says that a transport is usable in a state, \<open>unread\<close>
  what its peer has still to deliver. A read fails and loses nothing, or reports the end of the
  stream, or returns a non-empty prefix of what is unread.
\<close>

locale byte_stream =
  fixes mb :: "'s mbedtls"
    and up :: "'s Transport \<Rightarrow> world \<Rightarrow> bool"
    and unread :: "'s Transport \<Rightarrow> world \<Rightarrow> byte list"
  assumes read_law: "up t w \<Longrightarrow> 0 < len \<Longrightarrow> transport_read mb (Some t) len w = (n, bs, t', w') \<Longrightarrow>
      \<exists>tr. t' = Some tr \<and> up tr w' \<and> w_alloc w' = w_alloc w \<and> w_delivered w' = w_delivered w \<and>
        (n < 0 \<and> unread tr w' = unread t w \<or>
         n = 0 \<and> unread t w = [] \<and> unread tr w' = [] \<or>
         0 < n \<and> n = int (length bs) \<and> length bs \<le> len \<and> unread t w = bs @ unread tr w')"
    and frame: "w_in w' = w_in w \<Longrightarrow> up t w' = up t w \<and> unread t w' = unread t w"
begin

abbreviation stream where "stream \<equiv> stream_of unread"

abbreviation ready where "ready \<equiv> client_ready up unread"

lemmas ready_def = client_ready_def [of up unread]
lemmas stream_def = stream_of_def [of unread]

lemma alloc_frame: "up t (w\<lparr>w_alloc := a\<rparr>) \<longleftrightarrow> up t w" "unread t (w\<lparr>w_alloc := a\<rparr>) = unread t w"
  using frame [of "w\<lparr>w_alloc := a\<rparr>" w t] by simp_all

lemma ready_frame: "w_in w' = w_in w \<Longrightarrow> ready c w' \<longleftrightarrow> ready c w"
  and stream_frame: "w_in w' = w_in w \<Longrightarrow> stream c w' = stream c w"
  using frame [of w' w "hc_transport c"] by (simp_all add: ready_def stream_def)

lemma client_read_cases:
  assumes "ready c w" "0 < len" "client_read mb len c w = (n, bs, c1, w1)"
  obtains t where "c1 = c\<lparr>hc_transport := t\<rparr>" "n < 0" "ready c1 w1" "stream c1 w1 = stream c w"
      "w_alloc w1 = w_alloc w" "w_delivered w1 = w_delivered w"
  | t where "c1 = c\<lparr>hc_transport := t\<rparr>" "n = 0" "ready c1 w1" "stream c1 w1 = stream c w"
      "stream c w = contents (hc_recv_buf c)" "w_alloc w1 = w_alloc w" "w_delivered w1 = w_delivered w"
  | t where "c1 = c\<lparr>hc_transport := t\<rparr>" "0 < n" "n = int (length bs)" "length bs \<le> len" "up t w1"
      "stream c w = contents (hc_recv_buf c) @ bs @ unread t w1"
      "w_alloc w1 = w_alloc w" "w_delivered w1 = w_delivered w"
proof -
  obtain t' where r: "transport_read mb (Some (hc_transport c)) len w = (n, bs, t', w1)"
      "c1 = c\<lparr>hc_transport := the t'\<rparr>"
    using assms(3) by (auto simp: client_read_def split: prod.splits)
  from read_law [OF _ assms(2) r(1)] assms(1) obtain tr where tr: "t' = Some tr" "up tr w1"
      "w_alloc w1 = w_alloc w" "w_delivered w1 = w_delivered w"
      "n < 0 \<and> unread tr w1 = unread (hc_transport c) w \<or>
       n = 0 \<and> unread (hc_transport c) w = [] \<and> unread tr w1 = [] \<or>
       0 < n \<and> n = int (length bs) \<and> length bs \<le> len \<and> unread (hc_transport c) w = bs @ unread tr w1"
    by (auto simp: ready_def)
  have c1: "c1 = c\<lparr>hc_transport := tr\<rparr>" using r(2) tr(1) by simp
  from tr(5) show thesis
  proof (elim disjE conjE)
    assume "n < 0" "unread tr w1 = unread (hc_transport c) w"
    then show thesis using that(1) [OF c1] tr(2-4) assms(1) c1 by (simp add: ready_def stream_def)
  next
    assume "n = 0" "unread (hc_transport c) w = []" "unread tr w1 = []"
    then show thesis using that(2) [OF c1] tr(2-4) assms(1) c1 by (simp add: ready_def stream_def)
  next
    assume "0 < n" "n = int (length bs)" "length bs \<le> len" "unread (hc_transport c) w = bs @ unread tr w1"
    then show thesis using that(3) [OF c1] tr(2-4) by (simp add: stream_def)
  qed
qed

lemma append_read:
  assumes "ready c w" "c1 = c\<lparr>hc_transport := t\<rparr>" "up t w1" "bs \<noteq> []"
    and "stream c w = contents (hc_recv_buf c) @ bs @ unread t w1" "malloc (w_alloc w1) = (True, a)"
  shows "\<exists>d. client_append bs c1 w1 = Inr (int (length bs), c1\<lparr>hc_recv_buf := d\<rparr>, w1\<lparr>w_alloc := a\<rparr>) \<and>
     contents d = contents (hc_recv_buf c) @ bs \<and>
     ready (c1\<lparr>hc_recv_buf := d\<rparr>) (w1\<lparr>w_alloc := a\<rparr>) \<and>
     stream (c1\<lparr>hc_recv_buf := d\<rparr>) (w1\<lparr>w_alloc := a\<rparr>) = stream c w"
proof -
  have "length (contents (hc_recv_buf c1)) + length bs < 2 ^ 31"
    using assms(1,2,5) by (simp add: ready_def)
  then obtain d where d: "client_append bs c1 w1 = Inr (int (length bs), c1\<lparr>hc_recv_buf := d\<rparr>, w1\<lparr>w_alloc := a\<rparr>)"
      "buf_ok d" "contents d = contents (hc_recv_buf c1) @ bs"
    using client_append_granted [OF _ assms(4) _ assms(6), of c1] assms(1,2) by (auto simp: ready_def)
  then show ?thesis
    using assms by (intro exI [of _ d]) (simp add: ready_def stream_def alloc_frame)
qed

text \<open>Filling the buffer loses nothing and invents nothing.\<close>

lemma client_fill_law:
  assumes "ready c w" "0 < len"
  shows "\<exists>st t d w'. client_fill mb len again c w = ret (st, c\<lparr>hc_transport := t, hc_recv_buf := d\<rparr>, w') \<and>
     w_delivered w' = w_delivered w \<and>
     (st = HTTP_CLIENT_ERROR \<or>
      st = again \<and> ready (c\<lparr>hc_transport := t, hc_recv_buf := d\<rparr>) w' \<and>
        stream (c\<lparr>hc_transport := t, hc_recv_buf := d\<rparr>) w' = stream c w)"
proof -
  obtain n bs c1 w1 where r: "client_read mb len c w = (n, bs, c1, w1)" by (metis prod_cases4)
  let ?G = "\<lambda>st t d w'. client_fill mb len again c w = ret (st, c\<lparr>hc_transport := t, hc_recv_buf := d\<rparr>, w') \<and>
     w_delivered w' = w_delivered w \<and>
     (st = HTTP_CLIENT_ERROR \<or>
      st = again \<and> ready (c\<lparr>hc_transport := t, hc_recv_buf := d\<rparr>) w' \<and>
        stream (c\<lparr>hc_transport := t, hc_recv_buf := d\<rparr>) w' = stream c w)"
  show ?thesis
  proof (rule client_read_cases [OF assms r])
    fix t assume *: "c1 = c\<lparr>hc_transport := t\<rparr>" "n < 0" "ready c1 w1" "stream c1 w1 = stream c w"
      "w_delivered w1 = w_delivered w"
    then have "?G (if would_block (w_errno w1) then again else HTTP_CLIENT_ERROR) t (hc_recv_buf c) w1"
      using r by (simp add: client_fill_def)
    then show ?thesis by blast
  next
    fix t assume *: "c1 = c\<lparr>hc_transport := t\<rparr>" "n = 0" "w_delivered w1 = w_delivered w"
    then have "?G HTTP_CLIENT_ERROR t (hc_recv_buf c) w1" using r by (simp add: client_fill_def)
    then show ?thesis by blast
  next
    fix t assume *: "c1 = c\<lparr>hc_transport := t\<rparr>" "0 < n" "n = int (length bs)" "up t w1"
      "stream c w = contents (hc_recv_buf c) @ bs @ unread t w1" "w_delivered w1 = w_delivered w"
    have ne: "bs \<noteq> []" using *(2,3) by auto
    obtain ok a where m: "malloc (w_alloc w1) = (ok, a)" by (cases "malloc (w_alloc w1)")
    show ?thesis
    proof (cases ok)
      case True
      with m have "malloc (w_alloc w1) = (True, a)" by simp
      from append_read [OF assms(1) *(1,4) ne *(5) this] obtain d where
        "client_append bs c1 w1 = Inr (int (length bs), c1\<lparr>hc_recv_buf := d\<rparr>, w1\<lparr>w_alloc := a\<rparr>)"
        "ready (c1\<lparr>hc_recv_buf := d\<rparr>) (w1\<lparr>w_alloc := a\<rparr>)"
        "stream (c1\<lparr>hc_recv_buf := d\<rparr>) (w1\<lparr>w_alloc := a\<rparr>) = stream c w" by blast
      then have "?G again t d (w1\<lparr>w_alloc := a\<rparr>)" using * r by (simp add: client_fill_def)
      then show ?thesis by blast
    next
      case False
      with m have "client_append bs c1 w1 = Inr (ERR_NO_MEMORY, c1\<lparr>hc_recv_buf := hc_recv_buf c1\<rparr>, w1\<lparr>w_alloc := a\<rparr>)"
        using client_append_refused [OF ne] by simp
      then have "?G HTTP_CLIENT_ERROR t (hc_recv_buf c) (w1\<lparr>w_alloc := a\<rparr>)"
        using * r by (simp add: client_fill_def err_codes)
      then show ?thesis by blast
    qed
  qed
qed

end

text \<open>What the steps of a body never change: whom the response is for.\<close>

definition same_job :: "'s HTTP_Client \<Rightarrow> 's HTTP_Client \<Rightarrow> bool" where
  "same_job c c' \<longleftrightarrow> hc_context c' = hc_context c \<and> hc_on_success c' = hc_on_success c \<and>
     hc_blocking_mode c' = hc_blocking_mode c \<and> hc_blocking_out c' = hc_blocking_out c"

section \<open>The plain transport is such a stream\<close>

definition plain_up :: "'s Transport \<Rightarrow> world \<Rightarrow> bool" where
  "plain_up t w \<longleftrightarrow> \<not> tr_use_tls t"

definition plain_unread :: "'s Transport \<Rightarrow> world \<Rightarrow> byte list" where
  "plain_unread t w = rx_bytes (w_in w (tcp_fd (tr_tcp t)))"

interpretation plain: byte_stream mb plain_up plain_unread for mb
proof (unfold_locales, goal_cases)
  case (1 t w len n bs t' w')
  then have r: "sys_recv (tcp_fd (tr_tcp t)) len w = (n, bs, w')" "t' = Some t"
    by (auto simp: transport_read_def plain_up_def tcp_client_read_simple_def split: prod.splits)
  show ?case
    using 1(1) r(2) sys_recv_frame [OF r(1)]
    by (rule_tac sys_recv_cases [OF r(1) 1(2)]) (auto simp: plain_up_def plain_unread_def)
next
  case (2 w' w t)
  then show ?case by (simp add: plain_up_def plain_unread_def)
qed

section \<open>Runs of the task\<close>

text \<open>Calls of the task function by the scheduler, as long as the request is neither failed nor done.\<close>

inductive task_run :: "'s mbedtls \<Rightarrow> 's HTTP_Client \<times> world \<Rightarrow> 's HTTP_Client \<times> world \<Rightarrow> bool" for mb where
  task_refl: "task_run mb s s"
| task_step: "task_run mb s (c, w) \<Longrightarrow> hc_state c \<notin> {HTTP_CLIENT_ERROR, HTTP_CLIENT_DISPOSING} \<Longrightarrow>
     http_client_taskwork mb (Some c) t w = ret (Some c', w') \<Longrightarrow> task_run mb s (c', w')"

text \<open>One call of the task: either nothing happens, or the work of the state is done and its result
  becomes the next state.\<close>

definition state_work :: "'s mbedtls \<Rightarrow> 's HTTP_Client \<Rightarrow> world \<Rightarrow> 's step" where
  "state_work mb c w =
     (case hc_state c of
        HTTP_CLIENT_CONNECTING \<Rightarrow> http_client_worktask_connecting mb c w
      | HTTP_CLIENT_WAITING_CONNECT \<Rightarrow> http_client_worktask_waiting_connect mb c w
      | HTTP_CLIENT_BUILDING_REQUEST \<Rightarrow> http_client_worktask_build_request c w
      | HTTP_CLIENT_SENDING_REQUEST \<Rightarrow> http_client_worktask_send_request mb c w
      | HTTP_CLIENT_READING_FIRSTLINE \<Rightarrow> http_client_worktask_read_firstline mb c w
      | HTTP_CLIENT_READING_HEADERS \<Rightarrow> http_client_worktask_read_headers mb c w
      | HTTP_CLIENT_DECIPHER_CHONKINESS \<Rightarrow> http_client_worktask_decipher_chonkiness mb c w
      | HTTP_CLIENT_READING_BODY_CHUNKED \<Rightarrow> http_client_worktask_read_body_chunked mb c w
      | HTTP_CLIENT_READING_BODY \<Rightarrow> http_client_worktask_read_body mb c w
      | HTTP_CLIENT_RETURNING \<Rightarrow> http_client_worktask_returning c w
      | st \<Rightarrow> ret (st, c, w))"

lemma taskwork_cases:
  assumes "http_client_taskwork mb (Some c) t w = ret (Some c', w')"
    and "hc_state c \<notin> {HTTP_CLIENT_ERROR, HTTP_CLIENT_DISPOSING}"
  obtains "c' = c" "w' = snd (SystemMonotonicMS w)"
  | st c1 where "state_work mb c (snd (SystemMonotonicMS w)) = ret (st, c1, w')" "c' = c1\<lparr>hc_state := st\<rparr>"
proof -
  obtain now w0 where m: "SystemMonotonicMS w = (now, w0)" by (cases "SystemMonotonicMS w")
  have "c' = c \<and> w' = w0 \<or> set_state (state_work mb c w0) = ret (Some c', w')"
    using assms m
    by (cases "hc_state c") (auto simp: http_client_taskwork_def state_work_def Let_def split: if_splits)
  then show thesis
  proof
    assume "c' = c \<and> w' = w0"
    then show thesis using that(1) m by simp
  next
    assume "set_state (state_work mb c w0) = ret (Some c', w')"
    then obtain st c1 where "state_work mb c w0 = ret (st, c1, w')" "c' = c1\<lparr>hc_state := st\<rparr>"
      by (auto simp: set_state_def out_bind_eq_ret)
    then show thesis using that(2) m by simp
  qed
qed

lemma monotonic_ready:
  "client_ready plain_up plain_unread c (snd (SystemMonotonicMS w)) = client_ready plain_up plain_unread c w"
  "stream_of plain_unread c (snd (SystemMonotonicMS w)) = stream_of plain_unread c w"
  by (rule plain.ready_frame, simp) (rule plain.stream_frame, simp)

lemma response_source_buffer:
  "hc_decoded_body c = None \<Longrightarrow> buf_ok (hc_recv_buf c) \<Longrightarrow> response_source c = Inr (contents (hc_recv_buf c))"
  by (simp add: response_source_def buf_view_ok)

lemma returning_delivers:
  assumes "response_source c = Inr body" "\<not> hc_blocking_mode c" "hc_on_success c"
  obtains w' where "http_client_worktask_returning c w = ret (HTTP_CLIENT_ERROR, c, w')"
      "w_delivered w' = w_delivered w" "fst (w_malloc w) = False"
  | w' where "http_client_worktask_returning c w = ret (HTTP_CLIENT_DISPOSING, c, w')"
      "w_delivered w' = w_delivered w @ [(hc_context c, body)]"
proof (cases "w_malloc w")
  case (Pair ok w1)
  then have d: "w_delivered w1 = w_delivered w" using w_malloc_frame(6) [of w] by simp
  show thesis
    using that assms Pair d by (cases ok) (auto simp: http_client_worktask_returning_def)
qed

text \<open>How a run may end: with the response delivered, or with nothing delivered yet.\<close>

definition job_state ::
  "('s HTTP_Client \<Rightarrow> world \<Rightarrow> bool) \<Rightarrow> byte list \<Rightarrow> 's HTTP_Client \<Rightarrow> world \<Rightarrow> 's HTTP_Client \<Rightarrow> world \<Rightarrow> bool" where
  "job_state I body c0 w0 c w \<longleftrightarrow> same_job c0 c \<and>
     (if hc_state c = HTTP_CLIENT_DISPOSING then w_delivered w = w_delivered w0 @ [(hc_context c0, body)]
      else w_delivered w = w_delivered w0 \<and> (hc_state c = HTTP_CLIENT_ERROR \<or> I c w))"

text \<open>An invariant that every unit of work keeps holds along every run, and no call of the task faults.\<close>

lemma task_run_invariant:
  assumes "task_run mb s s'" "s = (c0, w0)" "I c0 w0" "hc_state c0 \<notin> {HTTP_CLIENT_ERROR, HTTP_CLIENT_DISPOSING}"
    and clock: "\<And>c w. I c w \<Longrightarrow> I c (snd (SystemMonotonicMS w))"
    and work: "\<And>c w. I c w \<Longrightarrow> same_job c0 c \<Longrightarrow> hc_state c \<notin> {HTTP_CLIENT_ERROR, HTTP_CLIENT_DISPOSING} \<Longrightarrow>
       \<exists>st c' w'. state_work mb c w = ret (st, c', w') \<and> same_job c c' \<and>
         (st = HTTP_CLIENT_DISPOSING \<and> w_delivered w' = w_delivered w @ [(hc_context c, body)] \<or>
          st \<noteq> HTTP_CLIENT_DISPOSING \<and> w_delivered w' = w_delivered w \<and>
            (st = HTTP_CLIENT_ERROR \<or> I (c'\<lparr>hc_state := st\<rparr>) w'))"
  shows "job_state I body c0 w0 (fst s') (snd s')"
  using assms(1,2)
proof (induction rule: task_run.induct)
  case (task_refl s)
  then show ?case using assms(3,4) by (auto simp: job_state_def same_job_def)
next
  case (task_step s c w t c' w')
  have js: "job_state I body c0 w0 c w" using task_step.IH task_step.prems by simp
  then have j: "same_job c0 c" "w_delivered w = w_delivered w0" "I c w"
    using task_step.hyps(2) by (auto simp: job_state_def)
  let ?w = "snd (SystemMonotonicMS w)"
  have wd: "w_delivered ?w = w_delivered w" by simp
  show ?case
  proof (rule taskwork_cases [OF task_step.hyps(3,2)])
    assume "c' = c" "w' = ?w"
    then show ?thesis using js clock [OF j(3)] task_step.hyps(2) wd by (auto simp: job_state_def)
  next
    fix st c1 assume st: "state_work mb c ?w = ret (st, c1, w')" "c' = c1\<lparr>hc_state := st\<rparr>"
    from work [OF clock [OF j(3)] j(1) task_step.hyps(2)] st(1)
    have "same_job c c1" "st = HTTP_CLIENT_DISPOSING \<and> w_delivered w' = w_delivered ?w @ [(hc_context c, body)] \<or>
        st \<noteq> HTTP_CLIENT_DISPOSING \<and> w_delivered w' = w_delivered ?w \<and>
          (st = HTTP_CLIENT_ERROR \<or> I (c1\<lparr>hc_state := st\<rparr>) w')" by auto
    then show ?thesis using j st(2) wd by (auto simp: job_state_def same_job_def)
  qed
qed

text \<open>A call of the task returns if the work of its state does.\<close>

lemma taskwork_returns:
  assumes "state_work mb c (snd (SystemMonotonicMS w)) = ret (st, c1, w1)"
    and "hc_state c \<notin> {HTTP_CLIENT_ERROR, HTTP_CLIENT_DISPOSING}"
  shows "\<exists>c' w'. http_client_taskwork mb (Some c) t w = ret (Some c', w')"
proof -
  obtain now w0 where m: "SystemMonotonicMS w = (now, w0)" by (cases "SystemMonotonicMS w")
  have "set_state (state_work mb c w0) = ret (Some (c1\<lparr>hc_state := st\<rparr>), w1)" using assms(1) m by (simp add: set_state_def)
  then show ?thesis
    using assms(2) m
    by (cases "hc_state c") (auto simp: http_client_taskwork_def state_work_def Let_def)
qed

section \<open>Running the task\<close>

text \<open>Up to \<open>n\<close> calls of the task, stopping when the request has failed or is done.\<close>

fun task_iter :: "'s mbedtls \<Rightarrow> nat \<Rightarrow> 's HTTP_Client \<Rightarrow> world \<Rightarrow> ('s HTTP_Client \<times> world) option" where
  "task_iter mb 0 c w = Some (c, w)"
| "task_iter mb (Suc n) c w =
     (if hc_state c \<in> {HTTP_CLIENT_ERROR, HTTP_CLIENT_DISPOSING} then Some (c, w)
      else
        (case http_client_taskwork mb (Some c) 0 w of
           Some (Inr (Some c', w')) \<Rightarrow> task_iter mb n c' w'
         | _ \<Rightarrow> None))"

lemma task_iter_run:
  assumes "task_run mb s (c, w)" "task_iter mb n c w = Some (c', w')"
  shows "task_run mb s (c', w')"
  using assms
proof (induction n arbitrary: c w)
  case (Suc n)
  then show ?case
    using task_run.task_step [of mb s c w 0] by (fastforce split: if_splits option.splits sum.splits)
qed simp

end
