(* ===== verification/HTTP_Request.thy ===== *)
theory HTTP_Request imports HTTP_Stream begin

text \<open>
  The request of the client of \<^verbatim>\<open>modules/src/http_client.c\<close>: what \<^verbatim>\<open>http_client_worktask_build_request\<close>
  puts into its buffer, and what reaches the peer while \<^verbatim>\<open>http_client_worktask_send_request\<close> and the
  reading states run.
\<close>

section \<open>Building the request\<close>

lemma request_head_length:
  assumes "length path < 512" "length host < 128" "\<And>n. bl = Some n \<Longrightarrow> n < 10 ^ 10"
  shows "length (request_head (method_str m) path host bl) \<le> length path + length host + 75 + (if bl = None then 0 else 68)"
proof -
  have m: "length (method_str m) \<le> 6" by (auto simp: method_str_def)
  have d: "length (dec_str n) \<le> 10" if "bl = Some n" for n
    using dec_str_length [of n 9] assms(3) [OF that] by simp
  show ?thesis
  proof (cases bl)
    case None
    then show ?thesis using m by (simp add: request_head_def CRLF_def)
  next
    case (Some n)
    then show ?thesis using m d [OF Some] by (simp add: request_head_def CRLF_def)
  qed
qed

lemma snprintf_block_fits:
  assumes "length s < n"
  shows "length (snprintf_block n s) = n" "take (length s) (snprintf_block n s) = s"
  using assms by (simp_all add: snprintf_block_def)

text \<open>The body a request carries, and the length its head announces.\<close>

definition request_body :: "HTTP_Request \<Rightarrow> byte list" where
  "request_body req = (case req_body req of None \<Rightarrow> [] | Some b \<Rightarrow> take (nat (req_body_len req)) b)"

definition announced :: "HTTPMethod \<Rightarrow> byte list \<Rightarrow> nat option" where
  "announced m body = (if body \<noteq> [] \<and> (m = HTTP_POST \<or> m = HTTP_PUT) then Some (length body) else None)"

definition request_text :: "'s HTTP_Client \<Rightarrow> HTTP_Request \<Rightarrow> byte list" where
  "request_text c req =
     request_head (method_str (hc_method c))
       (if up_path (hc_url_parts c) \<noteq> [] then up_path (hc_url_parts c) else ''/'')
       (up_host (hc_url_parts c)) (announced (hc_method c) (request_body req)) @ request_body req"

definition request_ok :: "'s HTTP_Client \<Rightarrow> HTTP_Request \<Rightarrow> bool" where
  "request_ok c req \<longleftrightarrow> hc_req c = Some req \<and>
     length (up_host (hc_url_parts c)) < 128 \<and> length (up_path (hc_url_parts c)) < 512 \<and>
     (\<forall>b. req_body req = Some b \<longrightarrow> 0 \<le> req_body_len req \<and> req_body_len req \<le> int (length b)) \<and>
     length (request_body req) < 2 ^ 30"

lemma request_body_len:
  assumes "request_ok c req"
  shows "(if req_body req \<noteq> None \<and> req_body_len req > 0 then nat (req_body_len req) else 0) = length (request_body req)"
    "take (length (request_body req)) (block_bytes (req_body req)) = request_body req"
    "\<not> length (block_bytes (req_body req)) < length (request_body req)"
  using assms by (auto simp: request_ok_def request_body_def block_bytes_def split: option.splits)

lemma build_request_law:
  assumes "request_ok c req" "w_malloc w = (True, w1)"
  shows "\<exists>buf. http_client_worktask_build_request c w =
       ret (HTTP_CLIENT_SENDING_REQUEST,
         c\<lparr>hc_request_buffer := Some buf, hc_request_length := int (length (request_text c req)), hc_bytes_sent := 0\<rparr>, w1) \<and>
     length (request_text c req) \<le> length buf \<and> take (length (request_text c req)) buf = request_text c req"
proof -
  let ?path = "if up_path (hc_url_parts c) \<noteq> [] then up_path (hc_url_parts c) else ''/''"
  let ?host = "up_host (hc_url_parts c)" and ?body = "request_body req" and ?m = "hc_method c"
  let ?head = "request_head (method_str ?m) ?path ?host (announced ?m ?body)"
  define n where "n = length ?host + length ?path + 256 + (if length ?body > 0 then 128 else 0) + length ?body"
  have q: "hc_req c = Some req" using assms(1) by (simp add: request_ok_def)
  have ann: "(if length ?body > 0 \<and> (?m = HTTP_POST \<or> ?m = HTTP_PUT) then Some (length ?body) else None) = announced ?m ?body"
    by (simp add: announced_def)
  have hl: "length ?head \<le> length ?path + length ?host + 75 + (if announced ?m ?body = None then 0 else 68)"
    by (rule request_head_length) (use assms(1) in \<open>auto simp: request_ok_def announced_def split: if_splits\<close>)
  have an: "announced ?m ?body = None" if "length ?body = 0" using that by (simp add: announced_def)
  have fit: "length ?head + length ?body < n" using hl an by (auto simp: n_def split: if_splits)
  have b: "length ?body < 2 ^ 30" "length ?host < 128" "length ?path < 512" using assms(1) by (auto simp: request_ok_def)
  then have big: "length ?head + length ?body < 2 ^ 31" using hl by (auto split: if_splits)
  then have ci: "c_int (int (length ?head)) = int (length ?head)"
      "c_int (int (length ?head) + int (length ?body)) = int (length ?head) + int (length ?body)"
    by (simp_all add: c_conv)
  let ?buf = "snprintf_block n ?head"
  let ?buf1 = "if length ?body > 0 then block_write ?buf (length ?head) ?body else ?buf"
  have "http_client_worktask_build_request c w =
       ret (HTTP_CLIENT_SENDING_REQUEST,
         c\<lparr>hc_request_buffer := Some ?buf1, hc_request_length := int (length ?head + length ?body), hc_bytes_sent := 0\<rparr>, w1)"
    unfolding http_client_worktask_build_request_def q Let_def option.case request_body_len(1) [OF assms(1)]
      ann assms(2) prod.case n_def [symmetric] ci
    using fit request_body_len(2,3) [OF assms(1)] ci(2) by simp
  moreover have "length ?buf1 = n" "take (length ?head + length ?body) ?buf1 = ?head @ ?body"
    using fit snprintf_block_fits [of ?head n] by (auto simp: block_write_def take_add)
  moreover have "length (request_text c req) = length ?head + length ?body" by (simp add: request_text_def)
  ultimately show ?thesis using fit by (auto simp: request_text_def)
qed

text \<open>C15: Building a request. With the host and path sizes the URL parser guarantees and a body of the
  stated length, the request is never truncated and never refused for lack of space: the buffer holds
  the request line, the headers (with the exact Content-Length for POST and PUT) and the whole body, and
  the stored length is the length of that text; without memory the request fails.\<close>

theorem build_request_exact:
  assumes "request_ok c req" "w_malloc w = (ok, w1)"
  shows "(ok \<longrightarrow> (\<exists>buf. http_client_worktask_build_request c w =
         ret (HTTP_CLIENT_SENDING_REQUEST,
           c\<lparr>hc_request_buffer := Some buf, hc_request_length := int (length (request_text c req)), hc_bytes_sent := 0\<rparr>, w1) \<and>
         length (request_text c req) \<le> length buf \<and> take (length (request_text c req)) buf = request_text c req)) \<and>
     (\<not> ok \<longrightarrow> http_client_worktask_build_request c w = ret (HTTP_CLIENT_ERROR, c\<lparr>hc_request_buffer := None\<rparr>, w1))"
proof (cases ok)
  case True
  then show ?thesis using build_request_law [OF assms(1), of w w1] assms(2) by simp
next
  case False
  then show ?thesis using assms by (simp add: http_client_worktask_build_request_def request_ok_def Let_def)
qed

definition post_example :: "nat HTTP_Client" where
  "post_example = (zero_client mb_example)\<lparr>hc_method := HTTP_POST, hc_context := 7, hc_on_success := True,
     hc_url_parts := zero_url\<lparr>up_scheme := ''http'', up_host := ''h'', up_port := ''80'', up_path := ''/p''\<rparr>,
     hc_req := Some (zero_request\<lparr>req_body := Some ''hi'', req_body_len := 2\<rparr>)\<rparr>"

lemma post_example_ok: "request_ok post_example (zero_request\<lparr>req_body := Some ''hi'', req_body_len := 2\<rparr>)"
  by (simp add: request_ok_def post_example_def zero_client_def request_body_def)

lemma post_example_text:
  "request_text post_example (zero_request\<lparr>req_body := Some ''hi'', req_body_len := 2\<rparr>) =
     ''POST /p HTTP/1.1'' @ CRLF @ ''Host: h'' @ CRLF @ ''User-Agent: httpclient'' @ CRLF @ ''Connection: close'' @ CRLF @
     ''Content-Length: 2'' @ CRLF @ ''Content-Type: application/octet-stream'' @ CRLF @ CRLF @ ''hi''"
  by code_simp

theorem build_request_exact_witness:
  "\<exists>c' buf w'. http_client_worktask_build_request post_example (world0 0) =
         ret (HTTP_CLIENT_SENDING_REQUEST, c', w') \<and> hc_request_buffer c' = Some buf \<and>
     take (nat (hc_request_length c')) buf =
     ''POST /p HTTP/1.1'' @ CRLF @ ''Host: h'' @ CRLF @ ''User-Agent: httpclient'' @ CRLF @ ''Connection: close'' @ CRLF @
     ''Content-Length: 2'' @ CRLF @ ''Content-Type: application/octet-stream'' @ CRLF @ CRLF @ ''hi''"
proof -
  have "w_malloc (world0 0) = (True, snd (w_malloc (world0 0)))" by (simp add: w_malloc_def world0_def)
  from build_request_exact [OF post_example_ok this] show ?thesis
    unfolding post_example_text [symmetric] by auto
qed

section \<open>Sending the request\<close>

lemma plain_read:
  assumes "\<not> tr_use_tls (hc_transport c)" "client_read mb len c w = (n, bs, c1, w1)"
  shows "c1 = c" "sys_recv (tcp_fd (tr_tcp (hc_transport c))) len w = (n, bs, w1)"
  using assms by (auto simp: client_read_def transport_read_def tcp_client_read_simple_def split: prod.splits)

text \<open>Reading work leaves the transport, everything that was sent, the task table and the clock alone.\<close>

definition sent_kept :: "'s HTTP_Client \<Rightarrow> world \<Rightarrow> 's HTTP_Client \<Rightarrow> world \<Rightarrow> bool" where
  "sent_kept c w c' w' \<longleftrightarrow> hc_transport c' = hc_transport c \<and> w_out w' = w_out w \<and> hc_task c' = hc_task c \<and>
     w_sched w' = w_sched w \<and> w_clock w' = w_clock w"

lemma client_read_sent:
  "\<not> tr_use_tls (hc_transport c) \<Longrightarrow> client_read mb len c w = (n, bs, c1, w1) \<Longrightarrow> 
     c1 = c \<and> w_out w1 = w_out w \<and> w_sched w1 = w_sched w \<and> w_clock w1 = w_clock w"
  using plain_read [of c mb len w n bs c1 w1] sys_recv_frame(3,5,6) by blast

lemma client_append_sent: "client_append bs c w = Inr (r, c', w') \<Longrightarrow> sent_kept c w c' w'"
  by (auto simp: client_append_def sent_kept_def split: sum.splits)

lemma client_fill_sent:
  assumes "\<not> tr_use_tls (hc_transport c)" "client_fill mb len again c w = ret (st, c', w')"
  shows "sent_kept c w c' w'"
  using assms client_read_sent [OF assms(1), of mb len w]
  by (auto simp: client_fill_def sent_kept_def dest: client_append_sent
      split: prod.splits if_splits sum.splits)


lemma firstline_sent:
  assumes "\<not> tr_use_tls (hc_transport c)" "http_client_worktask_read_firstline mb c w = ret (st, c', w')"
  shows "sent_kept c w c' w'"
proof -
  have scan: "sent_kept d v c' w'" if "firstline_scan d v = ret (st, c', w')" for d v
    using that by (auto simp: firstline_scan_def firstline_done_def sent_kept_def Let_def
        split: sum.splits if_splits prod.splits)
  obtain n bs c1 w1 where r: "client_read mb 8095 c w = (n, bs, c1, w1)" by (metis prod_cases4)
  note rs = client_read_sent [OF assms(1) r]
  show ?thesis
    using assms(2) r rs
    by (auto simp: http_client_worktask_read_firstline_def sent_kept_def
        dest!: client_append_sent scan split: if_splits sum.splits)
qed

lemma body_state_frame:
  assumes "body_state hs d = ret (st, e)"
  shows "e = d \<or> (\<exists>n. e = d\<lparr>hc_content_length := n\<rparr>)"
proof -
  obtain r1 te where te: "http_parser_get_header_value hs (Some ''Transfer-Encoding'') True = ret (r1, te)"
    using assms by (auto simp: body_state_def out_bind_eq_ret)
  show ?thesis
  proof (cases "r1 = SUCCESS \<and> te \<noteq> None \<and> strstr (the te) ''chunked'' \<noteq> None")
    case True
    then show ?thesis using assms te by (simp add: body_state_def)
  next
    case False
    then obtain r2 cl where cl: "http_parser_get_header_value hs (Some ''Content-Length'') True = ret (r2, cl)"
      using assms te by (auto simp: body_state_def out_bind_eq_ret)
    note b = assms [unfolded body_state_def te out_bind_simps prod.case cl if_not_P [OF False]]
    show ?thesis
    proof (cases "r2 = SUCCESS \<and> cl \<noteq> None")
      case True
      note b = b [unfolded if_P [OF True]]
      then obtain p where p: "parse_string_to_int cl True = Inr p" by (cases "parse_string_to_int cl True") auto
      show ?thesis using b [unfolded p sum.case prod.case_eq_if Let_def] by (auto split: if_splits)
    next
      case False
      then show ?thesis using b by auto
    qed
  qed
qed

lemma headers_sent:
  assumes "\<not> tr_use_tls (hc_transport c)" "http_client_worktask_read_headers mb c w = ret (st, c', w')"
  shows "sent_kept c w c' w'"
proof -
  have bs: "hc_transport e = hc_transport d \<and> hc_task e = hc_task d" if "body_state hs d = ret (st, e)" for hs d e
    using body_state_frame [OF that] by auto
  have hd: "sent_kept c v c' w'" if "headers_done buf k c v = ret (st, c', w')" for buf k v
    using that by (auto simp: headers_done_def sent_kept_def out_bind_eq_ret Let_def
        split: option.splits if_splits prod.splits dest!: bs)
  obtain n bs c1 w1 where r: "client_read mb 1023 c w = (n, bs, c1, w1)" by (metis prod_cases4)
  note rs = client_read_sent [OF assms(1) r]
  show ?thesis
    using assms(2) r rs
    by (auto simp: http_client_worktask_read_headers_def sent_kept_def Let_def
        dest!: client_append_sent hd split: if_splits sum.splits)
qed

lemma chunks_sent:
  assumes "\<not> tr_use_tls (hc_transport c)"
    "http_client_worktask_decipher_chonkiness mb c w = ret (st, c', w') \<or>
     http_client_worktask_read_body_chunked mb c w = ret (st, c', w')"
  shows "sent_kept c w c' w'"
proof -
  let ?ok = "\<lambda>v. hc_transport c' = hc_transport c \<and> w_out w' = w_out v \<and> hc_task c' = hc_task c \<and>
      w_sched w' = w_sched v \<and> w_clock w' = w_clock v"
  let ?eq = "\<lambda>d. hc_transport d = hc_transport c \<and> hc_task d = hc_task c"
  have fill: "client_fill mb len again d v = ret (st, c', w') \<Longrightarrow> ?eq d \<Longrightarrow> ?ok v"
    for len again d v using client_fill_sent [of d mb len again v] assms(1) by (simp add: sent_kept_def)
  have tl1: "last_chunk mb d v = ret (st, c', w') \<Longrightarrow> ?eq d \<Longrightarrow> ?ok v" for d v
    using fill [of _ _ d v] by (auto simp: last_chunk_def Let_def split: sum.splits if_splits)
  have tl2: "chunk_end mb d v = ret (st, c', w') \<Longrightarrow> ?eq d \<Longrightarrow> ?ok v" for d v
    using fill [of _ _ d v] by (auto simp: chunk_end_def Let_def split: sum.splits if_splits)
  have "?ok w" using assms(2)
  proof
    assume "http_client_worktask_decipher_chonkiness mb c w = ret (st, c', w')"
    then show ?thesis
      by (auto simp: http_client_worktask_decipher_chonkiness_def Let_def
          split: sum.splits if_splits option.splits dest: fill tl1)
  next
    assume a: "http_client_worktask_read_body_chunked mb c w = ret (st, c', w')"
    obtain ok v where m: "w_malloc w = (ok, v)" by (cases "w_malloc w")
    then have v: "w_out v = w_out w" "w_sched v = w_sched w" "w_clock v = w_clock w" using w_malloc_frame(3,5,7) [of w] by simp_all
    then show ?thesis using a m
      by (auto simp: http_client_worktask_read_body_chunked_def Let_def split: if_splits dest: fill tl2)
  qed
  then show ?thesis by (simp add: sent_kept_def)
qed

lemma body_sent:
  assumes "\<not> tr_use_tls (hc_transport c)" "http_client_worktask_read_body mb c w = ret (st, c', w')"
  shows "sent_kept c w c' w'"
proof -
  have bc: "body_check d v = ret (st, c', w') \<Longrightarrow> sent_kept d v c' w'" for d v
    by (auto simp: body_check_def sent_kept_def split: if_splits)
  obtain n bs c1 w1 where r: "client_read mb 1023 c w = (n, bs, c1, w1)" by (metis prod_cases4)
  note rs = client_read_sent [OF assms(1) r]
  show ?thesis
    using assms(2) r rs
    by (auto simp: http_client_worktask_read_body_def sent_kept_def dest!: client_append_sent bc
        split: if_splits sum.splits)
qed

lemma returning_sent:
  assumes "http_client_worktask_returning c w = ret (st, c', w')"
  shows "sent_kept c w c' w'"
proof -
  obtain ok v where m: "w_malloc w = (ok, v)" by (cases "w_malloc w")
  then have "w_out v = w_out w" "w_sched v = w_sched w" "w_clock v = w_clock w" using w_malloc_frame(3,5,7) [of w] by simp_all
  then show ?thesis using assms m
    by (auto simp: http_client_worktask_returning_def sent_kept_def Let_def split: if_splits option.splits sum.splits)
qed

text \<open>The client while its request \<open>txt\<close> goes out over a plain connection on which \<open>old\<close> had been sent, and
  afterwards.\<close>

definition sending_inv :: "byte list \<Rightarrow> byte list \<Rightarrow> int \<Rightarrow> 's HTTP_Client \<Rightarrow> world \<Rightarrow> bool" where
  "sending_inv txt old fd c w \<longleftrightarrow>
     \<not> tr_use_tls (hc_transport c) \<and> tcp_fd (tr_tcp (hc_transport c)) = fd \<and>
     (if hc_state c = HTTP_CLIENT_SENDING_REQUEST
      then \<exists>k buf. hc_bytes_sent c = int k \<and> k < length txt \<and> hc_request_length c = int (length txt) \<and>
         hc_request_buffer c = Some buf \<and> length txt \<le> length buf \<and> take (length txt) buf = txt \<and>
         w_out w fd = old @ take k txt
      else hc_state c \<in> {HTTP_CLIENT_READING_FIRSTLINE, HTTP_CLIENT_READING_HEADERS, HTTP_CLIENT_DECIPHER_CHONKINESS,
         HTTP_CLIENT_READING_BODY_CHUNKED, HTTP_CLIENT_READING_BODY, HTTP_CLIENT_RETURNING} \<and> w_out w fd = old @ txt)"

lemma send_step:
  assumes "sending_inv txt old fd c w" "hc_state c = HTTP_CLIENT_SENDING_REQUEST" "length txt < 2 ^ 31"
  shows "\<exists>st c' w'. http_client_worktask_send_request mb c w = ret (st, c', w') \<and>
     (st = HTTP_CLIENT_ERROR \<and> (\<exists>k. w_out w' fd = old @ take k txt) \<or> sending_inv txt old fd (c'\<lparr>hc_state := st\<rparr>) w')"
proof -
  obtain k buf where k: "hc_bytes_sent c = int k" "k < length txt" "hc_request_length c = int (length txt)"
      "hc_request_buffer c = Some buf" "length txt \<le> length buf" "take (length txt) buf = txt" "w_out w fd = old @ take k txt"
    using assms(1,2) by (auto simp: sending_inv_def)
  have t: "\<not> tr_use_tls (hc_transport c)" "tcp_fd (tr_tcp (hc_transport c)) = fd" using assms(1) by (auto simp: sending_inv_def)
  let ?rest = "drop k txt"
  have rem: "c_size (int (length txt) - int k) = int (length txt - k)" using k(2) assms(3) by (simp add: c_conv)
  have fit: "\<not> int (length (block_bytes (Some buf))) < int k + int (length txt - k)" using k(2,5) by (simp add: block_bytes_def)
  have data: "take (length txt - k) (drop k (block_bytes (Some buf))) = ?rest"
    using k(6) by (simp add: block_bytes_def) (metis drop_take)
  obtain n w1 where s: "sys_send fd ?rest w = (n, w1)" by (cases "sys_send fd ?rest w")
  then have wr: "transport_write mb (Some (hc_transport c)) ?rest w = (n, Some (hc_transport c), w1)"
    using t by (simp add: transport_write_def tcp_client_write_simple_def)
  obtain now w2 where clk: "SystemMonotonicMS w1 = (now, w2)" by (cases "SystemMonotonicMS w1")
  then have o2: "w_out w2 = w_out w1" using monotonic_frame(4) [of w1] by simp
  have go: "http_client_worktask_send_request mb c w = ret r"
    if "r = (if n > 0
         then (if c_size (int k + n) \<ge> c_size (int (length txt))
               then (HTTP_CLIENT_READING_FIRSTLINE, d\<lparr>hc_bytes_sent := c_size (int k + n), hc_retries := 0\<rparr>, w1)
               else (HTTP_CLIENT_SENDING_REQUEST,
                     d\<lparr>hc_bytes_sent := c_size (int k + n), hc_next_retry_at := c_size (now + 100)\<rparr>, w2))
         else if n = 0 \<or> \<not> would_block (w_errno w1) \<and> hc_retries c < 3
         then (HTTP_CLIENT_SENDING_REQUEST,
               d\<lparr>hc_retries := hc_retries c + 1, hc_next_retry_at := c_size (now + 1000)\<rparr>, w2)
         else if would_block (w_errno w1)
         then (HTTP_CLIENT_SENDING_REQUEST, d\<lparr>hc_next_retry_at := c_size (now + 100)\<rparr>, w2)
         else (HTTP_CLIENT_ERROR, d, w1))" "d = c\<lparr>hc_transport := hc_transport c\<rparr>" for r d
    unfolding http_client_worktask_send_request_def Let_def k(1,3,4) rem nat_int if_not_P [OF fit] data wr prod.case
      option.sel clk
    using that k(1,3) by simp
  show ?thesis
  proof (rule sys_send_cases [OF s])
    fix e assume "n = -1" "w_out w1 = w_out w" "w_errno w1 = e"
    then show ?thesis
      unfolding go [OF refl refl] using k t o2 by (auto simp: sending_inv_def)
  next
    assume n: "0 \<le> n" "nat n \<le> length ?rest" "w_out w1 fd = w_out w fd @ take (nat n) ?rest" "w_errno w1 = w_errno w"
    have out: "w_out w1 fd = old @ take (k + nat n) txt" using n(3) k(7) by (simp add: take_add)
    have cs: "c_size (int k + n) = int (k + nat n)" using n(1,2) k(2) assms(3) by (simp add: c_conv)
    have cl: "c_size (int (length txt)) = int (length txt)" using assms(3) by (simp add: c_conv)
    have full: "k + nat n \<ge> length txt \<Longrightarrow> w_out w1 fd = old @ txt" using out by simp
    have "n > 0 \<Longrightarrow> \<not> k + nat n \<ge> length txt \<Longrightarrow> sending_inv txt old fd
        (c\<lparr>hc_transport := hc_transport c, hc_bytes_sent := int (k + nat n), hc_next_retry_at := c_size (now + 100),
           hc_state := HTTP_CLIENT_SENDING_REQUEST\<rparr>) w2"
      using k t o2 out by (auto simp: sending_inv_def intro!: exI [of _ "k + nat n"])
    moreover have "k + nat n \<ge> length txt \<Longrightarrow> sending_inv txt old fd
        (c\<lparr>hc_transport := hc_transport c, hc_bytes_sent := int (k + nat n), hc_retries := 0,
           hc_state := HTTP_CLIENT_READING_FIRSTLINE\<rparr>) w1"
      using t full by (simp add: sending_inv_def)
    moreover have "n = 0 \<Longrightarrow> sending_inv txt old fd (c\<lparr>hc_transport := hc_transport c,
         hc_retries := hc_retries c + 1, hc_next_retry_at := c_size (now + 1000), hc_state := HTTP_CLIENT_SENDING_REQUEST\<rparr>) w2"
      using k t o2 out by (auto simp: sending_inv_def)
    ultimately show ?thesis
      unfolding go [OF refl refl] cs cl using n(1) by auto
  qed
qed

lemma reading_work_sent:
  assumes "state_work mb c w = ret (st, c', w')" "\<not> tr_use_tls (hc_transport c)"
    and "hc_state c \<in> {HTTP_CLIENT_READING_FIRSTLINE, HTTP_CLIENT_READING_HEADERS, HTTP_CLIENT_DECIPHER_CHONKINESS,
         HTTP_CLIENT_READING_BODY_CHUNKED, HTTP_CLIENT_READING_BODY, HTTP_CLIENT_RETURNING}"
  shows "sent_kept c w c' w'"
  using assms firstline_sent [of c mb w st c' w'] headers_sent [of c mb w st c' w'] chunks_sent [of c mb w st c' w']
    body_sent [of c mb w st c' w'] returning_sent [of c w st c' w']
  by (auto simp: state_work_def)

lemma sending_inv_clock: "sending_inv txt old fd c (snd (SystemMonotonicMS w)) = sending_inv txt old fd c w"
  by (simp add: sending_inv_def)

text \<open>Reading states only lead to reading states, to the error state or to the end.\<close>

definition late_state :: "HTTPClientState \<Rightarrow> bool" where
  "late_state st \<longleftrightarrow> st \<in> {HTTP_CLIENT_READING_FIRSTLINE, HTTP_CLIENT_READING_HEADERS, HTTP_CLIENT_DECIPHER_CHONKINESS,
     HTTP_CLIENT_READING_BODY_CHUNKED, HTTP_CLIENT_READING_BODY, HTTP_CLIENT_RETURNING, HTTP_CLIENT_ERROR,
     HTTP_CLIENT_DISPOSING}"

lemma client_fill_late: "client_fill mb len again c w = ret (st, c', w') \<Longrightarrow> late_state again \<Longrightarrow> late_state st"
  by (auto simp: client_fill_def late_state_def split: prod.splits if_splits sum.splits)

lemma firstline_late: "http_client_worktask_read_firstline mb c w = ret (st, c', w') \<Longrightarrow> late_state st"
  by (auto simp: http_client_worktask_read_firstline_def firstline_scan_def firstline_done_def late_state_def Let_def
      split: prod.splits if_splits sum.splits)

lemma body_state_late: "body_state hs d = ret (st, e) \<Longrightarrow> late_state st"
  by (auto simp: body_state_def out_bind_def late_state_def Let_def split: option.splits sum.splits prod.splits if_splits)

lemma headers_done_late: "headers_done buf k c v = ret (st, c', w') \<Longrightarrow> late_state st"
  by (auto simp: headers_done_def out_bind_eq_ret Let_def late_state_def [of HTTP_CLIENT_ERROR]
      split: option.splits if_splits prod.splits dest: body_state_late)

lemma headers_late: "http_client_worktask_read_headers mb c w = ret (st, c', w') \<Longrightarrow> late_state st"
  by (auto simp: http_client_worktask_read_headers_def Let_def late_state_def [of HTTP_CLIENT_ERROR]
      late_state_def [of HTTP_CLIENT_READING_HEADERS] split: prod.splits if_splits sum.splits dest: headers_done_late)

lemma chunk_late:
  "http_client_worktask_decipher_chonkiness mb c w = ret (st, c', w') \<Longrightarrow> late_state st"
  "http_client_worktask_read_body_chunked mb c w = ret (st, c', w') \<Longrightarrow> late_state st"
  by (auto simp: http_client_worktask_decipher_chonkiness_def http_client_worktask_read_body_chunked_def last_chunk_def
      chunk_end_def Let_def late_state_def [of HTTP_CLIENT_ERROR] late_state_def [of HTTP_CLIENT_RETURNING]
      late_state_def [of HTTP_CLIENT_DECIPHER_CHONKINESS] late_state_def [of HTTP_CLIENT_READING_BODY_CHUNKED]
      split: prod.splits if_splits sum.splits option.splits dest!: client_fill_late)

lemma body_late:
  "http_client_worktask_read_body mb c w = ret (st, c', w') \<Longrightarrow> late_state st"
  "http_client_worktask_returning c w = ret (st, c', w') \<Longrightarrow> late_state st"
  by (auto simp: http_client_worktask_read_body_def http_client_worktask_returning_def body_check_def late_state_def Let_def
      split: prod.splits if_splits sum.splits option.splits)

lemma reading_work_late:
  assumes "state_work mb c w = ret (st, c', w')"
    and "hc_state c \<in> {HTTP_CLIENT_READING_FIRSTLINE, HTTP_CLIENT_READING_HEADERS, HTTP_CLIENT_DECIPHER_CHONKINESS,
         HTTP_CLIENT_READING_BODY_CHUNKED, HTTP_CLIENT_READING_BODY, HTTP_CLIENT_RETURNING}"
  shows "late_state st"
  using assms firstline_late headers_late chunk_late body_late by (auto simp: state_work_def)

lemma sending_run:
  assumes "task_run mb s s'" "s = (c0, w0)" "sending_inv txt old fd c0 w0" "length txt < 2 ^ 31"
    and "hc_state c0 \<notin> {HTTP_CLIENT_ERROR, HTTP_CLIENT_DISPOSING}"
  shows "hc_state (fst s') \<in> {HTTP_CLIENT_ERROR, HTTP_CLIENT_DISPOSING} \<and>
      (\<exists>k. w_out (snd s') fd = old @ take k txt) \<or> sending_inv txt old fd (fst s') (snd s')"
  using assms(1,2)
proof (induction rule: task_run.induct)
  case (task_refl s)
  then show ?case using assms(3) by simp
next
  case (task_step s c w t c' w')
  let ?w = "snd (SystemMonotonicMS w)"
  have I: "sending_inv txt old fd c ?w" using task_step.IH task_step.prems task_step.hyps(2) by (auto simp: sending_inv_clock)
  have "hc_state c' \<in> {HTTP_CLIENT_ERROR, HTTP_CLIENT_DISPOSING} \<and> (\<exists>k. w_out w' fd = old @ take k txt) \<or>
      sending_inv txt old fd c' w'"
  proof (rule taskwork_cases [OF task_step.hyps(3,2)])
    assume "c' = c" "w' = ?w"
    then show ?thesis using I by simp
  next
    fix st c1 assume st: "state_work mb c ?w = ret (st, c1, w')" "c' = c1\<lparr>hc_state := st\<rparr>"
    show ?thesis
    proof (cases "hc_state c = HTTP_CLIENT_SENDING_REQUEST")
      case True
      then show ?thesis using send_step [OF I True assms(4), of mb] st by (auto simp: state_work_def)
    next
      case False
      then have r: "hc_state c \<in> {HTTP_CLIENT_READING_FIRSTLINE, HTTP_CLIENT_READING_HEADERS,
          HTTP_CLIENT_DECIPHER_CHONKINESS, HTTP_CLIENT_READING_BODY_CHUNKED, HTTP_CLIENT_READING_BODY,
          HTTP_CLIENT_RETURNING}" "w_out ?w fd = old @ txt" "\<not> tr_use_tls (hc_transport c)"
          "tcp_fd (tr_tcp (hc_transport c)) = fd"
        using I by (auto simp: sending_inv_def)
      have k: "sent_kept c ?w c1 w'" by (rule reading_work_sent [OF st(1) r(3,1)])
      have l: "late_state st" by (rule reading_work_late [OF st(1) r(1)])
      have out: "w_out w' fd = old @ txt" using k r(2) by (simp add: sent_kept_def)
      then have pre: "\<exists>k. w_out w' fd = old @ take k txt" by (intro exI [of _ "length txt"]) simp
      have "\<not> tr_use_tls (hc_transport c')" "tcp_fd (tr_tcp (hc_transport c')) = fd" "hc_state c' = st"
        using k r(3,4) st(2) by (simp_all add: sent_kept_def)
      then show ?thesis using l out pre by (auto simp: sending_inv_def late_state_def)
    qed
  qed
  then show ?case by simp
qed

text \<open>C16: Sending a request. A client with a request text in its buffer sends it over a plain connection.
  Whatever the kernel accepts of each send, along every run of the task the peer has been sent a prefix
  of the request and nothing else; and whenever the client is reading a response, it has been sent
  exactly the whole request, once.\<close>

theorem request_sent_exact:
  assumes "sending_inv txt old fd c w" "hc_state c = HTTP_CLIENT_SENDING_REQUEST" "length txt < 2 ^ 31"
    and "task_run mb (c, w) (c', w')"
  shows "(\<exists>k. w_out w' fd = old @ take k txt) \<and>
     (hc_state c' \<notin> {HTTP_CLIENT_SENDING_REQUEST, HTTP_CLIENT_ERROR, HTTP_CLIENT_DISPOSING} \<longrightarrow> w_out w' fd = old @ txt)"
proof -
  have "hc_state c' \<in> {HTTP_CLIENT_ERROR, HTTP_CLIENT_DISPOSING} \<and>
      (\<exists>k. w_out w' fd = old @ take k txt) \<or> sending_inv txt old fd c' w'"
    using sending_run [OF assms(4) refl assms(1,3)] assms(2) by simp
  moreover have "\<exists>k. w_out w' fd = old @ take k txt" if "sending_inv txt old fd c' w'"
    using that by (cases "hc_state c' = HTTP_CLIENT_SENDING_REQUEST") (auto simp: sending_inv_def intro: exI [of _ "length txt"])
  ultimately show ?thesis by (auto simp: sending_inv_def)
qed

definition send_example :: "nat HTTP_Client" where
  "send_example = post_example\<lparr>hc_state := HTTP_CLIENT_SENDING_REQUEST, hc_request_buffer := Some ''GET / '',
     hc_request_length := 5, hc_transport := (zero_transport mb_example)\<lparr>tr_tcp := zero_tcp\<lparr>tcp_fd := 3\<rparr>\<rparr>\<rparr>"

definition send_world :: world where
  "send_world = (world0 0)\<lparr>w_send := (\<lambda>_. [])(3 := [Accept 2, TxErr EAGAIN]),
     w_clock := map (\<lambda>i. (i, 0)) [0..5]\<rparr>"

theorem request_sent_exact_witness:
  "\<exists>c' w'. task_run mb_example (send_example, send_world) (c', w') \<and> hc_state c' = HTTP_CLIENT_READING_FIRSTLINE \<and>
     w_out w' 3 = ''GET /''"
proof -
  have "map_option (\<lambda>(c, w). hc_state c) (task_iter mb_example 3 send_example send_world) =
      Some HTTP_CLIENT_READING_FIRSTLINE" by code_simp
  then obtain c' w' where i: "task_iter mb_example 3 send_example send_world = Some (c', w')"
      "hc_state c' = HTTP_CLIENT_READING_FIRSTLINE" by (auto simp: case_prod_unfold)
  have r: "task_run mb_example (send_example, send_world) (c', w')"
    by (rule task_iter_run [OF task_run.task_refl i(1)])
  have "sending_inv ''GET /'' [] 3 send_example send_world" "hc_state send_example = HTTP_CLIENT_SENDING_REQUEST"
    by (simp_all add: sending_inv_def send_example_def post_example_def zero_client_def zero_transport_def send_world_def
        world0_def)
  from request_sent_exact [OF this _ r] i(2) r show ?thesis by auto
qed

end
