(* ===== verification/HTTP_Progress.thy ===== *)
theory HTTP_Progress imports HTTP_Request
begin

text \<open>
  The blocking interface of \<^verbatim>\<open>modules/src/http_client.c\<close>: the loop of
  \<^verbatim>\<open>http_blocking_work\<close> comes to an end once it reads the response.

  Its descriptor is a blocking one, on which \<^verbatim>\<open>recv\<close> waits for a silent peer; the timeout of the loop is only
  looked at between the calls. So the statement is about peers that close the connection sooner or later:
  every incoming script holds an end of stream. Each round of the loop then leaves less to read, to
  consume or to send.
\<close>

section \<open>What is left to do\<close>

definition rx_weight :: "rx list \<Rightarrow> nat" where
  "rx_weight s = sum_list (map (\<lambda>x. case x of Data bs \<Rightarrow> 2 * length bs + 1 | _ \<Rightarrow> 1) (takeWhile (\<lambda>x. x \<noteq> RxEof) s))"

text \<open>The client during the response: it can be disposed of, its buffer and what is still to come stay below
  2^31 bytes, and the peer closes.\<close>

definition blk_inv :: "'s HTTP_Client \<Rightarrow> world \<Rightarrow> bool" where
  "blk_inv c w \<longleftrightarrow>
     \<not> tr_use_tls (hc_transport c) \<and> RxEof \<in> set (w_in w (tcp_fd (tr_tcp (hc_transport c)))) \<and>
     0 \<le> hd_size (hc_recv_buf c) \<and> length (block_bytes (hd_addr (hc_recv_buf c))) \<le> 2 ^ 31 \<and>
     hd_size (hc_recv_buf c) + int (length (plain_unread (hc_transport c) w)) < 2 ^ 31 \<and> 0 \<le> hc_chunk_remaining c \<and>
     (\<forall>r. hc_req c = Some r \<longrightarrow> req_wf r)"

definition blk_left :: "'s HTTP_Client \<Rightarrow> world \<Rightarrow> nat" where
  "blk_left c w = nat (hd_size (hc_recv_buf c)) + rx_weight (w_in w (tcp_fd (tr_tcp (hc_transport c))))"

definition req_kept :: "'s HTTP_Client \<Rightarrow> bool" where
  "req_kept c \<longleftrightarrow> (\<forall>r. hc_req c = Some r \<longrightarrow> req_wf r)"

definition reading :: "HTTPClientState \<Rightarrow> bool" where
  "reading st \<longleftrightarrow> st \<in> {HTTP_CLIENT_READING_FIRSTLINE, HTTP_CLIENT_READING_HEADERS, HTTP_CLIENT_DECIPHER_CHONKINESS,
     HTTP_CLIENT_READING_BODY_CHUNKED, HTTP_CLIENT_READING_BODY}"

text \<open>A unit of reading work returns or faults; it either makes progress or leads out of the reading states.\<close>

definition progress :: "nat \<Rightarrow> 's step \<Rightarrow> bool" where
  "progress n r \<longleftrightarrow>
     (case r of
        None \<Rightarrow> False
      | Some (Inl _) \<Rightarrow> True
      | Some (Inr (st, c, w)) \<Rightarrow>
          req_kept c \<and> (st \<in> {HTTP_CLIENT_RETURNING, HTTP_CLIENT_ERROR} \<or> reading st \<and> blk_inv c w \<and> blk_left c w < n))"

lemma progress_simps [simp]:
  "progress n (fault f)"
  "progress n (ret (HTTP_CLIENT_ERROR, c, w)) \<longleftrightarrow> req_kept c"
  "progress n (ret (HTTP_CLIENT_RETURNING, c, w)) \<longleftrightarrow> req_kept c"
  "reading st \<Longrightarrow> progress n (ret (st, c, w)) \<longleftrightarrow> req_kept c \<and> blk_inv c w \<and> blk_left c w < n"
  by (auto simp: progress_def reading_def)

lemma reading_simps [simp]:
  "reading HTTP_CLIENT_READING_FIRSTLINE" "reading HTTP_CLIENT_READING_HEADERS" "reading HTTP_CLIENT_DECIPHER_CHONKINESS"
  "reading HTTP_CLIENT_READING_BODY_CHUNKED" "reading HTTP_CLIENT_READING_BODY"
  by (simp_all add: reading_def)

lemma blk_inv_req: "blk_inv c w \<Longrightarrow> req_kept c"
  by (simp add: blk_inv_def req_kept_def)

lemma progress_mono: "progress m r \<Longrightarrow> m \<le> n \<Longrightarrow> progress n r"
  by (auto simp: progress_def split: option.splits sum.splits prod.splits)

section \<open>Reading and the buffer\<close>

lemma rx_weight_simps [simp]:
  "rx_weight [] = 0" "rx_weight (RxEof # s) = 0" "rx_weight (Data bs # s) = 2 * length bs + 1 + rx_weight s"
  "rx_weight (RxErr e # s) = 1 + rx_weight s"
  by (simp_all add: rx_weight_def)

lemma recv_weight:
  assumes "sys_recv fd len w = (n, bs, w')" "0 < len" "RxEof \<in> set (w_in w fd)"
  shows "RxEof \<in> set (w_in w' fd)"
    "n < 0 \<Longrightarrow> rx_weight (w_in w' fd) < rx_weight (w_in w fd)"
    "0 < n \<Longrightarrow> rx_weight (w_in w' fd) + length bs < rx_weight (w_in w fd)"
  using assms by (auto simp: sys_recv_def split: list.splits rx.splits if_splits)

lemma read_cases:
  assumes "blk_inv c w" "client_read mb len c w = (n, bs, c1, w1)" "0 < len"
  obtains "n < 0" "c1 = c" "blk_inv c w1" "blk_left c w1 < blk_left c w"
  | "n = 0" "c1 = c" "blk_inv c w1" "blk_left c w1 = blk_left c w" "w1 = w"
  | "0 < n" "c1 = c" "bs \<noteq> []" "blk_inv c w1" "blk_left c w1 + length bs < blk_left c w"
    "hd_size (hc_recv_buf c) + int (length bs) + int (length (plain_unread (hc_transport c) w1)) < 2 ^ 31"
proof -
  let ?fd = "tcp_fd (tr_tcp (hc_transport c))"
  have I: "\<not> tr_use_tls (hc_transport c)" "RxEof \<in> set (w_in w ?fd)" using assms(1) by (simp_all add: blk_inv_def)
  note r = plain_read [OF I(1) assms(2)]
  note k = recv_weight [OF r(2) assms(3) I(2)]
  show thesis
  proof (rule sys_recv_cases [OF r(2) assms(3)])
    assume "n < 0" "rx_bytes (w_in w1 ?fd) = rx_bytes (w_in w ?fd)"
    then show thesis using that(1) r(1) assms(1) k by (simp add: blk_inv_def blk_left_def plain_unread_def)
  next
    assume "n = 0" "w1 = w"
    then show thesis using that(2) r(1) assms(1) by simp
  next
    assume "0 < n" "n = int (length bs)" "rx_bytes (w_in w ?fd) = bs @ rx_bytes (w_in w1 ?fd)"
    then show thesis using that(3) r(1) assms(1) k by (auto simp: blk_inv_def blk_left_def plain_unread_def)
  qed
qed

lemma append_cases:
  assumes "client_append bs c w = Inr (r, c', w')" "blk_inv c w" "bs \<noteq> []"
    and "hd_size (hc_recv_buf c) + int (length bs) + int (length (plain_unread (hc_transport c) w)) < 2 ^ 31"
  shows "blk_inv c' w'" "blk_left c' w' \<le> blk_left c w + length bs"
proof -
  let ?n = "hd_size (hc_recv_buf c)" and ?b = "hd_addr (hc_recv_buf c)"
  obtain ok a where m: "malloc (w_alloc w) = (ok, a)" by (cases "malloc (w_alloc w)")
  have n: "0 \<le> ?n" "?n + int (length bs) < 2 ^ 31" using assms(2,4) by (auto simp: blk_inv_def)
  then have cs: "c_size (?n + int (length bs)) = ?n + int (length bs)"
      "c_size (?n + int (length bs) + 1) = ?n + int (length bs) + 1" by (simp_all add: c_size_id)
  have "\<exists>blk k. buffer_append ?b ?n (Some bs) (w_alloc w) = Inr (r, blk, k, a) \<and>
      (blk = ?b \<and> k = ?n \<or> k = ?n + int (length bs) \<and> length (block_bytes blk) \<le> 2 ^ 31) \<or>
      (\<exists>f. buffer_append ?b ?n (Some bs) (w_alloc w) = Inl f)"
  proof (cases ok)
    case True
    let ?blk = "block_realloc (nat (?n + int (length bs) + 1)) ?b"
    have l: "length ?blk = nat (?n + int (length bs) + 1)" by (simp add: block_realloc_def)
    then have "\<not> int (length ?blk) < ?n + int (length bs) + 1" using n by simp
    then have e: "buffer_append ?b ?n (Some bs) (w_alloc w) =
        Inr (int (length bs), Some ((block_write ?blk (nat ?n) bs)[nat (?n + int (length bs)) := NUL]), ?n + int (length bs), a)"
      using assms(3) m True cs by (simp add: buffer_append_def Let_def)
    have "length (block_write ?blk (nat ?n) bs) \<le> 2 ^ 31" using l n by (simp add: block_write_def nat_add_distrib)
    then show ?thesis using e assms(1) by (auto simp: client_append_def block_bytes_def)
  next
    case False
    then show ?thesis using buffer_append_refused [of bs "w_alloc w" a ?b ?n] assms(1,3) m by (auto simp: client_append_def)
  qed
  then obtain d where d: "c' = c\<lparr>hc_recv_buf := d\<rparr>" "w' = w\<lparr>w_alloc := a\<rparr>"
      "hd_size d = ?n \<and> d = hc_recv_buf c \<or> hd_size d = ?n + int (length bs) \<and> length (block_bytes (hd_addr d)) \<le> 2 ^ 31"
    using assms(1) by (auto simp: client_append_def)
  then show "blk_inv c' w'" "blk_left c' w' \<le> blk_left c w + length bs"
    using assms(2,4) n by (auto simp: blk_inv_def blk_left_def plain_unread_def)
qed

lemma fill_progress:
  assumes "blk_inv c w" "0 < len" "reading again" "blk_left c w \<le> n"
  shows "progress n (client_fill mb len again c w)"
proof -
  obtain k bs c1 w1 where r: "client_read mb len c w = (k, bs, c1, w1)" by (metis prod_cases4)
  show ?thesis
  proof (rule read_cases [OF assms(1) r assms(2)])
    assume "0 < k" "c1 = c" "bs \<noteq> []" "blk_inv c w1" "blk_left c w1 + length bs < blk_left c w"
      "hd_size (hc_recv_buf c) + int (length bs) + int (length (plain_unread (hc_transport c) w1)) < 2 ^ 31"
    then show ?thesis
      using r assms append_cases [of bs c w1] blk_inv_req
      by (fastforce simp: client_fill_def split: sum.splits prod.splits)
  qed (use r assms blk_inv_req in \<open>auto simp: client_fill_def\<close>)
qed

lemma blk_inv_consume:
  assumes "blk_inv c w" "0 \<le> k" "k \<le> hd_size (hc_recv_buf c)"
  shows "blk_inv (c\<lparr>hc_recv_buf := buf_consume k (hc_recv_buf c)\<rparr>) w"
    "blk_left (c\<lparr>hc_recv_buf := buf_consume k (hc_recv_buf c)\<rparr>) w + nat k = blk_left c w"
proof -
  let ?d = "buf_consume k (hc_recv_buf c)"
  have s: "hd_size ?d = hd_size (hc_recv_buf c) - k" by (simp add: buf_consume_def Let_def)
  have "length (block_bytes (hd_addr ?d)) \<le> length (block_bytes (hd_addr (hc_recv_buf c)))"
    by (auto simp: buf_consume_def Let_def block_bytes_def min_def)
  then show "blk_inv (c\<lparr>hc_recv_buf := ?d\<rparr>) w" using assms s by (auto simp: blk_inv_def)
  show "blk_left (c\<lparr>hc_recv_buf := ?d\<rparr>) w + nat k = blk_left c w" using assms(2,3) s by (simp add: blk_left_def)
qed

lemma view_facts:
  assumes "buf_view (hc_recv_buf c) = Inr buf" "blk_inv c w"
  shows "int (length buf) = hd_size (hc_recv_buf c)" "length buf < 2 ^ 31"
proof -
  show "int (length buf) = hd_size (hc_recv_buf c)" using assms(1) by (auto simp: buf_view_def split: if_splits)
  then show "length buf < 2 ^ 31" using assms(2) by (auto simp: blk_inv_def)
qed

text \<open>Fields that do not matter here.\<close>

lemma blk_frame [simp]:
  "blk_inv (c\<lparr>hc_resp := x\<rparr>) w = blk_inv c w" "blk_left (c\<lparr>hc_resp := x\<rparr>) w = blk_left c w"
  "blk_inv (c\<lparr>hc_retries := m\<rparr>) w = blk_inv c w" "blk_left (c\<lparr>hc_retries := m\<rparr>) w = blk_left c w"
  "blk_inv (c\<lparr>hc_content_length := m\<rparr>) w = blk_inv c w" "blk_left (c\<lparr>hc_content_length := m\<rparr>) w = blk_left c w"
  "blk_inv (c\<lparr>hc_decoded_body := b\<rparr>) w = blk_inv c w" "blk_left (c\<lparr>hc_decoded_body := b\<rparr>) w = blk_left c w"
  "blk_inv (c\<lparr>hc_decoded_body_len := m\<rparr>) w = blk_inv c w" "blk_left (c\<lparr>hc_decoded_body_len := m\<rparr>) w = blk_left c w"
  "blk_left (c\<lparr>hc_req := q\<rparr>) w = blk_left c w" "blk_left (c\<lparr>hc_chunk_remaining := m\<rparr>) w = blk_left c w"
  "blk_inv (c\<lparr>hc_state := st\<rparr>) w = blk_inv c w" "blk_left (c\<lparr>hc_state := st\<rparr>) w = blk_left c w"
  "blk_inv c (w\<lparr>w_alloc := a\<rparr>) = blk_inv c w" "blk_left c (w\<lparr>w_alloc := a\<rparr>) = blk_left c w"
  by (simp_all add: blk_inv_def blk_left_def plain_unread_def)

section \<open>The reading states\<close>

lemma headers_end_cases:
  assumes "length buf < 2 ^ 31" "0 \<le> http_parser_find_headers_end buf (length buf)"
  obtains i where "http_parser_find_headers_end buf (length buf) = int i" "i + 4 \<le> length buf"
proof -
  obtain i where i: "http_parser_find_headers_end buf (length buf) = int i" using assms(2) by (rule nonneg_int_cases)
  then have "i + 3 < length buf" using find_headers_end_iff [OF assms(1) le_refl, of i] by blast
  then show thesis using that i by simp
qed

lemma line_end_cases:
  assumes "length buf < 2 ^ 31" "0 \<le> http_parser_find_line_end buf (length buf)"
  obtains i where "http_parser_find_line_end buf (length buf) = int i" "i + 2 \<le> length buf"
proof (rule find_line_end_cases [OF assms(1) le_refl])
  fix i assume "http_parser_find_line_end buf (length buf) = int i" "Suc i < length buf"
  then show thesis using that by simp
qed (use assms(2) in simp)

lemma scan_progress:
  assumes "blk_inv c w" "blk_left c w < n"
  shows "progress n (firstline_scan c w)"
proof (cases "buf_view (hc_recv_buf c)")
  case (Inr buf)
  note v = view_facts [OF Inr assms(1)]
  let ?e = "http_parser_find_line_end buf (length buf)"
  show ?thesis
  proof (cases "buf = [] \<or> ?e < 0 \<or> ?e = 0 \<or> ?e \<ge> 1024")
    case True
    then show ?thesis using Inr assms blk_inv_req [OF assms(1)] by (auto simp: firstline_scan_def Let_def)
  next
    case False
    then have "0 \<le> ?e" by simp
    then obtain i where i: "?e = int i" "i + 2 \<le> length buf" by (rule line_end_cases [OF v(2)])
    have "progress n (firstline_done buf i c w)"
    proof (cases "http_parser_response_firstline (Some buf) i (hc_resp c) (w_alloc w)")
      case (Inr x)
      obtain r resp a where x: "x = (r, resp, a)" by (cases x)
      have k: "0 \<le> int i + 2" "int i + 2 \<le> hd_size (hc_recv_buf (c\<lparr>hc_resp := resp\<rparr>))" using i(2) v(1) by simp_all
      have "blk_inv (c\<lparr>hc_resp := resp\<rparr>) (w\<lparr>w_alloc := a\<rparr>)" using assms(1) by simp
      note q = blk_inv_consume [OF this k]
      show ?thesis
        using Inr x q blk_inv_req [OF q(1)] assms by (simp add: firstline_done_def Let_def req_kept_def)
    qed (simp add: firstline_done_def)
    then show ?thesis using Inr False i(1) by (simp add: firstline_scan_def Let_def)
  qed
qed (simp add: firstline_scan_def)

lemma firstline_progress:
  assumes "blk_inv c w"
  shows "progress (blk_left c w) (http_client_worktask_read_firstline mb c w)"
proof -
  obtain k bs c1 w1 where r: "client_read mb 8095 c w = (k, bs, c1, w1)" by (metis prod_cases4)
  show ?thesis
  proof (rule read_cases [OF assms r])
    assume a: "0 < k" "c1 = c" "bs \<noteq> []" "blk_inv c w1" "blk_left c w1 + length bs < blk_left c w"
      "hd_size (hc_recv_buf c) + int (length bs) + int (length (plain_unread (hc_transport c) w1)) < 2 ^ 31"
    show ?thesis
    proof (cases "client_append bs c1 w1")
      case (Inr x)
      obtain s c2 w2 where x: "x = (s, c2, w2)" by (cases x)
      note q = append_cases [OF Inr [unfolded x a(2)] a(4,3,6)]
      then show ?thesis
        using Inr x a r scan_progress [OF q(1), of "blk_left c w"] blk_inv_req [OF q(1)]
        by (simp add: http_client_worktask_read_firstline_def)
    qed (use r a in \<open>simp add: http_client_worktask_read_firstline_def\<close>)
  qed (use r blk_inv_req in \<open>auto simp: http_client_worktask_read_firstline_def\<close>)
qed

lemma header_value_total:
  assumes "\<And>l. hs = Some l \<Longrightarrow> ll_wf l"
  shows "\<exists>r v. http_parser_get_header_value hs nm b = ret (r, v)"
proof (cases hs)
  case (Some l)
  then have "linked_list_foreach l = ret (ll_items l)" using assms ll.visit_items by blast
  then show ?thesis using Some by (auto simp: http_parser_get_header_value_def split: option.splits)
qed (simp add: http_parser_get_header_value_def)

lemma body_state_total:
  assumes "\<And>l. hs = Some l \<Longrightarrow> ll_wf l"
  shows "body_state hs c \<noteq> None"
proof -
  obtain r1 te where te: "http_parser_get_header_value hs (Some ''Transfer-Encoding'') True = ret (r1, te)"
    using header_value_total [OF assms] by blast
  obtain r2 cl where cl: "http_parser_get_header_value hs (Some ''Content-Length'') True = ret (r2, cl)"
    using header_value_total [OF assms] by blast
  show ?thesis
    unfolding body_state_def te cl out_bind_simps prod.case Let_def by (auto split: sum.splits)
qed

lemma body_state_reading: "body_state hs d = ret (st, e) \<Longrightarrow> reading st \<or> st = HTTP_CLIENT_RETURNING"
  by (auto simp: body_state_def out_bind_def Let_def split: option.splits sum.splits prod.splits if_splits)

lemma headers_done_progress:
  assumes "blk_inv c w" "length buf < 2 ^ 31" "int (length buf) = hd_size (hc_recv_buf c)" "k \<le> length buf" "0 < k"
  shows "progress (blk_left c w) (headers_done buf k c w)"
proof (cases "hc_req c")
  case (Some req)
  obtain code lo a where h: "http_parser_headers (Some buf) k (Some (req_headers req)) (w_alloc w) = ret (code, lo, a)"
      "headers_post code lo"
    using headers_total [OF assms(4,2)] by blast
  have wf: "\<And>l. lo = Some l \<Longrightarrow> ll_wf l" using h(2) by (auto simp: headers_post_def)
  let ?c = "c\<lparr>hc_req := Some (req\<lparr>req_headers := lo\<rparr>)\<rparr>" let ?w = "w\<lparr>w_alloc := a\<rparr>"
  have I: "blk_inv ?c ?w" using assms(1) wf Some by (auto simp: blk_inv_def req_wf_def plain_unread_def)
  have k: "0 \<le> int k" "int k \<le> hd_size (hc_recv_buf ?c)" using assms(3,4) by simp_all
  note q = blk_inv_consume [OF I k]
  let ?d = "?c\<lparr>hc_recv_buf := buf_consume (int k) (hc_recv_buf ?c), hc_retries := 0\<rparr>"
  have d: "blk_inv ?d ?w" "blk_left ?d ?w < blk_left c w" using q assms(5) by simp_all
  have done_def: "headers_done buf k c w =
      (if code \<noteq> SUCCESS then ret (HTTP_CLIENT_ERROR, ?c, ?w) else out_bind (body_state lo ?d) (\<lambda>(st, c2). ret (st, c2, ?w)))"
    using Some h(1) by (simp add: headers_done_def Let_def)
  show ?thesis
  proof (cases "code \<noteq> SUCCESS")
    case True
    then show ?thesis using done_def blk_inv_req [OF I] by simp
  next
    case False
    consider f where "body_state lo ?d = fault f" | st e where "body_state lo ?d = ret (st, e)"
      using body_state_total [OF wf, of lo ?d] by (cases "body_state lo ?d") (auto, metis sum.exhaust surj_pair)
    then show ?thesis
    proof cases
      case (2 st e)
      then have "blk_inv e ?w" "blk_left e ?w < blk_left c w" using body_state_frame [OF 2] d by auto
      then show ?thesis using done_def False 2 body_state_reading [OF 2] blk_inv_req by auto
    qed (use done_def False in simp)
  qed
qed (simp add: headers_done_def)

lemma headers_progress:
  assumes "blk_inv c w"
  shows "progress (blk_left c w) (http_client_worktask_read_headers mb c w)"
proof (cases "buf_view (hc_recv_buf c)")
  case (Inr buf)
  note v = view_facts [OF Inr assms(1)]
  let ?e = "http_parser_find_headers_end buf (length buf)"
  have done_ok: "progress (blk_left c w) (headers_done buf (nat ?e + 4) c w)" if "0 \<le> ?e"
    using headers_end_cases [OF v(2) that] headers_done_progress [OF assms v(2,1)] by fastforce
  obtain k bs c1 w1 where r: "client_read mb 1023 c w = (k, bs, c1, w1)" by (metis prod_cases4)
  show ?thesis
  proof (cases "hd_size (hc_recv_buf c) > 0 \<and> ?e \<ge> 0")
    case True
    then show ?thesis using Inr done_ok by (simp add: http_client_worktask_read_headers_def Let_def)
  next
    case False
    note def = http_client_worktask_read_headers_def [of mb c w, unfolded Inr sum.case Let_def if_not_P [OF False] r prod.case]
    show ?thesis
    proof (rule read_cases [OF assms r])
      assume a: "0 < k" "c1 = c" "bs \<noteq> []" "blk_inv c w1" "blk_left c w1 + length bs < blk_left c w"
        "hd_size (hc_recv_buf c) + int (length bs) + int (length (plain_unread (hc_transport c) w1)) < 2 ^ 31"
      show ?thesis
      proof (cases "client_append bs c1 w1")
        case (Inr x)
        obtain s c2 w2 where x: "x = (s, c2, w2)" by (cases x)
        note q = append_cases [OF Inr [unfolded x a(2)] a(4,3,6)]
        then show ?thesis unfolding def using Inr x a blk_inv_req [OF q(1)] by simp
      qed (use a in \<open>simp add: def\<close>)
    qed (use def done_ok blk_inv_req in auto)
  qed
qed (simp add: http_client_worktask_read_headers_def)

lemma last_chunk_progress_blk:
  assumes "blk_inv c w" "blk_left c w \<le> n"
  shows "progress n (last_chunk mb c w)"
proof (cases "buf_view (hc_recv_buf c)")
  case (Inr buf)
  note v = view_facts [OF Inr assms(1)]
  let ?e = "http_parser_find_headers_end buf (length buf)"
  have k: "req_kept (c\<lparr>hc_recv_buf := d\<rparr>)" for d using blk_inv_req [OF assms(1)] by (simp add: req_kept_def)
  show ?thesis
    using Inr k fill_progress [OF assms(1) _ _ assms(2), of 1023 HTTP_CLIENT_DECIPHER_CHONKINESS mb]
    by (simp add: last_chunk_def Let_def)
qed (simp add: last_chunk_def)

lemma decipher_progress:
  assumes "blk_inv c w"
  shows "progress (blk_left c w) (http_client_worktask_decipher_chonkiness mb c w)"
proof (cases "buf_view (hc_recv_buf c)")
  case (Inr buf)
  note v = view_facts [OF Inr assms(1)]
  let ?e = "http_parser_find_line_end buf (length buf)"
  show ?thesis
  proof (cases "?e < 0")
    case True
    then show ?thesis
      using Inr fill_progress [OF assms _ _ le_refl, of 1023 HTTP_CLIENT_DECIPHER_CHONKINESS mb]
      by (simp add: http_client_worktask_decipher_chonkiness_def Let_def)
  next
    case False
    then have "0 \<le> ?e" by simp
    then obtain i where i: "?e = int i" "i + 2 \<le> length buf" by (rule line_end_cases [OF v(2)])
    have k: "0 \<le> int i + 2" "int i + 2 \<le> hd_size (hc_recv_buf c)" using i(2) v(1) by simp_all
    note q = blk_inv_consume [OF assms k]
    let ?c = "c\<lparr>hc_recv_buf := buf_consume (int i + 2) (hc_recv_buf c)\<rparr>"
    have l: "blk_left ?c w < blk_left c w" using q(2) by simp
    have r: "blk_inv (?c\<lparr>hc_chunk_remaining := c_size x\<rparr>) w" for x using q(1) by (simp add: blk_inv_def c_size_def)
    have "progress (blk_left c w) (last_chunk mb ?c w)" using last_chunk_progress_blk [OF q(1)] l by simp
    then show ?thesis
      using Inr i(1) l r blk_inv_req [OF assms] blk_inv_req [OF r] 
      by (simp add: http_client_worktask_decipher_chonkiness_def Let_def split: option.splits)
  qed
qed (simp add: http_client_worktask_decipher_chonkiness_def)

lemma chunk_end_progress:
  assumes "blk_inv c w" "blk_left c w \<le> n"
  shows "progress n (chunk_end mb c w)"
proof (cases "buf_view (hc_recv_buf c)")
  case (Inr buf)
  show ?thesis
  proof (cases "hd_size (hc_recv_buf c) < 2")
    case True
    then show ?thesis
      using Inr fill_progress [OF assms(1) _ _ assms(2), of 1024 HTTP_CLIENT_READING_BODY_CHUNKED mb] by (simp add: chunk_end_def)
  next
    case False
    have k: "(0 :: int) \<le> 2" "2 \<le> hd_size (hc_recv_buf c)" using False by simp_all
    note q = blk_inv_consume [OF assms(1) k]
    show ?thesis using Inr False q assms(2) blk_inv_req [OF assms(1)] blk_inv_req [OF q(1)] by (simp add: chunk_end_def)
  qed
qed (simp add: chunk_end_def)

lemma chunked_progress:
  assumes "blk_inv c w"
  shows "progress (blk_left c w) (http_client_worktask_read_body_chunked mb c w)"
proof (cases "hd_size (hc_recv_buf c) < c_ssize (hc_chunk_remaining c)")
  case True
  then show ?thesis
    using fill_progress [OF assms _ _ le_refl, of 1023 HTTP_CLIENT_READING_BODY_CHUNKED mb]
    by (simp add: http_client_worktask_read_body_chunked_def)
next
  case False
  let ?k = "hc_chunk_remaining c"
  obtain ok w1 where m: "w_malloc w = (ok, w1)" by (cases "w_malloc w")
  then obtain a where w1: "w1 = w\<lparr>w_alloc := a\<rparr>" by (auto simp: w_malloc_def)
  have end_ok: "progress (blk_left c w) (chunk_end mb (c\<lparr>hc_decoded_body := b, hc_decoded_body_len := l,
      hc_recv_buf := buf_consume ?k (hc_recv_buf c), hc_chunk_remaining := 0\<rparr>) w1)"
    if "\<not> int (length (block_bytes (hd_addr (hc_recv_buf c)))) < ?k" for b l
  proof -
    have "0 \<le> ?k" "?k \<le> 2 ^ 31" using assms that by (auto simp: blk_inv_def)
    then have k: "0 \<le> ?k" "?k \<le> hd_size (hc_recv_buf c)" using False by (simp_all add: c_ssize_id)
    note q = blk_inv_consume [OF assms k]
    let ?d = "c\<lparr>hc_decoded_body := b, hc_decoded_body_len := l, hc_recv_buf := buf_consume ?k (hc_recv_buf c), hc_chunk_remaining := 0\<rparr>"
    have "blk_inv ?d w1" "blk_left ?d w1 \<le> blk_left c w"
      using q by (auto simp: w1 blk_inv_def blk_left_def plain_unread_def)
    then show ?thesis by (rule chunk_end_progress)
  qed
  show ?thesis
    using False m end_ok blk_inv_req [OF assms] by (simp add: http_client_worktask_read_body_chunked_def Let_def)
qed

lemma body_check_progress:
  assumes "blk_inv c w" "blk_left c w < n \<or> \<not> hd_size (hc_recv_buf c) < hc_content_length c"
  shows "progress n (body_check c w)"
  using assms blk_inv_req [OF assms(1)] by (auto simp: body_check_def req_kept_def)

lemma body_progress:
  assumes "blk_inv c w"
  shows "progress (blk_left c w) (http_client_worktask_read_body mb c w)"
proof -
  obtain k bs c1 w1 where r: "client_read mb 1023 c w = (k, bs, c1, w1)" by (metis prod_cases4)
  note def = http_client_worktask_read_body_def [of mb c w, unfolded r prod.case]
  show ?thesis
  proof (rule read_cases [OF assms r])
    assume a: "0 < k" "c1 = c" "bs \<noteq> []" "blk_inv c w1" "blk_left c w1 + length bs < blk_left c w"
      "hd_size (hc_recv_buf c) + int (length bs) + int (length (plain_unread (hc_transport c) w1)) < 2 ^ 31"
    show ?thesis
    proof (cases "client_append bs c1 w1")
      case (Inr x)
      obtain s c2 w2 where x: "x = (s, c2, w2)" by (cases x)
      note q = append_cases [OF Inr [unfolded x a(2)] a(4,3,6)]
      have "progress (blk_left c w) (body_check c2 w2)" using body_check_progress [OF q(1)] q(2) a(5) by simp
      then show ?thesis unfolding def using Inr x a blk_inv_req [OF q(1)] by simp
    qed (use a in \<open>simp add: def\<close>)
  next
    assume "k = 0" "c1 = c" "blk_inv c w1" "blk_left c w1 = blk_left c w" "w1 = w"
    then show ?thesis
      unfolding def using body_check_progress [of c w "blk_left c w"] blk_inv_req [OF assms] by simp
  qed (use def blk_inv_req in auto)
qed

lemma reading_progress:
  assumes "blk_inv c w" "reading (hc_state c)"
  shows "\<exists>r. blocking_step mb c w = Some r \<and> progress (blk_left c w) r"
  using assms firstline_progress headers_progress decipher_progress chunked_progress body_progress
  by (auto simp: reading_def blocking_step_def)

section \<open>The loop\<close>

lemma exit_ends: "req_kept c \<Longrightarrow> \<exists>r. blocking_exit mb code c w = Some r"
proof -
  assume k: "req_kept c"
  have "http_parser_dispose (hc_req c) (hc_resp c) \<noteq> None"
  proof (cases "hc_req c")
    case None
    then show ?thesis by (cases "hc_resp c") (simp_all add: http_parser_dispose_def)
  qed (use k in \<open>simp add: req_kept_def dispose_req_wf\<close>)
  then show ?thesis
    by (auto simp: blocking_exit_def http_client_destroy_def http_client_dispose_def Let_def out_bind_def
        split: prod.splits option.splits sum.splits)
qed

lemma exit_ends_if: "req_kept c \<Longrightarrow> hc_state c \<in> {HTTP_CLIENT_ERROR, HTTP_CLIENT_DISPOSING, HTTP_CLIENT_WAITING_CONNECT} \<Longrightarrow>
    \<exists>r. blocking_loop mb timeout_ms start c w = Some r"
  using exit_ends [of c] by (subst blocking_loop.simps) (auto simp: blocking_step_def split: prod.splits)

lemma loop_step:
  assumes "req_kept c" "blocking_step mb c (snd (SystemMonotonicMS w)) = Some r" "r \<noteq> None"
    and "\<And>st c1 w1. r = ret (st, c1, w1) \<Longrightarrow> \<exists>x. blocking_loop mb timeout_ms start (c1\<lparr>hc_state := st\<rparr>) w1 = Some x"
  shows "\<exists>x. blocking_loop mb timeout_ms start c w = Some x"
  using assms exit_ends [OF assms(1)]
  by (subst blocking_loop.simps) (auto split: prod.splits option.splits sum.splits)

lemma returning_ends:
  assumes "req_kept c" "hc_state c = HTTP_CLIENT_RETURNING"
  shows "\<exists>r. blocking_loop mb timeout_ms start c w = Some r"
proof (rule loop_step [OF assms(1)])
  let ?w = "snd (SystemMonotonicMS w)"
  show "blocking_step mb c ?w = Some (http_client_worktask_returning c ?w)" using assms(2) by (simp add: blocking_step_def)
  show "http_client_worktask_returning c ?w \<noteq> None"
    by (auto simp: http_client_worktask_returning_def Let_def split: option.splits prod.splits sum.splits)
  fix st c1 w1 assume "http_client_worktask_returning c ?w = ret (st, c1, w1)"
  then have "st \<in> {HTTP_CLIENT_ERROR, HTTP_CLIENT_DISPOSING}" "req_kept c1"
    using assms(1) by (auto simp: http_client_worktask_returning_def Let_def req_kept_def split: if_splits option.splits prod.splits sum.splits)
  then show "\<exists>x. blocking_loop mb timeout_ms start (c1\<lparr>hc_state := st\<rparr>) w1 = Some x"
    by (intro exit_ends_if) (auto simp: req_kept_def)
qed

lemma blk_clock [simp]:
  "blk_inv c (snd (SystemMonotonicMS w)) = blk_inv c w" "blk_left c (snd (SystemMonotonicMS w)) = blk_left c w"
  by (simp_all add: blk_inv_def blk_left_def plain_unread_def)

lemma reading_ends:
  assumes "blk_inv c w" "reading (hc_state c)"
  shows "\<exists>r. blocking_loop mb timeout_ms start c w = Some r"
  using assms
proof (induction "blk_left c w" arbitrary: c w rule: less_induct)
  case less
  let ?w = "snd (SystemMonotonicMS w)"
  obtain r where r: "blocking_step mb c ?w = Some r" "progress (blk_left c w) r"
    using reading_progress [of c ?w mb] less.prems by auto
  show ?case
  proof (rule loop_step [OF blk_inv_req [OF less.prems(1)] r(1)])
    show "r \<noteq> None" using r(2) by (cases r) (simp_all add: progress_def)
    fix st c1 w1 assume "r = ret (st, c1, w1)"
    then have p: "req_kept c1" "st \<in> {HTTP_CLIENT_RETURNING, HTTP_CLIENT_ERROR} \<or> reading st \<and> blk_inv c1 w1 \<and> blk_left c1 w1 < blk_left c w"
      using r(2) by (simp_all add: progress_def)
    then have k: "req_kept (c1\<lparr>hc_state := st\<rparr>)" by (simp add: req_kept_def)
    from p(2) show "\<exists>x. blocking_loop mb timeout_ms start (c1\<lparr>hc_state := st\<rparr>) w1 = Some x"
      using returning_ends [OF k] exit_ends_if [OF k] less.hyps [of "c1\<lparr>hc_state := st\<rparr>" w1] by auto
  qed
qed

end
