(* ===== verification/HTTP_Chunked.thy ===== *)
theory HTTP_Chunked imports HTTP_Stream begin

text \<open>
  Chunked bodies as \<^verbatim>\<open>http_client_worktask_decipher_chonkiness\<close> and
  \<^verbatim>\<open>http_client_worktask_read_body_chunked\<close> of \<^verbatim>\<open>modules/src/http_client.c\<close> read them: the invariant of
  the two states over any byte stream, that runs over a plain connection hand out exactly the chunks'
  data, when they get to the end, and what happens to a terminator that a read cuts and to a body without
  chunks.
\<close>

section \<open>Facts: chunked bodies\<close>

text \<open>A size line that the client reads as \<open>n\<close>: digits, perhaps followed by an extension.\<close>

definition size_line :: "cstring \<Rightarrow> nat \<Rightarrow> bool" where
  "size_line ln n \<longleftrightarrow> CR \<notin> set ln \<and> 0 < chunk_parse_len ln (length ln) \<and> chunk_parse_len ln (length ln) < 48 \<and>
     strtoull16 (c_str (take (chunk_parse_len ln (length ln)) ln)) = Some (int n)"

definition valid_chunk :: "cstring \<times> byte list \<Rightarrow> bool" where
  "valid_chunk p \<longleftrightarrow> size_line (fst p) (length (snd p)) \<and> snd p \<noteq> [] \<and> length (snd p) < 2 ^ 31"

definition chunk_text :: "(cstring \<times> byte list) list \<Rightarrow> byte list" where
  "chunk_text cs = concat (map (\<lambda>p. fst p @ CRLF @ snd p @ CRLF) cs)"

definition chunked_text :: "(cstring \<times> byte list) list \<Rightarrow> cstring \<Rightarrow> byte list \<Rightarrow> byte list" where
  "chunked_text cs ln0 rest = chunk_text cs @ ln0 @ CRLF @ CRLF @ rest"

lemma chunked_text_Cons: "chunked_text (p # cs) ln0 rest = fst p @ CRLF @ snd p @ CRLF @ chunked_text cs ln0 rest"
  by (simp add: chunked_text_def chunk_text_def)

lemma chunked_text_Nil: "chunked_text [] ln0 rest = ln0 @ CRLF @ CRLF @ rest"
  by (simp add: chunked_text_def chunk_text_def)

lemma chunk_parse_len_append:
  "chunk_parse_len (ln @ r) (length ln) = chunk_parse_len ln (length ln)" (is "?a = ?b")
  "chunk_parse_len ln (length ln) \<le> length ln"
proof -
  have "find (\<lambda>i. (ln @ r) ! i = CHR '';'' \<or> (ln @ r) ! i = SP \<or> (ln @ r) ! i = TAB) [0..<length ln] =
      find (\<lambda>i. ln ! i = CHR '';'' \<or> ln ! i = SP \<or> ln ! i = TAB) [0..<length ln]"
    by (rule find_cong) (auto simp: nth_append)
  then show "?a = ?b" by (simp add: chunk_parse_len_def)
  show "?b \<le> length ln" by (auto simp: chunk_parse_len_def find_upt_Some_iff split: option.split)
qed

lemma size_line_read:
  assumes "size_line ln n"
  shows "strtoull16 (c_str (take (chunk_parse_len (ln @ r) (length ln)) (ln @ r))) = Some (int n)"
    "0 < chunk_parse_len (ln @ r) (length ln)" "chunk_parse_len (ln @ r) (length ln) < 48"
  using assms chunk_parse_len_append(2) [of ln] by (simp_all add: size_line_def chunk_parse_len_append(1))

text \<open>The first line end of a buffer that holds the beginning of a stream.\<close>

lemma find_line_end_stream:
  assumes "buf @ r = ln @ CRLF @ s" "CR \<notin> set ln" "length buf < 2 ^ 31"
  obtains "http_parser_find_line_end buf (length buf) = -1"
  | s' where "http_parser_find_line_end buf (length buf) = int (length ln)" "buf = ln @ CRLF @ s'" "s = s' @ r"
proof (rule find_line_end_cases [OF assms(3) order_refl])
  assume "http_parser_find_line_end buf (length buf) = -1"
  then show thesis by (rule that(1))
next
  fix i assume i: "http_parser_find_line_end buf (length buf) = int i" "Suc i < length buf" "crlf_at buf i"
    "\<forall>j<i. \<not> crlf_at buf j"
  have pre: "crlf_at (buf @ r) j = crlf_at buf j" if "Suc j < length buf" for j
    using that by (simp add: crlf_at_def nth_append)
  have "\<not> i < length ln"
    using no_crlf_in_line [OF assms(2), of "[]" i "CRLF @ s"] pre [OF i(2)] i(3) assms(1) by auto
  moreover have "\<not> length ln < i"
    using crlf_in_append [of "[]" ln s] pre [of "length ln"] i(2,4) assms(1) by auto
  ultimately have ln: "i = length ln" by simp
  let ?k = "length (ln @ CRLF)"
  have k: "?k \<le> length buf" using i(2) ln by (simp add: CRLF_def)
  have e: "buf @ r = (ln @ CRLF) @ s" using assms(1) by simp
  have "take ?k buf = ln @ CRLF" using arg_cong [OF e, of "take ?k"] k by simp
  moreover have "drop ?k buf @ r = s" using arg_cong [OF e, of "drop ?k"] k by simp
  ultimately show thesis
    using that(2) [of "drop ?k buf"] i(1) ln append_take_drop_id [of ?k buf] by simp
qed

section \<open>The decoded body\<close>

definition decoded :: "'s HTTP_Client \<Rightarrow> byte list" where
  "decoded c = block_contents (hc_decoded_body c) (hc_decoded_body_len c)"

definition decoded_ok :: "'s HTTP_Client \<Rightarrow> bool" where
  "decoded_ok c \<longleftrightarrow> block_inv (hc_decoded_body c) (hc_decoded_body_len c)"

lemma decoded_extend:
  assumes "block_inv b n" "n + int (length data) < 2 ^ 32"
  shows "block_inv (Some ((block_write (block_realloc (nat (n + int (length data) + 1)) b) (nat n) data)
            [nat (n + int (length data)) := NUL])) (n + int (length data))"
    "block_contents (Some ((block_write (block_realloc (nat (n + int (length data) + 1)) b) (nat n) data)
            [nat (n + int (length data)) := NUL])) (n + int (length data)) = block_contents b n @ data"
    "int (length (block_realloc (nat (n + int (length data) + 1)) b)) = n + int (length data) + 1"
proof -
  let ?m = "nat n + length data"
  define blk where "blk = block_realloc (nat (n + int (length data) + 1)) b"
  have n: "0 \<le> n" "nat n \<le> length (block_bytes b)" "nat (n + int (length data)) = ?m"
      "nat (n + int (length data) + 1) = Suc ?m"
    using assms(1) by (auto simp: block_inv_def)
  have len: "length blk = Suc ?m" using n by (simp add: blk_def block_realloc_def min_def)
  have tk: "take (nat n) blk = take (nat n) (block_bytes b)"
    using n by (simp add: blk_def block_realloc_def min_def)
  show "int (length blk) = n + int (length data) + 1" using len n(1) by simp
  show "block_inv (Some ((block_write blk (nat n) data)[nat (n + int (length data)) := NUL])) (n + int (length data))"
    using n len assms(2) by (simp add: block_inv_def block_bytes_def block_write_def)
  show "block_contents (Some ((block_write blk (nat n) data)[nat (n + int (length data)) := NUL]))
      (n + int (length data)) = block_contents b n @ data"
    using n len tk by (simp add: block_contents_def block_bytes_def block_write_def)
qed

text \<open>
  The invariant of chunked reading for a stream that encodes \<open>body\<close>: in each state, what has been
  decoded followed by what the rest of the stream encodes is \<open>body\<close>.
\<close>

definition chunks_left :: "byte list \<Rightarrow> byte list \<Rightarrow> byte list \<Rightarrow> byte list \<Rightarrow> bool" where
  "chunks_left body rest done s \<longleftrightarrow>
     (\<exists>cs ln0. list_all valid_chunk cs \<and> size_line ln0 0 \<and> s = chunked_text cs ln0 rest \<and>
        done @ concat (map snd cs) = body)"

definition chunk_inv ::
  "('s Transport \<Rightarrow> world \<Rightarrow> bool) \<Rightarrow> ('s Transport \<Rightarrow> world \<Rightarrow> byte list) \<Rightarrow> byte list \<Rightarrow> byte list \<Rightarrow>
     HTTPClientState \<Rightarrow> 's HTTP_Client \<Rightarrow> world \<Rightarrow> bool" where
  "chunk_inv up unread body rest st c w \<longleftrightarrow>
     (case st of
        HTTP_CLIENT_DECIPHER_CHONKINESS \<Rightarrow>
          client_ready up unread c w \<and> decoded_ok c \<and>
          (chunks_left body rest (decoded c) (stream_of unread c w) \<or>
           decoded c = body \<and> stream_of unread c w = CRLF @ rest)
      | HTTP_CLIENT_READING_BODY_CHUNKED \<Rightarrow>
          client_ready up unread c w \<and> decoded_ok c \<and>
          (\<exists>d s. hc_chunk_remaining c = int (length d) \<and> stream_of unread c w = d @ CRLF @ s \<and>
             chunks_left body rest (decoded c @ d) s)
      | HTTP_CLIENT_RETURNING \<Rightarrow> decoded_ok c \<and> decoded c = body \<and> buf_ok (hc_recv_buf c)
      | HTTP_CLIENT_ERROR \<Rightarrow> True
      | _ \<Rightarrow> False)"

lemma prefix_append_split:
  assumes "xs @ r = d @ s" "length d \<le> length xs"
  obtains b where "xs = d @ b" "b @ r = s"
proof -
  have "take (length d) xs = d" using arg_cong [OF assms(1), of "take (length d)"] assms(2) by simp
  moreover have "drop (length d) xs @ r = s" using arg_cong [OF assms(1), of "drop (length d)"] assms(2) by simp
  ultimately show thesis using that [of "drop (length d) xs"] append_take_drop_id [of "length d" xs] by simp
qed

lemma contents_prefix:
  assumes "contents d = x @ y"
  shows "take (length x) (block_bytes (hd_addr d)) = x" "length x \<le> length (block_bytes (hd_addr d))"
proof -
  have "block_bytes (hd_addr d) = x @ y @ drop (nat (hd_size d)) (block_bytes (hd_addr d))"
    using assms append_take_drop_id [of "nat (hd_size d)" "block_bytes (hd_addr d)"]
    by (simp add: contents_def block_contents_def)
  then obtain z where "block_bytes (hd_addr d) = x @ z" by blast
  then show "take (length x) (block_bytes (hd_addr d)) = x" "length x \<le> length (block_bytes (hd_addr d))"
    by simp_all
qed

lemma stream_job:
  assumes "hc_recv_buf c' = hc_recv_buf c" "hc_transport c' = hc_transport c"
  shows "stream_of u c' w = stream_of u c w" "client_ready p u c' w = client_ready p u c w"
  using assms by (simp_all add: stream_of_def client_ready_def)

text \<open>What the client looks like once the data \<open>d\<close> of a chunk has moved to the decoded body \<open>nb\<close>.\<close>

definition chunk_moved :: "'s HTTP_Client \<Rightarrow> byte list \<Rightarrow> byte list \<Rightarrow> 's HTTP_Client" where
  "chunk_moved c d nb = c\<lparr>hc_decoded_body := Some nb, hc_decoded_body_len := hc_decoded_body_len c + int (length d),
     hc_recv_buf := buf_consume (int (length d)) (hc_recv_buf c), hc_chunk_remaining := 0\<rparr>"

context byte_stream begin

abbreviation inv where "inv \<equiv> chunk_inv up unread"

lemma consume_stream:
  assumes "ready c w" "contents (hc_recv_buf c) = a @ b"
  shows "ready (c\<lparr>hc_recv_buf := buf_consume (int (length a)) (hc_recv_buf c)\<rparr>) w"
    "stream (c\<lparr>hc_recv_buf := buf_consume (int (length a)) (hc_recv_buf c)\<rparr>) w = b @ unread (hc_transport c) w"
    "contents (buf_consume (int (length a)) (hc_recv_buf c)) = b"
proof -
  have ok: "buf_ok (hc_recv_buf c)" using assms(1) by (simp add: ready_def)
  have "int (length a) \<le> hd_size (hc_recv_buf c)" using contents_length [OF ok] assms(2) by simp
  from buf_consume_ok [OF ok _ this] assms
  show "ready (c\<lparr>hc_recv_buf := buf_consume (int (length a)) (hc_recv_buf c)\<rparr>) w"
    "stream (c\<lparr>hc_recv_buf := buf_consume (int (length a)) (hc_recv_buf c)\<rparr>) w = b @ unread (hc_transport c) w"
    "contents (buf_consume (int (length a)) (hc_recv_buf c)) = b"
    by (simp_all add: ready_def stream_def)
qed

lemma fill_keeps:
  assumes "ready c w" "0 < len"
    and "\<And>t d w'. ready (c\<lparr>hc_transport := t, hc_recv_buf := d\<rparr>) w' \<Longrightarrow>
       stream (c\<lparr>hc_transport := t, hc_recv_buf := d\<rparr>) w' = stream c w \<Longrightarrow>
       inv body rest again (c\<lparr>hc_transport := t, hc_recv_buf := d\<rparr>) w'"
  shows "\<exists>st c' w'. client_fill mb len again c w = ret (st, c', w') \<and> inv body rest st c' w' \<and> same_job c c' \<and>
     w_delivered w' = w_delivered w"
proof -
  obtain st t d w' where f: "client_fill mb len again c w = ret (st, c\<lparr>hc_transport := t, hc_recv_buf := d\<rparr>, w')"
      "w_delivered w' = w_delivered w"
      "st = HTTP_CLIENT_ERROR \<or> st = again \<and> ready (c\<lparr>hc_transport := t, hc_recv_buf := d\<rparr>) w' \<and>
        stream (c\<lparr>hc_transport := t, hc_recv_buf := d\<rparr>) w' = stream c w"
    using client_fill_law [OF assms(1,2)] by blast
  then have "inv body rest st (c\<lparr>hc_transport := t, hc_recv_buf := d\<rparr>) w'"
    using assms(3) by (auto simp: chunk_inv_def)
  with f show ?thesis by (force simp: same_job_def)
qed

lemma decoded_transport [simp]:
  "decoded (c\<lparr>hc_transport := t\<rparr>) = decoded c" "decoded_ok (c\<lparr>hc_transport := t\<rparr>) = decoded_ok c"
  "decoded (c\<lparr>hc_recv_buf := d\<rparr>) = decoded c" "decoded_ok (c\<lparr>hc_recv_buf := d\<rparr>) = decoded_ok c"
  by (simp_all add: decoded_def decoded_ok_def)

lemma last_chunk_step:
  assumes "ready c w" "decoded_ok c" "decoded c = body" "stream c w = CRLF @ rest"
  shows "\<exists>st c' w'. last_chunk mb c w = ret (st, c', w') \<and> inv body rest st c' w' \<and> same_job c c' \<and>
     w_delivered w' = w_delivered w"
proof -
  let ?buf = "contents (hc_recv_buf c)"
  have ok: "buf_ok (hc_recv_buf c)" "length ?buf < 2 ^ 31" using assms(1) by (auto simp: ready_def stream_def)
  have v: "buf_view (hc_recv_buf c) = Inr ?buf" using ok(1) by (rule buf_view_ok)
  have e: "?buf @ unread (hc_transport c) w = [CR, LF] @ rest" using assms(4) by (simp add: stream_def CRLF_def)
  show ?thesis
  proof (cases "length ?buf \<ge> 2")
    case True
    then obtain b where b: "?buf = [CR, LF] @ b"
      using e by (cases ?buf; cases "tl ?buf") auto
    then have "last_chunk mb c w = ret (HTTP_CLIENT_RETURNING, c\<lparr>hc_recv_buf := buf_consume 2 (hc_recv_buf c)\<rparr>, w)"
      using v by (simp add: last_chunk_def)
    moreover have "inv body rest HTTP_CLIENT_RETURNING (c\<lparr>hc_recv_buf := buf_consume 2 (hc_recv_buf c)\<rparr>) w"
      using consume_stream(1) [OF assms(1) b] assms(2,3) by (simp add: chunk_inv_def ready_def)
    ultimately show ?thesis by (force simp: same_job_def)
  next
    case False
    then have "http_parser_find_headers_end ?buf (length ?buf) = -1"
      by (intro find_headers_end_none) auto
    then have "last_chunk mb c w = client_fill mb 1023 HTTP_CLIENT_DECIPHER_CHONKINESS c w"
      using v False by (simp add: last_chunk_def)
    moreover have "\<exists>st c' w'. client_fill mb 1023 HTTP_CLIENT_DECIPHER_CHONKINESS c w = ret (st, c', w') \<and>
        inv body rest st c' w' \<and> same_job c c' \<and> w_delivered w' = w_delivered w"
      using assms by (intro fill_keeps) (auto simp: chunk_inv_def)
    ultimately show ?thesis by simp
  qed
qed

lemma decipher_line:
  assumes "ready c w" "contents (hc_recv_buf c) = ln @ CRLF @ s'"
    and "http_parser_find_line_end (contents (hc_recv_buf c)) (length (contents (hc_recv_buf c))) = int (length ln)"
    and "size_line ln n" "n < 2 ^ 31"
  shows "http_client_worktask_decipher_chonkiness mb c w =
     (let c1 = c\<lparr>hc_recv_buf := buf_consume (int (length ln) + 2) (hc_recv_buf c)\<rparr> in
      if n = 0 then last_chunk mb c1 w
      else ret (HTTP_CLIENT_READING_BODY_CHUNKED, c1\<lparr>hc_chunk_remaining := int n\<rparr>, w))"
proof -
  have ok: "buf_ok (hc_recv_buf c)" using assms(1) by (simp add: ready_def)
  have "c_ssize (int n) = int n" "c_size (c_int (int n)) = int n" using assms(5) by (simp_all add: c_conv)
  then show ?thesis
    using size_line_read [OF assms(4), of "CRLF @ s'"] assms(2,3) buf_view_ok [OF ok]
    by (simp add: http_client_worktask_decipher_chonkiness_def Let_def)
qed

text \<open>A size line that is in the buffer, and what follows it.\<close>

lemma line_consumed:
  assumes "ready c w" "contents (hc_recv_buf c) = ln @ CRLF @ s'" "s = s' @ unread (hc_transport c) w"
  shows "ready (c\<lparr>hc_recv_buf := buf_consume (int (length ln) + 2) (hc_recv_buf c)\<rparr>) w"
    "stream (c\<lparr>hc_recv_buf := buf_consume (int (length ln) + 2) (hc_recv_buf c)\<rparr>) w = s"
proof -
  have b: "contents (hc_recv_buf c) = (ln @ CRLF) @ s'" using assms(2) by simp
  have l: "int (length (ln @ CRLF)) = int (length ln) + 2" by (simp add: CRLF_def)
  show "ready (c\<lparr>hc_recv_buf := buf_consume (int (length ln) + 2) (hc_recv_buf c)\<rparr>) w"
    "stream (c\<lparr>hc_recv_buf := buf_consume (int (length ln) + 2) (hc_recv_buf c)\<rparr>) w = s"
    using consume_stream [OF assms(1) b] assms(3) unfolding l by simp_all
qed

lemma decipher_fill:
  assumes "inv body rest HTTP_CLIENT_DECIPHER_CHONKINESS c w"
    and "http_parser_find_line_end (contents (hc_recv_buf c)) (length (contents (hc_recv_buf c))) = -1"
  shows "\<exists>st c' w'. http_client_worktask_decipher_chonkiness mb c w = ret (st, c', w') \<and>
     inv body rest st c' w' \<and> same_job c c' \<and> w_delivered w' = w_delivered w"
proof -
  have rd: "ready c w" using assms(1) by (auto simp: chunk_inv_def)
  then have "buf_view (hc_recv_buf c) = Inr (contents (hc_recv_buf c))" by (intro buf_view_ok) (simp add: ready_def)
  then have "http_client_worktask_decipher_chonkiness mb c w = client_fill mb 1023 HTTP_CLIENT_DECIPHER_CHONKINESS c w"
    using assms(2) by (simp add: http_client_worktask_decipher_chonkiness_def)
  moreover have "\<exists>st c' w'. client_fill mb 1023 HTTP_CLIENT_DECIPHER_CHONKINESS c w = ret (st, c', w') \<and>
      inv body rest st c' w' \<and> same_job c c' \<and> w_delivered w' = w_delivered w"
    using assms(1) rd by (intro fill_keeps) (auto simp: chunk_inv_def)
  ultimately show ?thesis by simp
qed

lemma decipher_more:
  assumes "ready c w" "decoded_ok c" "valid_chunk p" "list_all valid_chunk cs" "size_line ln0 0"
    and "decoded c @ snd p @ concat (map snd cs) = body"
    and "http_parser_find_line_end (contents (hc_recv_buf c)) (length (contents (hc_recv_buf c))) = int (length (fst p))"
    and "contents (hc_recv_buf c) = fst p @ CRLF @ s'" "snd p @ CRLF @ chunked_text cs ln0 rest = s' @ unread (hc_transport c) w"
  shows "\<exists>st c' w'. http_client_worktask_decipher_chonkiness mb c w = ret (st, c', w') \<and>
     inv body rest st c' w' \<and> same_job c c' \<and> w_delivered w' = w_delivered w"
proof -
  have sl: "size_line (fst p) (length (snd p))" "length (snd p) < 2 ^ 31" "snd p \<noteq> []"
    using assms(3) by (auto simp: valid_chunk_def)
  let ?c1 = "c\<lparr>hc_recv_buf := buf_consume (int (length (fst p)) + 2) (hc_recv_buf c)\<rparr>"
  let ?c2 = "?c1\<lparr>hc_chunk_remaining := int (length (snd p))\<rparr>"
  have "ready ?c2 w" "stream ?c2 w = snd p @ CRLF @ chunked_text cs ln0 rest"
    using line_consumed [OF assms(1,8,9)] stream_job [of ?c2 ?c1] by simp_all
  moreover have "chunks_left body rest (decoded c @ snd p) (chunked_text cs ln0 rest)"
    using assms(4-6) by (auto simp: chunks_left_def)
  ultimately have "inv body rest HTTP_CLIENT_READING_BODY_CHUNKED ?c2 w"
    using assms(2) by (auto simp: chunk_inv_def decoded_def decoded_ok_def)
  then show ?thesis
    using decipher_line [OF assms(1,8,7) sl(1,2)] sl(3) by (simp add: Let_def same_job_def)
qed

text \<open>What may stand in front of the client in this state.\<close>

lemma decipher_cases:
  assumes "inv body rest HTTP_CLIENT_DECIPHER_CHONKINESS c w"
  obtains (fin) "decoded c = body" "contents (hc_recv_buf c) @ unread (hc_transport c) w = [] @ CRLF @ rest"
    | (last) ln0 where "size_line ln0 0" "contents (hc_recv_buf c) @ unread (hc_transport c) w = ln0 @ CRLF @ (CRLF @ rest)" "decoded c = body"
    | (more) p cs ln0 where "valid_chunk p" "list_all valid_chunk cs" "size_line ln0 0"
        "contents (hc_recv_buf c) @ unread (hc_transport c) w = fst p @ CRLF @ (snd p @ CRLF @ chunked_text cs ln0 rest)"
        "decoded c @ snd p @ concat (map snd cs) = body"
proof -
  from assms consider "decoded c = body" "stream c w = CRLF @ rest"
    | "chunks_left body rest (decoded c) (stream c w)"
    by (auto simp: chunk_inv_def)
  then show thesis
  proof cases
    case 1
    then show thesis using fin by (simp add: stream_def)
  next
    case 2
    then obtain cs ln0 where cs: "list_all valid_chunk cs" "size_line ln0 0"
        "stream c w = chunked_text cs ln0 rest" "decoded c @ concat (map snd cs) = body"
      by (auto simp: chunks_left_def)
    then show thesis
      using last [of ln0] more [of "hd cs" "tl cs" ln0]
      by (cases cs) (simp_all add: stream_def chunked_text_Cons chunked_text_Nil)
  qed
qed

lemma decipher_step:
  assumes "inv body rest HTTP_CLIENT_DECIPHER_CHONKINESS c w"
  shows "\<exists>st c' w'. http_client_worktask_decipher_chonkiness mb c w = ret (st, c', w') \<and>
     inv body rest st c' w' \<and> same_job c c' \<and> w_delivered w' = w_delivered w"
proof -
  let ?buf = "contents (hc_recv_buf c)"
  let ?le = "http_parser_find_line_end ?buf (length ?buf)"
  have rd: "ready c w" "decoded_ok c" using assms by (auto simp: chunk_inv_def)
  then have ok: "buf_ok (hc_recv_buf c)" "length ?buf < 2 ^ 31" by (auto simp: ready_def stream_def)
  note fill = decipher_fill [OF assms]
  show ?thesis
  proof (rule decipher_cases [OF assms], goal_cases)
    case 1
    show ?thesis
    proof (rule find_line_end_stream [OF 1(2) _ ok(2)])
      fix s' assume "?le = int (length [])"
      then have "http_client_worktask_decipher_chonkiness mb c w = ret (HTTP_CLIENT_ERROR, c, w)"
        using buf_view_ok [OF ok(1)] by (simp add: http_client_worktask_decipher_chonkiness_def chunk_parse_len_def)
      then show ?thesis by (simp add: chunk_inv_def same_job_def)
    qed (use fill in auto)
  next
    case (2 ln0)
    show ?thesis
    proof (rule find_line_end_stream [OF 2(2) _ ok(2)])
      show "CR \<notin> set ln0" using 2(1) by (simp add: size_line_def)
    next
      fix s' assume s': "?le = int (length ln0)" "?buf = ln0 @ CRLF @ s'" "CRLF @ rest = s' @ unread (hc_transport c) w"
      let ?c1 = "c\<lparr>hc_recv_buf := buf_consume (int (length ln0) + 2) (hc_recv_buf c)\<rparr>"
      show ?thesis
        using line_consumed [OF rd(1) s'(2,3)] last_chunk_step [of ?c1 w body rest] rd(2) 2(3) decipher_line [OF rd(1) s'(2,1) 2(1)]
        by (auto simp: Let_def same_job_def)
    qed (use fill in auto)
  next
    case (3 p cs ln0)
    show ?thesis
    proof (rule find_line_end_stream [OF 3(4) _ ok(2)])
      show "CR \<notin> set (fst p)" using 3(1) by (simp add: valid_chunk_def size_line_def)
    qed (use fill decipher_more [OF rd 3(1-3,5)] in auto)
  qed
qed

lemma chunk_end_step:
  assumes "ready c w" "decoded_ok c" "hc_chunk_remaining c = 0" "stream c w = CRLF @ s"
    and "chunks_left body rest (decoded c) s"
  shows "\<exists>st c' w'. chunk_end mb c w = ret (st, c', w') \<and> inv body rest st c' w' \<and> same_job c c' \<and>
     w_delivered w' = w_delivered w"
proof -
  let ?buf = "contents (hc_recv_buf c)"
  have ok: "buf_ok (hc_recv_buf c)" using assms(1) by (auto simp: ready_def)
  have v: "buf_view (hc_recv_buf c) = Inr ?buf" using ok(1) by (rule buf_view_ok)
  have e: "?buf @ unread (hc_transport c) w = [CR, LF] @ s" using assms(4) by (simp add: stream_def CRLF_def)
  have sz: "hd_size (hc_recv_buf c) = int (length ?buf)" using contents_length [OF ok] by simp
  show ?thesis
  proof (cases "length ?buf \<ge> 2")
    case True
    then obtain b where b: "?buf = [CR, LF] @ b" "b @ unread (hc_transport c) w = s"
      using e by (cases ?buf; cases "tl ?buf") auto
    let ?c = "c\<lparr>hc_recv_buf := buf_consume 2 (hc_recv_buf c)\<rparr>"
    have "chunk_end mb c w = ret (HTTP_CLIENT_DECIPHER_CHONKINESS, ?c, w)"
      using v sz b by (simp add: chunk_end_def)
    moreover have "inv body rest HTTP_CLIENT_DECIPHER_CHONKINESS ?c w"
      using consume_stream(1,2) [OF assms(1) b(1)] b(2) assms(2,5) by (simp add: chunk_inv_def)
    ultimately show ?thesis by (force simp: same_job_def)
  next
    case False
    then have "chunk_end mb c w = client_fill mb 1024 HTTP_CLIENT_READING_BODY_CHUNKED c w"
      using v sz by (simp add: chunk_end_def)
    moreover have "\<exists>st c' w'. client_fill mb 1024 HTTP_CLIENT_READING_BODY_CHUNKED c w = ret (st, c', w') \<and>
        inv body rest st c' w' \<and> same_job c c' \<and> w_delivered w' = w_delivered w"
      using assms by (intro fill_keeps) (auto simp: chunk_inv_def intro!: exI [of _ "[]"])
    ultimately show ?thesis by simp
  qed
qed

lemma chunks_left_length: "chunks_left body rest x s \<Longrightarrow> length x \<le> length body"
  by (auto simp: chunks_left_def)

lemma chunk_data_eq:
  assumes "ready c w" "decoded_ok c" "hc_chunk_remaining c = int (length d)" "contents (hc_recv_buf c) = d @ b"
    and "length (decoded c @ d) < 2 ^ 31"
  shows "\<exists>nb. http_client_worktask_read_body_chunked mb c w =
       (if fst (w_malloc w) then chunk_end mb (chunk_moved c d nb) (snd (w_malloc w))
        else ret (HTTP_CLIENT_ERROR, c, snd (w_malloc w))) \<and>
     decoded_ok (chunk_moved c d nb) \<and> decoded (chunk_moved c d nb) = decoded c @ d"
proof -
  let ?b = "hc_decoded_body c" and ?n = "hc_decoded_body_len c"
  have ok: "buf_ok (hc_recv_buf c)" using assms(1) by (auto simp: ready_def)
  have sz: "hd_size (hc_recv_buf c) = int (length (d @ b))" using contents_length [OF ok] assms(4) by simp
  have dl: "length d < 2 ^ 31" using assms(5) by simp
  have rem: "c_ssize (hc_chunk_remaining c) = int (length d)" using dl assms(3) by (simp add: c_conv)
  have n: "?n = int (length (decoded c))"
    using assms(2) block_contents_length [of ?b ?n] by (simp add: decoded_def decoded_ok_def)
  have small: "0 \<le> ?n" "?n + int (length d) < 2 ^ 31" using n assms(5) by simp_all
  have cs: "c_size (?n + int (length d)) = ?n + int (length d)"
      "c_size (?n + int (length d) + 1) = ?n + int (length d) + 1"
    using small by (simp_all add: c_conv)
  define blk where "blk = block_realloc (nat (?n + int (length d) + 1)) ?b"
  define nb where "nb = (block_write blk (nat ?n) d)[nat (?n + int (length d)) := NUL]"
  have ext: "block_inv (Some nb) (?n + int (length d))"
      "block_contents (Some nb) (?n + int (length d)) = decoded c @ d"
      "int (length blk) = ?n + int (length d) + 1"
    using decoded_extend [of ?b ?n d] assms(2) small(2)
    by (simp_all add: decoded_ok_def decoded_def nb_def blk_def)
  note data = contents_prefix [OF assms(4)]
  have "http_client_worktask_read_body_chunked mb c w =
       (if fst (w_malloc w) then chunk_end mb (chunk_moved c d nb) (snd (w_malloc w))
        else ret (HTTP_CLIENT_ERROR, c, snd (w_malloc w)))"
    using sz rem assms(3) cs ext(3) data
    by (simp add: http_client_worktask_read_body_chunked_def Let_def blk_def [symmetric] nb_def chunk_moved_def
        split: prod.split)
  then show ?thesis using ext by (auto simp: chunk_moved_def decoded_def decoded_ok_def)
qed

lemma chunk_data_step:
  assumes "inv body rest HTTP_CLIENT_READING_BODY_CHUNKED c w" "length body < 2 ^ 31"
  shows "\<exists>st c' w'. http_client_worktask_read_body_chunked mb c w = ret (st, c', w') \<and>
     inv body rest st c' w' \<and> same_job c c' \<and> w_delivered w' = w_delivered w"
proof -
  let ?buf = "contents (hc_recv_buf c)"
  from assms(1) obtain d s where rd: "ready c w" "decoded_ok c" and ds: "hc_chunk_remaining c = int (length d)"
      "stream c w = d @ CRLF @ s" "chunks_left body rest (decoded c @ d) s"
    by (auto simp: chunk_inv_def)
  have ok: "buf_ok (hc_recv_buf c)" using rd(1) by (auto simp: ready_def)
  have sz: "hd_size (hc_recv_buf c) = int (length ?buf)" using contents_length [OF ok] by simp
  show ?thesis
  proof (cases "length ?buf < length d")
    case True
    have "length d < 2 ^ 31" using ds(2) rd(1) by (simp add: ready_def)
    then have "http_client_worktask_read_body_chunked mb c w = client_fill mb 1023 HTTP_CLIENT_READING_BODY_CHUNKED c w"
      using True sz ds(1) by (simp add: http_client_worktask_read_body_chunked_def c_conv)
    moreover have "\<exists>st c' w'. client_fill mb 1023 HTTP_CLIENT_READING_BODY_CHUNKED c w = ret (st, c', w') \<and>
        inv body rest st c' w' \<and> same_job c c' \<and> w_delivered w' = w_delivered w"
      using rd ds by (intro fill_keeps) (auto simp: chunk_inv_def)
    ultimately show ?thesis by simp
  next
    case False
    then obtain b where b: "?buf = d @ b" "b @ unread (hc_transport c) w = CRLF @ s"
      using prefix_append_split [of ?buf "unread (hc_transport c) w" d "CRLF @ s"] ds(2)
      by (auto simp: stream_def)
    have "length (decoded c @ d) < 2 ^ 31" using chunks_left_length [OF ds(3)] assms(2) by linarith
    from chunk_data_eq [OF rd ds(1) b(1) this] obtain nb where nb:
        "http_client_worktask_read_body_chunked mb c w =
           (if fst (w_malloc w) then chunk_end mb (chunk_moved c d nb) (snd (w_malloc w))
            else ret (HTTP_CLIENT_ERROR, c, snd (w_malloc w)))"
        "decoded_ok (chunk_moved c d nb)" "decoded (chunk_moved c d nb) = decoded c @ d" by blast
    let ?w1 = "snd (w_malloc w)" and ?c1 = "chunk_moved c d nb"
    have "ready ?c1 ?w1" "stream ?c1 ?w1 = CRLF @ s"
      using consume_stream(1,2) [OF rd(1) b(1)] b(2) ready_frame [of ?w1 w ?c1] stream_frame [of ?w1 w ?c1]
        stream_job [of ?c1 "c\<lparr>hc_recv_buf := buf_consume (int (length d)) (hc_recv_buf c)\<rparr>"]
      by (simp_all add: chunk_moved_def)
    then show ?thesis
      using chunk_end_step [of ?c1 ?w1 s body rest] nb ds(3)
      by (auto simp: same_job_def chunk_moved_def chunk_inv_def)
  qed
qed

end

lemma job_simps [simp]:
  "decoded (c\<lparr>hc_retries := k\<rparr>) = decoded c" "decoded_ok (c\<lparr>hc_retries := k\<rparr>) = decoded_ok c"
  "stream_of u (c\<lparr>hc_retries := k\<rparr>) w = stream_of u c w"
  "client_ready p u (c\<lparr>hc_retries := k\<rparr>) w = client_ready p u c w"
  "decoded (c\<lparr>hc_state := st\<rparr>) = decoded c" "decoded_ok (c\<lparr>hc_state := st\<rparr>) = decoded_ok c"
  "stream_of u (c\<lparr>hc_state := st\<rparr>) w = stream_of u c w"
  "client_ready p u (c\<lparr>hc_state := st\<rparr>) w = client_ready p u c w"
  by (simp_all add: decoded_def decoded_ok_def stream_of_def client_ready_def)

section \<open>Handing out what was decoded\<close>

lemma response_source_decoded:
  assumes "decoded_ok c" "decoded c \<noteq> []"
  shows "response_source c = Inr (decoded c)"
proof -
  have "hc_decoded_body_len c > 0" "hc_decoded_body c \<noteq> None"
    using assms block_contents_length [of "hc_decoded_body c" "hc_decoded_body_len c"]
    by (cases "hc_decoded_body c"; auto simp: decoded_ok_def decoded_def block_contents_def block_bytes_def)+
  then show ?thesis
    using assms(1) buf_view_ok [of "\<lparr>hd_addr = hc_decoded_body c, hd_size = hc_decoded_body_len c\<rparr>"]
    by (simp add: response_source_def buf_ok_def decoded_ok_def contents_def decoded_def)
qed

section \<open>Runs over a chunked body\<close>

definition chunk_I :: "byte list \<Rightarrow> byte list \<Rightarrow> 's HTTP_Client \<Rightarrow> world \<Rightarrow> bool" where
  "chunk_I body rest c w \<longleftrightarrow> chunk_inv plain_up plain_unread body rest (hc_state c) c w"

lemma chunk_inv_state [simp]:
  "chunk_inv up unread body rest st (c\<lparr>hc_state := st'\<rparr>) w = chunk_inv up unread body rest st c w"
  by (cases st) (auto simp: chunk_inv_def)

lemma chunk_I_clock: "chunk_I body rest c w \<Longrightarrow> chunk_I body rest c (snd (SystemMonotonicMS w))"
  by (auto simp: chunk_I_def chunk_inv_def monotonic_ready split: HTTPClientState.splits)

lemma chunk_I_work:
  assumes "chunk_I body rest c w" "length body < 2 ^ 31" "body \<noteq> []" "\<not> hc_blocking_mode c" "hc_on_success c"
    and "hc_state c \<notin> {HTTP_CLIENT_ERROR, HTTP_CLIENT_DISPOSING}"
  shows "\<exists>st c' w'. state_work mb c w = ret (st, c', w') \<and> same_job c c' \<and>
         (st = HTTP_CLIENT_DISPOSING \<and> w_delivered w' = w_delivered w @ [(hc_context c, body)] \<or>
          st \<noteq> HTTP_CLIENT_DISPOSING \<and> w_delivered w' = w_delivered w \<and>
            (st = HTTP_CLIENT_ERROR \<or> chunk_I body rest (c'\<lparr>hc_state := st\<rparr>) w'))"
proof -
  have nd: "\<not> chunk_inv plain_up plain_unread body rest HTTP_CLIENT_DISPOSING c' w'" for c' w'
    by (simp add: chunk_inv_def)
  consider (line) "hc_state c = HTTP_CLIENT_DECIPHER_CHONKINESS"
    | (data) "hc_state c = HTTP_CLIENT_READING_BODY_CHUNKED" | (ret) "hc_state c = HTTP_CLIENT_RETURNING"
    using assms(1,6) by (auto simp: chunk_I_def chunk_inv_def split: HTTPClientState.splits)
  then show ?thesis
  proof cases
    case line
    then obtain st c' w' where "http_client_worktask_decipher_chonkiness mb c w = ret (st, c', w')"
        "chunk_inv plain_up plain_unread body rest st c' w'" "same_job c c'" "w_delivered w' = w_delivered w"
      using plain.decipher_step [of body rest c w mb] assms(1) by (auto simp: chunk_I_def)
    then show ?thesis using line nd [of c' w'] by (auto simp: state_work_def chunk_I_def)
  next
    case data
    then obtain st c' w' where "http_client_worktask_read_body_chunked mb c w = ret (st, c', w')"
        "chunk_inv plain_up plain_unread body rest st c' w'" "same_job c c'" "w_delivered w' = w_delivered w"
      using plain.chunk_data_step [of body rest c w mb] assms(1,2) by (auto simp: chunk_I_def)
    then show ?thesis using data nd [of c' w'] by (auto simp: state_work_def chunk_I_def)
  next
    case ret
    then have "response_source c = Inr body"
      using assms(1,3) response_source_decoded [of c] by (auto simp: chunk_I_def chunk_inv_def)
    then show ?thesis
    proof (rule returning_delivers [OF _ assms(4,5), of body w])
      fix w' assume "http_client_worktask_returning c w = ret (HTTP_CLIENT_ERROR, c, w')" "w_delivered w' = w_delivered w"
      then show ?thesis using ret by (simp add: state_work_def same_job_def)
    next
      fix w' assume "http_client_worktask_returning c w = ret (HTTP_CLIENT_DISPOSING, c, w')"
        "w_delivered w' = w_delivered w @ [(hc_context c, body)]"
      then show ?thesis using ret by (simp add: state_work_def same_job_def)
    qed
  qed
qed

text \<open>A client about to read a chunked body over a plain connection.\<close>

definition chunked_start :: "(cstring \<times> byte list) list \<Rightarrow> cstring \<Rightarrow> byte list \<Rightarrow> 's HTTP_Client \<Rightarrow> world \<Rightarrow> bool" where
  "chunked_start cs ln0 rest c w \<longleftrightarrow>
     hc_state c = HTTP_CLIENT_DECIPHER_CHONKINESS \<and> \<not> tr_use_tls (hc_transport c) \<and>
     buf_ok (hc_recv_buf c) \<and> hc_decoded_body c = None \<and> hc_decoded_body_len c = 0 \<and>
     \<not> hc_blocking_mode c \<and> hc_on_success c \<and>
     stream_of plain_unread c w = chunked_text cs ln0 rest \<and> length (chunked_text cs ln0 rest) < 2 ^ 31 \<and>
     list_all valid_chunk cs \<and> cs \<noteq> [] \<and> size_line ln0 0"

lemma chunked_text_length: "length (concat (map snd cs)) \<le> length (chunked_text cs ln0 rest)"
  by (induction cs) (auto simp: chunked_text_Cons chunked_text_Nil)

lemma chunked_start_inv:
  assumes "chunked_start cs ln0 rest c w"
  shows "chunk_I (concat (map snd cs)) rest c w" "length (concat (map snd cs)) < 2 ^ 31"
    "concat (map snd cs) \<noteq> []"
proof -
  have z: "decoded c = []" "decoded_ok c"
    using assms by (simp_all add: chunked_start_def decoded_def decoded_ok_def block_contents_def block_inv_def
        block_bytes_def)
  then show "chunk_I (concat (map snd cs)) rest c w"
    using assms by (auto simp: chunked_start_def chunk_I_def chunk_inv_def client_ready_def plain_up_def
        chunks_left_def)
  show "length (concat (map snd cs)) < 2 ^ 31"
    using assms chunked_text_length [of cs ln0 rest] by (simp add: chunked_start_def)
  show "concat (map snd cs) \<noteq> []"
    using assms by (cases cs) (auto simp: chunked_start_def valid_chunk_def)
qed

lemma chunked_run:
  assumes "task_run mb (c, w) (c', w')" "chunked_start cs ln0 rest c w"
  shows "job_state (chunk_I (concat (map snd cs)) rest) (concat (map snd cs)) c w c' w'"
proof -
  note st = chunked_start_inv [OF assms(2)]
  have s0: "hc_state c \<notin> {HTTP_CLIENT_ERROR, HTTP_CLIENT_DISPOSING}" "\<not> hc_blocking_mode c" "hc_on_success c"
    using assms(2) by (auto simp: chunked_start_def)
  have "job_state (chunk_I (concat (map snd cs)) rest) (concat (map snd cs)) c w (fst (c', w')) (snd (c', w'))"
    using assms(1) refl st(1) s0(1) chunk_I_clock
  proof (rule task_run_invariant)
    fix d v assume "chunk_I (concat (map snd cs)) rest d v" "same_job c d"
      "hc_state d \<notin> {HTTP_CLIENT_ERROR, HTTP_CLIENT_DISPOSING}"
    then show "\<exists>st c' w'. state_work mb d v = ret (st, c', w') \<and> same_job d c' \<and>
         (st = HTTP_CLIENT_DISPOSING \<and> w_delivered w' = w_delivered v @ [(hc_context d, concat (map snd cs))] \<or>
          st \<noteq> HTTP_CLIENT_DISPOSING \<and> w_delivered w' = w_delivered v \<and>
            (st = HTTP_CLIENT_ERROR \<or> chunk_I (concat (map snd cs)) rest (c'\<lparr>hc_state := st\<rparr>) w'))"
      using chunk_I_work [of "concat (map snd cs)" rest d v mb] st s0 by (auto simp: same_job_def)
  qed
  then show ?thesis by simp
qed

section \<open>Progress when the last lines arrive together\<close>

lemma task_run_step:
  assumes "task_run mb s (c, w)" "hc_state c \<notin> {HTTP_CLIENT_ERROR, HTTP_CLIENT_DISPOSING}"
    and "state_work mb c (snd (SystemMonotonicMS w)) = ret (st, c1, w1)"
    and "fst (SystemMonotonicMS w) \<ge> hc_next_retry_at c \<or>
      hc_state c \<in> {HTTP_CLIENT_DECIPHER_CHONKINESS, HTTP_CLIENT_READING_BODY_CHUNKED, HTTP_CLIENT_RETURNING,
        HTTP_CLIENT_BUILDING_REQUEST, HTTP_CLIENT_WAITING_CONNECT}"
  shows "task_run mb s (c1\<lparr>hc_state := st\<rparr>, w1)"
proof -
  obtain now w0 where m: "SystemMonotonicMS w = (now, w0)" by (cases "SystemMonotonicMS w")
  have "http_client_taskwork mb (Some c) 0 w = ret (Some (c1\<lparr>hc_state := st\<rparr>), w1) \<or>
      hc_state c = HTTP_CLIENT_INITIALIZING"
    using assms(2-4) m
    by (cases "hc_state c") (auto simp: http_client_taskwork_def state_work_def Let_def set_state_def)
  moreover have "http_client_taskwork mb (Some c) 0 w = ret (Some (c1\<lparr>hc_state := st\<rparr>), w1)"
    if "hc_state c = HTTP_CLIENT_INITIALIZING"
    using that assms(3) m by (auto simp: http_client_taskwork_def state_work_def)
  ultimately show ?thesis using task_run.task_step [OF assms(1,2)] by blast
qed

text \<open>What the socket of the client still has for it, event by event.\<close>

definition sock :: "'s HTTP_Client \<Rightarrow> world \<Rightarrow> rx list" where
  "sock c w = w_in w (tcp_fd (tr_tcp (hc_transport c)))"

text \<open>As long as bytes are missing, the socket delivers them in pieces that one read takes, with interruptions, and no
  piece ends inside the last two bytes of the encoding or right before them; \<open>r\<close> is the number of bytes after
  the encoding.\<close>

fun arrives_whole :: "nat \<Rightarrow> rx list \<Rightarrow> bool" where
  "arrives_whole r [] \<longleftrightarrow> True"
| "arrives_whole r (e # es) \<longleftrightarrow>
     rx_bytes (e # es) = [] \<or>
     length (rx_bytes (e # es)) \<notin> {r + 1, r + 2} \<and>
     (case e of Data bs \<Rightarrow> length bs \<le> 1023 | RxErr x \<Rightarrow> would_block x | RxEof \<Rightarrow> True) \<and> arrives_whole r es"

lemma whole_not_cut: "arrives_whole r es \<Longrightarrow> length (rx_bytes es) \<noteq> r + 1 \<and> length (rx_bytes es) \<noteq> r + 2"
  by (cases es) auto

lemma recv_arrives:
  assumes "arrives_whole r (w_in w fd)" "rx_bytes (w_in w fd) \<noteq> []" "1023 \<le> len"
  obtains w1 where "sys_recv fd len w = (-1, [], w1)" "would_block (w_errno w1)" "rx_bytes (w_in w1 fd) = rx_bytes (w_in w fd)"
      "arrives_whole r (w_in w1 fd)" "length (w_in w1 fd) < length (w_in w fd)"
    | bs w1 where "sys_recv fd len w = (int (length bs), bs, w1)" "bs \<noteq> []" "rx_bytes (w_in w fd) = bs @ rx_bytes (w_in w1 fd)"
      "arrives_whole r (w_in w1 fd)" "length (w_in w1 fd) < length (w_in w fd)"
proof -
  obtain e es where s: "w_in w fd = e # es" using assms(2) by (cases "w_in w fd") auto
  then have ok: "case e of Data bs \<Rightarrow> length bs \<le> 1023 | RxErr x \<Rightarrow> would_block x | RxEof \<Rightarrow> True" "arrives_whole r es"
    using assms(1,2) by auto
  show thesis
  proof (cases e)
    case (Data bs)
    then show thesis
      using that(1) [of "w\<lparr>w_errno := EAGAIN, w_in := (w_in w)(fd := es)\<rparr>"] that(2) [of bs "w\<lparr>w_in := (w_in w)(fd := es)\<rparr>"] s ok assms(3)
      by (cases "bs = []") (simp_all add: sys_recv_def would_block_def)
  next
    case (RxErr x)
    then show thesis
      using that(1) [of "w\<lparr>w_errno := x, w_in := (w_in w)(fd := es)\<rparr>"] s ok by (simp add: sys_recv_def)
  next
    case RxEof
    then show thesis using s assms(2) by simp
  qed
qed

lemma fill_arrives:
  assumes "client_ready plain_up plain_unread c w" "w_alloc w = []" "arrives_whole r (sock c w)"
    and "plain_unread (hc_transport c) w \<noteq> []" "1023 \<le> len"
  obtains d w' where "client_fill mb len again c w = ret (again, c\<lparr>hc_recv_buf := d\<rparr>, w')"
    "client_ready plain_up plain_unread (c\<lparr>hc_recv_buf := d\<rparr>) w'"
    "stream_of plain_unread (c\<lparr>hc_recv_buf := d\<rparr>) w' = stream_of plain_unread c w"
    "w_alloc w' = []" "arrives_whole r (sock c w')" "length (sock c w') < length (sock c w)"
proof -
  let ?fd = "tcp_fd (tr_tcp (hc_transport c))"
  have tls: "\<not> tr_use_tls (hc_transport c)" using assms(1) by (simp add: client_ready_def plain_up_def)
  have rd: "client_read mb len c w = (n, bs, c, w1)" if "sys_recv ?fd len w = (n, bs, w1)" for n bs w1
    using that tls by (simp add: client_read_def transport_read_def tcp_client_read_simple_def)
  have a: "arrives_whole r (w_in w ?fd)" "rx_bytes (w_in w ?fd) \<noteq> []" using assms(3,4) by (simp_all add: sock_def plain_unread_def)
  show thesis
  proof (rule recv_arrives [OF a assms(5)], goal_cases)
    case (1 w1)
    have "w_alloc w1 = []" using sys_recv_frame(2) [OF 1(1)] assms(2) by simp
    moreover have "stream_of plain_unread c w1 = stream_of plain_unread c w" using 1(3) by (simp add: stream_of_def plain_unread_def)
    moreover from this have "client_ready plain_up plain_unread c w1" using assms(1) by (simp add: client_ready_def plain_up_def)
    ultimately show thesis using that [of "hc_recv_buf c" w1] 1 rd [OF 1(1)] by (simp add: client_fill_def sock_def)
  next
    case (2 bs w1)
    have al: "w_alloc w1 = []" using sys_recv_frame(2) [OF 2(1)] assms(2) by simp
    have "stream_of plain_unread c w = contents (hc_recv_buf c) @ bs @ plain_unread (hc_transport c) w1"
      using 2(3) by (simp add: stream_of_def plain_unread_def)
    then obtain d where d: "client_append bs c w1 = Inr (int (length bs), c\<lparr>hc_recv_buf := d\<rparr>, w1\<lparr>w_alloc := []\<rparr>)"
        "client_ready plain_up plain_unread (c\<lparr>hc_recv_buf := d\<rparr>) (w1\<lparr>w_alloc := []\<rparr>)"
        "stream_of plain_unread (c\<lparr>hc_recv_buf := d\<rparr>) (w1\<lparr>w_alloc := []\<rparr>) = stream_of plain_unread c w"
      using plain.append_read [OF assms(1), of c "hc_transport c" w1 bs "[]"] 2(2) al tls by (auto simp: plain_up_def)
    show thesis
      by (rule that [of d "w1\<lparr>w_alloc := []\<rparr>"]) (use d 2 rd [OF 2(1)] in \<open>simp_all add: client_fill_def sock_def\<close>)
  qed
qed

lemma find_line_end_buffered:
  assumes "size_line ln n" "length (ln @ CRLF @ s) < 2 ^ 31"
  shows "http_parser_find_line_end (ln @ CRLF @ s) (length (ln @ CRLF @ s)) = int (length ln)"
  using find_line_end_found [of ln s] assms by (simp add: size_line_def)

text \<open>A client inside a chunked body whose rest arrives like that, and what it has still to do.\<close>

definition decoding :: "byte list \<Rightarrow> byte list \<Rightarrow> 's HTTP_Client \<Rightarrow> world \<Rightarrow> bool" where
  "decoding body rest c w \<longleftrightarrow>
     client_ready plain_up plain_unread c w \<and> w_alloc w = [] \<and> arrives_whole (length rest) (sock c w) \<and> decoded_ok c \<and>
     (hc_state c = HTTP_CLIENT_DECIPHER_CHONKINESS \<and> chunks_left body rest (decoded c) (stream_of plain_unread c w) \<or>
      hc_state c = HTTP_CLIENT_READING_BODY_CHUNKED \<and>
        (\<exists>d s. hc_chunk_remaining c = int (length d) \<and> stream_of plain_unread c w = d @ CRLF @ s \<and> chunks_left body rest (decoded c @ d) s))"

definition todo :: "'s HTTP_Client \<Rightarrow> world \<Rightarrow> nat" where
  "todo c w = length (sock c w) + length (stream_of plain_unread c w)"

text \<open>A step of such a client: on with less to do, or everything is decoded.\<close>

definition decoding_step :: "byte list \<Rightarrow> byte list \<Rightarrow> 's HTTP_Client \<Rightarrow> world \<Rightarrow> 's step \<Rightarrow> bool" where
  "decoding_step body rest c w r \<longleftrightarrow>
     (\<exists>st c' w'. r = ret (st, c', w') \<and> same_job c c' \<and>
        (st = HTTP_CLIENT_RETURNING \<and> decoded_ok c' \<and> decoded c' = body \<and> w_alloc w' = [] \<or>
         decoding body rest (c'\<lparr>hc_state := st\<rparr>) w' \<and> todo c' w' < todo c w))"

lemma decoding_simps [simp]:
  "todo (c\<lparr>hc_state := st\<rparr>) w = todo c w" "sock (c\<lparr>hc_state := st\<rparr>) w = sock c w" "sock (c\<lparr>hc_recv_buf := d\<rparr>) w = sock c w"
  "sock (c\<lparr>hc_chunk_remaining := n\<rparr>) w = sock c w" "same_job c (c\<lparr>hc_recv_buf := d\<rparr>)"
  by (simp_all add: todo_def sock_def same_job_def)

lemma decipher_decoding:
  assumes "decoding body rest c w" "hc_state c = HTTP_CLIENT_DECIPHER_CHONKINESS"
  shows "decoding_step body rest c w (http_client_worktask_decipher_chonkiness mb c w)"
proof -
  let ?buf = "contents (hc_recv_buf c)" and ?u = "plain_unread (hc_transport c) w"
  have D: "client_ready plain_up plain_unread c w" "w_alloc w = []" "arrives_whole (length rest) (sock c w)" "decoded_ok c"
      "chunks_left body rest (decoded c) (stream_of plain_unread c w)"
    using assms by (simp_all add: decoding_def)
  have ok: "buf_ok (hc_recv_buf c)" "length ?buf < 2 ^ 31" using D(1) by (auto simp: client_ready_def stream_of_def)
  obtain cs ln0 where cs: "list_all valid_chunk cs" "size_line ln0 0" "stream_of plain_unread c w = chunked_text cs ln0 rest"
      "decoded c @ concat (map snd cs) = body" using D(5) by (auto simp: chunks_left_def)
  obtain ln n tl where ln: "size_line ln n" "stream_of plain_unread c w = ln @ CRLF @ tl"
      "cs = [] \<and> n = 0 \<and> tl = CRLF @ rest \<or> (\<exists>p ps. cs = p # ps \<and> ln = fst p \<and> n = length (snd p) \<and> n \<noteq> 0 \<and> n < 2 ^ 31 \<and>
         tl = snd p @ CRLF @ chunked_text ps ln0 rest)"
    using cs by (cases cs) (auto simp: chunked_text_Cons chunked_text_Nil valid_chunk_def)
  have e: "?buf @ ?u = ln @ CRLF @ tl" using ln(2) by (simp add: stream_of_def)
  show ?thesis
  proof (rule find_line_end_stream [OF e _ ok(2)])
    show "CR \<notin> set ln" using ln(1) by (simp add: size_line_def)
  next
    assume m: "http_parser_find_line_end ?buf (length ?buf) = -1"
    have "?u \<noteq> []" using find_line_end_buffered [OF ln(1), of tl] e m ok(2) by (intro notI) simp
    from fill_arrives [OF D(1-3) this, of 1023 mb HTTP_CLIENT_DECIPHER_CHONKINESS] obtain d w' where f:
        "client_fill mb 1023 HTTP_CLIENT_DECIPHER_CHONKINESS c w = ret (HTTP_CLIENT_DECIPHER_CHONKINESS, c\<lparr>hc_recv_buf := d\<rparr>, w')"
        "client_ready plain_up plain_unread (c\<lparr>hc_recv_buf := d\<rparr>) w'"
        "stream_of plain_unread (c\<lparr>hc_recv_buf := d\<rparr>) w' = stream_of plain_unread c w" "w_alloc w' = []"
        "arrives_whole (length rest) (sock c w')" "length (sock c w') < length (sock c w)" by auto
    have "http_client_worktask_decipher_chonkiness mb c w = ret (HTTP_CLIENT_DECIPHER_CHONKINESS, c\<lparr>hc_recv_buf := d\<rparr>, w')"
      using m f(1) buf_view_ok [OF ok(1)] by (simp add: http_client_worktask_decipher_chonkiness_def)
    moreover have "decoding body rest (c\<lparr>hc_recv_buf := d, hc_state := HTTP_CLIENT_DECIPHER_CHONKINESS\<rparr>) w'"
      using f D(4,5) by (simp add: decoding_def)
    moreover have "todo (c\<lparr>hc_recv_buf := d\<rparr>) w' < todo c w" using f(3,6) by (simp add: todo_def)
    ultimately show ?thesis unfolding decoding_step_def by fastforce
  next
    fix s' assume s': "http_parser_find_line_end ?buf (length ?buf) = int (length ln)" "?buf = ln @ CRLF @ s'" "tl = s' @ ?u"
    let ?c1 = "c\<lparr>hc_recv_buf := buf_consume (int (length ln) + 2) (hc_recv_buf c)\<rparr>"
    note k = plain.line_consumed [OF D(1) s'(2,3)]
    from ln(3) show ?thesis
    proof (elim disjE exE conjE)
      assume z: "cs = []" "n = 0" "tl = CRLF @ rest"
      have "length s' \<ge> 2"
        using whole_not_cut [OF D(3)] arg_cong [OF s'(3), of length] z(3)
        by (cases s'; cases "List.tl s'") (auto simp: sock_def plain_unread_def CRLF_def)
      then obtain b where "s' = [CR, LF] @ b" using s'(3) z(3) by (cases s'; cases "List.tl s'") (auto simp: CRLF_def)
      moreover have "contents (hc_recv_buf ?c1) = s'" "buf_ok (hc_recv_buf ?c1)"
        using k s'(3) by (simp_all add: stream_of_def client_ready_def)
      ultimately have "last_chunk mb ?c1 w = ret (HTTP_CLIENT_RETURNING, ?c1\<lparr>hc_recv_buf := buf_consume 2 (hc_recv_buf ?c1)\<rparr>, w)"
        using buf_view_ok [of "hc_recv_buf ?c1"] by (simp add: last_chunk_def)
      then have "http_client_worktask_decipher_chonkiness mb c w =
          ret (HTTP_CLIENT_RETURNING, ?c1\<lparr>hc_recv_buf := buf_consume 2 (hc_recv_buf ?c1)\<rparr>, w)"
        using plain.decipher_line [OF D(1) s'(2,1) ln(1)] z(2) by simp
      then show ?thesis using D(2,4) cs(4) z(1) by (simp add: decoding_step_def same_job_def)
    next
      fix p ps assume p: "cs = p # ps" "ln = fst p" "n = length (snd p)" "n \<noteq> 0" "n < 2 ^ 31" "tl = snd p @ CRLF @ chunked_text ps ln0 rest"
      let ?c2 = "?c1\<lparr>hc_chunk_remaining := int n\<rparr>"
      have "http_client_worktask_decipher_chonkiness mb c w = ret (HTTP_CLIENT_READING_BODY_CHUNKED, ?c2, w)"
        using plain.decipher_line [OF D(1) s'(2,1) ln(1) p(5)] p(4) by (simp add: Let_def)
      moreover have k2: "client_ready plain_up plain_unread ?c2 w" "stream_of plain_unread ?c2 w = tl"
        using k stream_job [of ?c2 ?c1] by simp_all
      moreover have "chunks_left body rest (decoded c @ snd p) (chunked_text ps ln0 rest)"
        using cs p(1) by (auto simp: chunks_left_def)
      ultimately show ?thesis
        using D(2-4) p(3,6) ln(2) by (auto simp: decoding_step_def decoding_def same_job_def todo_def decoded_def decoded_ok_def CRLF_def)
    qed
  qed
qed

lemma chunk_end_decoding:
  assumes "client_ready plain_up plain_unread c w" "w_alloc w = []" "arrives_whole (length rest) (sock c w)" "decoded_ok c"
    and "hc_chunk_remaining c = 0" "stream_of plain_unread c w = CRLF @ s" "chunks_left body rest (decoded c) s"
  shows "\<exists>st c' w'. chunk_end mb c w = ret (st, c', w') \<and> same_job c c' \<and> decoding body rest (c'\<lparr>hc_state := st\<rparr>) w' \<and> todo c' w' < todo c w"
proof -
  let ?buf = "contents (hc_recv_buf c)" and ?u = "plain_unread (hc_transport c) w"
  have ok: "buf_ok (hc_recv_buf c)" using assms(1) by (simp add: client_ready_def)
  have sz: "hd_size (hc_recv_buf c) = int (length ?buf)" using contents_length [OF ok] by simp
  have e: "?buf @ ?u = [CR, LF] @ s" using assms(6) by (simp add: stream_of_def CRLF_def)
  show ?thesis
  proof (cases "length ?buf \<ge> 2")
    case True
    then obtain b where b: "?buf = [CR, LF] @ b" "b @ ?u = s" using e by (cases ?buf; cases "List.tl ?buf") auto
    let ?c = "c\<lparr>hc_recv_buf := buf_consume 2 (hc_recv_buf c)\<rparr>"
    have k: "client_ready plain_up plain_unread ?c w" "stream_of plain_unread ?c w = s"
      using plain.consume_stream(1,2) [OF assms(1) b(1)] b(2) by simp_all
    have "chunk_end mb c w = ret (HTTP_CLIENT_DECIPHER_CHONKINESS, ?c, w)" using buf_view_ok [OF ok] sz b by (simp add: chunk_end_def)
    moreover have "decoding body rest (?c\<lparr>hc_state := HTTP_CLIENT_DECIPHER_CHONKINESS\<rparr>) w"
      using k assms(2-4,7) by (simp add: decoding_def)
    moreover have "todo ?c w < todo c w" using k(2) assms(6) by (simp add: todo_def CRLF_def)
    ultimately show ?thesis by fastforce
  next
    case False
    then have "length ?buf < 2" by simp
    then have "?u \<noteq> []" using arg_cong [OF e, of length] by auto
    from fill_arrives [OF assms(1-3) this, of 1024 mb HTTP_CLIENT_READING_BODY_CHUNKED] obtain d w' where f:
        "client_fill mb 1024 HTTP_CLIENT_READING_BODY_CHUNKED c w = ret (HTTP_CLIENT_READING_BODY_CHUNKED, c\<lparr>hc_recv_buf := d\<rparr>, w')"
        "client_ready plain_up plain_unread (c\<lparr>hc_recv_buf := d\<rparr>) w'"
        "stream_of plain_unread (c\<lparr>hc_recv_buf := d\<rparr>) w' = stream_of plain_unread c w" "w_alloc w' = []"
        "arrives_whole (length rest) (sock c w')" "length (sock c w') < length (sock c w)" by auto
    have "chunk_end mb c w = ret (HTTP_CLIENT_READING_BODY_CHUNKED, c\<lparr>hc_recv_buf := d\<rparr>, w')"
      using f(1) buf_view_ok [OF ok] sz False by (simp add: chunk_end_def)
    moreover have "decoding body rest (c\<lparr>hc_recv_buf := d, hc_state := HTTP_CLIENT_READING_BODY_CHUNKED\<rparr>) w'"
      using f assms(4-7) by (simp add: decoding_def)
    moreover have "todo (c\<lparr>hc_recv_buf := d\<rparr>) w' < todo c w" using f(3,6) by (simp add: todo_def)
    ultimately show ?thesis by fastforce
  qed
qed

lemma data_decoding:
  assumes "decoding body rest c w" "hc_state c = HTTP_CLIENT_READING_BODY_CHUNKED" "length body < 2 ^ 31"
  shows "decoding_step body rest c w (http_client_worktask_read_body_chunked mb c w)"
proof -
  let ?buf = "contents (hc_recv_buf c)" and ?u = "plain_unread (hc_transport c) w"
  obtain d s where D: "client_ready plain_up plain_unread c w" "w_alloc w = []" "arrives_whole (length rest) (sock c w)" "decoded_ok c"
      "hc_chunk_remaining c = int (length d)" "stream_of plain_unread c w = d @ CRLF @ s" "chunks_left body rest (decoded c @ d) s"
    using assms(1,2) by (auto simp: decoding_def)
  have ok: "buf_ok (hc_recv_buf c)" using D(1) by (simp add: client_ready_def)
  have sz: "hd_size (hc_recv_buf c) = int (length ?buf)" using contents_length [OF ok] by simp
  have dl: "length (decoded c @ d) < 2 ^ 31" using plain.chunks_left_length [OF D(7)] assms(3) by linarith
  show ?thesis
  proof (cases "length ?buf < length d")
    case True
    have "?u \<noteq> []" using True arg_cong [OF D(6), of length] by (auto simp: stream_of_def)
    from fill_arrives [OF D(1-3) this, of 1023 mb HTTP_CLIENT_READING_BODY_CHUNKED] obtain b w' where f:
        "client_fill mb 1023 HTTP_CLIENT_READING_BODY_CHUNKED c w = ret (HTTP_CLIENT_READING_BODY_CHUNKED, c\<lparr>hc_recv_buf := b\<rparr>, w')"
        "client_ready plain_up plain_unread (c\<lparr>hc_recv_buf := b\<rparr>) w'"
        "stream_of plain_unread (c\<lparr>hc_recv_buf := b\<rparr>) w' = stream_of plain_unread c w" "w_alloc w' = []"
        "arrives_whole (length rest) (sock c w')" "length (sock c w') < length (sock c w)" by auto
    have "http_client_worktask_read_body_chunked mb c w = ret (HTTP_CLIENT_READING_BODY_CHUNKED, c\<lparr>hc_recv_buf := b\<rparr>, w')"
      using True sz D(5) dl f(1) by (simp add: http_client_worktask_read_body_chunked_def c_conv)
    moreover have "decoding body rest (c\<lparr>hc_recv_buf := b, hc_state := HTTP_CLIENT_READING_BODY_CHUNKED\<rparr>) w'"
      using f D(4-7) by (simp add: decoding_def) blast
    moreover have "todo (c\<lparr>hc_recv_buf := b\<rparr>) w' < todo c w" using f(3,6) by (simp add: todo_def)
    ultimately show ?thesis unfolding decoding_step_def by fastforce
  next
    case False
    then obtain b where b: "?buf = d @ b" "b @ ?u = CRLF @ s"
      using prefix_append_split [of ?buf ?u d "CRLF @ s"] D(6) by (auto simp: stream_of_def)
    have m: "w_malloc w = (True, w)" using D(2) by (simp add: w_malloc_def)
    obtain nb where nb: "http_client_worktask_read_body_chunked mb c w = chunk_end mb (chunk_moved c d nb) w"
        "decoded_ok (chunk_moved c d nb)" "decoded (chunk_moved c d nb) = decoded c @ d"
      using plain.chunk_data_eq [OF D(1,4,5) b(1) dl, of mb] m by auto
    let ?c1 = "chunk_moved c d nb"
    have k: "client_ready plain_up plain_unread ?c1 w" "stream_of plain_unread ?c1 w = CRLF @ s"
      using plain.consume_stream(1,2) [OF D(1) b(1)] b(2)
        stream_job [of ?c1 "c\<lparr>hc_recv_buf := buf_consume (int (length d)) (hc_recv_buf c)\<rparr>"]
      by (simp_all add: chunk_moved_def)
    have "sock ?c1 w = sock c w" "hc_chunk_remaining ?c1 = 0" by (simp_all add: sock_def chunk_moved_def)
    then obtain st c' w' where "chunk_end mb ?c1 w = ret (st, c', w')" "same_job ?c1 c'" "decoding body rest (c'\<lparr>hc_state := st\<rparr>) w'"
        "todo c' w' < todo ?c1 w"
      using chunk_end_decoding [OF k(1) D(2) _ nb(2) _ k(2), of rest body mb] D(3,7) nb(3) by auto
    moreover have "todo ?c1 w \<le> todo c w" using k(2) D(6) \<open>sock ?c1 w = sock c w\<close> by (simp add: todo_def)
    ultimately show ?thesis using nb(1) by (auto simp: decoding_step_def same_job_def chunk_moved_def)
  qed
qed

lemma decoding_clock: "decoding body rest c w \<Longrightarrow> decoding body rest c (snd (SystemMonotonicMS w))"
    "todo c (snd (SystemMonotonicMS w)) = todo c w"
  by (simp_all add: decoding_def todo_def sock_def monotonic_ready)

text \<open>What was decoded is handed out.\<close>

lemma returning_progress:
  assumes "task_run mb s (c, w)" "hc_state c = HTTP_CLIENT_RETURNING" "response_source c = Inr body" "w_alloc w = []"
    and "\<not> hc_blocking_mode c" "hc_on_success c"
  shows "\<exists>c' w'. task_run mb s (c', w') \<and> hc_state c' = HTTP_CLIENT_DISPOSING \<and> w_delivered w' = w_delivered w @ [(hc_context c, body)]"
proof -
  let ?w = "snd (SystemMonotonicMS w)"
  have "fst (w_malloc ?w)" using assms(4) by (simp add: w_malloc_def)
  with assms(2,5,6) obtain w' where "state_work mb c ?w = ret (HTTP_CLIENT_DISPOSING, c, w')" "w_delivered w' = w_delivered ?w @ [(hc_context c, body)]"
    by (rule_tac returning_delivers [OF assms(3), of ?w]) (auto simp: state_work_def)
  with task_run_step [OF assms(1) _ this(1)] assms(2) show ?thesis by force
qed

lemma decoding_progress:
  assumes "task_run mb s (c, w)" "decoding body rest c w" "body \<noteq> []" "length body < 2 ^ 31" "\<not> hc_blocking_mode c" "hc_on_success c"
  shows "\<exists>c' w'. task_run mb s (c', w') \<and> hc_state c' = HTTP_CLIENT_DISPOSING"
  using assms
proof (induction "todo c w" arbitrary: c w rule: less_induct)
  case less
  let ?w = "snd (SystemMonotonicMS w)"
  have d: "decoding body rest c ?w" using decoding_clock(1) [OF less.prems(2)] .
  then have "decoding_step body rest c ?w (state_work mb c ?w)"
    using decipher_decoding [OF d] data_decoding [OF d _ assms(4)] by (auto simp: decoding_def state_work_def)
  then obtain st c' w' where r: "state_work mb c ?w = ret (st, c', w')" "same_job c c'"
      "st = HTTP_CLIENT_RETURNING \<and> decoded_ok c' \<and> decoded c' = body \<and> w_alloc w' = [] \<or>
       decoding body rest (c'\<lparr>hc_state := st\<rparr>) w' \<and> todo c' w' < todo c w"
    by (auto simp: decoding_step_def decoding_clock(2))
  have st: "hc_state c \<in> {HTTP_CLIENT_DECIPHER_CHONKINESS, HTTP_CLIENT_READING_BODY_CHUNKED}" using d by (auto simp: decoding_def)
  then have t: "task_run mb s (c'\<lparr>hc_state := st\<rparr>, w')" using task_run_step [OF less.prems(1) _ r(1)] by auto
  have j: "\<not> hc_blocking_mode c'" "hc_on_success c'" using r(2) less.prems(5,6) by (simp_all add: same_job_def)
  from r(3) show ?case
  proof (elim disjE conjE)
    assume R: "st = HTTP_CLIENT_RETURNING" "decoded_ok c'" "decoded c' = body" "w_alloc w' = []"
    then have "response_source (c'\<lparr>hc_state := st\<rparr>) = Inr body"
      using response_source_decoded [of "c'\<lparr>hc_state := st\<rparr>"] assms(3) by simp
    from returning_progress [OF t _ this R(4)] show ?thesis using R(1) j by auto
  next
    assume "decoding body rest (c'\<lparr>hc_state := st\<rparr>) w'" "todo c' w' < todo c w"
    then show ?thesis using less.hyps [of "c'\<lparr>hc_state := st\<rparr>" w'] t assms(3,4) j by simp
  qed
qed

text \<open>A terminator that is cut before or inside its last two bytes: the client takes the size line and reads the
  rest of the terminator as another size line, an empty one.\<close>

lemma split_terminator:
  assumes "client_ready plain_up plain_unread c w" "hc_state c = HTTP_CLIENT_DECIPHER_CHONKINESS" "w_alloc w = []" "size_line ln0 0"
    and "contents (hc_recv_buf c) = ln0 @ CRLF @ pre" "length pre < 2" "pre @ bs = CRLF @ rest" "sock c w = [Data bs]" "length bs \<le> 1023"
  shows "\<exists>c' w'. task_run mb (c, w) (c', w') \<and> hc_state c' = HTTP_CLIENT_ERROR \<and> w_delivered w' = w_delivered w"
proof -
  let ?w = "snd (SystemMonotonicMS w)" and ?S = HTTP_CLIENT_DECIPHER_CHONKINESS
  have rd: "client_ready plain_up plain_unread c ?w" using assms(1) by (simp add: monotonic_ready)
  have u: "plain_unread (hc_transport c) ?w = bs" using assms(8) by (simp add: plain_unread_def sock_def)
  let ?c1 = "c\<lparr>hc_recv_buf := buf_consume (int (length ln0) + 2) (hc_recv_buf c)\<rparr>"
  have c1: "client_ready plain_up plain_unread ?c1 ?w" "stream_of plain_unread ?c1 ?w = pre @ bs"
    using plain.line_consumed [OF rd assms(5) refl] u by simp_all
  then have b1: "contents (hc_recv_buf ?c1) = pre" "buf_ok (hc_recv_buf ?c1)" using u by (simp_all add: stream_of_def client_ready_def)
  have h: "http_parser_find_headers_end pre (length pre) = -1" by (rule find_headers_end_none) (use assms(6) in simp)
  have "length (contents (hc_recv_buf c)) < 2 ^ 31" using assms(1) by (simp add: client_ready_def stream_of_def)
  then have "state_work mb c ?w = last_chunk mb ?c1 ?w"
    using plain.decipher_line [OF rd assms(5) _ assms(4), of mb] find_line_end_buffered [OF assms(4), of pre] assms(2,5)
    by (simp add: state_work_def)
  also have "last_chunk mb ?c1 ?w = client_fill mb 1023 ?S ?c1 ?w"
    using b1 buf_view_ok [OF b1(2)] h assms(6) by (simp add: last_chunk_def)
  finally have w1: "state_work mb c ?w = client_fill mb 1023 ?S ?c1 ?w" .
  have ne: "plain_unread (hc_transport ?c1) ?w \<noteq> []" using u assms(6,7) by (auto simp: CRLF_def)
  have a: "w_alloc ?w = []" "arrives_whole (length bs) (sock ?c1 ?w)" using assms(3,8,9) by (simp_all add: sock_def)
  obtain d w2 where f: "client_fill mb 1023 ?S ?c1 ?w = ret (?S, ?c1\<lparr>hc_recv_buf := d\<rparr>, w2)"
      "client_ready plain_up plain_unread (?c1\<lparr>hc_recv_buf := d\<rparr>) w2"
      "stream_of plain_unread (?c1\<lparr>hc_recv_buf := d\<rparr>) w2 = stream_of plain_unread ?c1 ?w" "w_alloc w2 = []"
      "arrives_whole (length bs) (sock ?c1 w2)" "length (sock ?c1 w2) < length (sock ?c1 ?w)"
    by (rule fill_arrives [OF c1(1) a ne, of 1023 mb ?S]) simp
  let ?c2 = "?c1\<lparr>hc_recv_buf := d, hc_state := ?S\<rparr>"
  have r1: "task_run mb (c, w) (?c2, w2)" using task_run_step [OF task_run.task_refl [of mb "(c, w)"]] w1 f(1) assms(2) by simp
  have "sock ?c1 w2 = []" using f(6) assms(8) by (simp add: sock_def)
  then have d: "contents d = CRLF @ rest" "buf_ok d" "length (CRLF @ rest) < 2 ^ 31"
    using f(2,3) c1(2) assms(7) by (simp_all add: stream_of_def client_ready_def sock_def plain_unread_def)
  have v: "buf_view (hc_recv_buf ?c2) = Inr (CRLF @ rest)" using buf_view_ok [OF d(2)] d(1) by simp
  have le: "http_parser_find_line_end (CRLF @ rest) (length (CRLF @ rest)) = 0" using find_line_end_found [of "[]" rest] d(3) by simp
  have "http_client_worktask_decipher_chonkiness mb ?c2 v = ret (HTTP_CLIENT_ERROR, ?c2, v)" for v
    unfolding http_client_worktask_decipher_chonkiness_def v sum.case le Let_def by (simp add: chunk_parse_len_def)
  then have "state_work mb ?c2 (snd (SystemMonotonicMS w2)) = ret (HTTP_CLIENT_ERROR, ?c2, snd (SystemMonotonicMS w2))"
    by (simp add: state_work_def)
  from task_run_step [OF r1 _ this] have r2: "task_run mb (c, w) (?c2\<lparr>hc_state := HTTP_CLIENT_ERROR\<rparr>, snd (SystemMonotonicMS w2))" by simp
  obtain st c3 w3 where "client_fill mb 1023 ?S ?c1 ?w = ret (st, c3, w3)" "w_delivered w3 = w_delivered ?w"
    using plain.client_fill_law [OF c1(1), of 1023 mb ?S] by auto
  then have "w_delivered w2 = w_delivered w" using f(1) by simp
  then show ?thesis using r2 by force
qed

text \<open>The two chunks \<open>ab\<close> and \<open>cde\<close>, the second with an extension, and two bytes that follow; the first chunk is received in
  part, the rest comes in two pieces with an interruption in between.\<close>

definition chunk_example :: "nat HTTP_Client" where
  "chunk_example = (zero_client mb_example)\<lparr>hc_state := HTTP_CLIENT_DECIPHER_CHONKINESS, hc_on_success := True,
     hc_context := 7, hc_recv_buf := \<lparr>hd_addr = Some (''2'' @ CRLF @ ''a''), hd_size = 4\<rparr>\<rparr>"

definition chunk_wire :: world where
  "chunk_wire = world0 0\<lparr>w_in := \<lambda>_. [Data (''b'' @ CRLF @ ''3;x''), RxErr EAGAIN,
     Data (''=y'' @ CRLF @ ''cde'' @ CRLF @ ''0'' @ CRLF @ CRLF @ ''XY'')]\<rparr>"

lemma chunk_example_start:
  "chunked_start [(''2'', ''ab''), (''3;x=y'', ''cde'')] ''0'' ''XY'' chunk_example chunk_wire"
proof -
  have "size_line ''2'' (length ''ab'')" "size_line ''3;x=y'' (length ''cde'')" "size_line ''0'' 0" by code_simp+
  then show ?thesis
    by (simp add: chunked_start_def chunk_example_def zero_client_def zero_transport_def buf_ok_def block_inv_def
        block_bytes_def stream_of_def contents_def block_contents_def plain_unread_def chunk_wire_def valid_chunk_def
        chunked_text_def chunk_text_def CRLF_def)
qed

lemma chunk_example_arrives: "arrives_whole (length ''XY'') (sock chunk_example chunk_wire)" "w_alloc chunk_wire = []"
    "w_delivered chunk_wire = []"
  by (simp_all add: sock_def chunk_wire_def CRLF_def world0_def would_block_def)

lemma start_decoding:
  assumes "chunked_start cs ln0 rest c w" "w_alloc w = []" "arrives_whole (length rest) (sock c w)"
  shows "decoding (concat (map snd cs)) rest c w"
proof -
  have "decoded_ok c" "decoded c = []"
    using assms(1) by (auto simp: chunked_start_def decoded_def decoded_ok_def block_contents_def block_inv_def block_bytes_def)
  then show ?thesis
    using assms by (auto simp: chunked_start_def decoding_def client_ready_def plain_up_def chunks_left_def)
qed

lemma chunked_completes:
  assumes "chunked_start cs ln0 rest c w" "w_alloc w = []" "arrives_whole (length rest) (sock c w)"
  shows "\<exists>c' w'. task_run mb (c, w) (c', w') \<and> hc_state c' = HTTP_CLIENT_DISPOSING"
  using decoding_progress [OF task_run.task_refl start_decoding [OF assms]] chunked_start_inv [OF assms(1)] assms(1)
  by (auto simp: chunked_start_def)

section \<open>Properties of chunked reading\<close>

text \<open>C7: Chunked transfer decoding is exact. Over a plain connection whose peer sends a chunked body (one chunk or
  more, sizes with extensions, the last chunk and an empty line, then any bytes; no trailer fields) in any segmentation, with any
  interruptions, errors, closing of the connection and failing allocations: no call of the task
  faults or hangs, nothing is handed to the callback before the end, and what is handed to it is
  exactly the concatenation of the chunks, at most once: the task that reaches its end has handed it out, one that fails hands out
  nothing. (A body without chunks is another matter, see \<open>chunked_empty_body\<close>.)\<close>

theorem chunked_response_exact:
  assumes "chunked_start cs ln0 rest c w" "task_run mb (c, w) (c', w')"
  shows "w_delivered w' =
       w_delivered w @ (if hc_state c' = HTTP_CLIENT_DISPOSING then [(hc_context c, concat (map snd cs))] else []) \<and>
     (hc_state c' \<in> {HTTP_CLIENT_ERROR, HTTP_CLIENT_DISPOSING} \<or>
      (\<forall>t. \<exists>c2 w2. http_client_taskwork mb (Some c') t w' = ret (Some c2, w2)))"
proof -
  note st = chunked_start_inv [OF assms(1)]
  have js: "job_state (chunk_I (concat (map snd cs)) rest) (concat (map snd cs)) c w c' w'"
    by (rule chunked_run [OF assms(2,1)])
  have "\<exists>c2 w2. http_client_taskwork mb (Some c') t w' = ret (Some c2, w2)"
    if no: "hc_state c' \<notin> {HTTP_CLIENT_ERROR, HTTP_CLIENT_DISPOSING}" for t
  proof -
    have I: "chunk_I (concat (map snd cs)) rest c' w'" "same_job c c'" using js no by (auto simp: job_state_def)
    have m: "\<not> hc_blocking_mode c'" "hc_on_success c'" using I(2) assms(1) by (auto simp: same_job_def chunked_start_def)
    obtain st c1 w1 where "state_work mb c' (snd (SystemMonotonicMS w')) = ret (st, c1, w1)"
      using chunk_I_work [OF chunk_I_clock [OF I(1)] st(2,3) m no, of mb] by auto
    then show ?thesis using taskwork_returns no by blast
  qed
  then show ?thesis using js by (auto simp: job_state_def)
qed

theorem chunked_response_exact_witness:
  "\<exists>c' w'. task_run mb_example (chunk_example, chunk_wire) (c', w') \<and> w_delivered w' = [(7, ''abcde'')]"
proof -
  obtain c' w' where r: "task_run mb_example (chunk_example, chunk_wire) (c', w')" "hc_state c' = HTTP_CLIENT_DISPOSING"
    using chunked_completes [OF chunk_example_start chunk_example_arrives(2,1)] by blast
  then show ?thesis
    using chunked_response_exact [OF chunk_example_start r(1)] chunk_example_arrives(3) by (auto simp: chunk_example_def)
qed

text \<open>C8: Chunked transfer decoding terminates with the response. The body has one chunk or more and no trailer fields; part of it may
  be in the receive buffer, the bytes still missing come over a plain connection in pieces of at most 1023 bytes (what
  one read takes) and with any interruptions, memory is granted, and neither the buffer nor a piece ends right before the
  two bytes that end the encoding or between them. Then some number of calls of the task hands exactly the concatenation of the chunks to
  the callback. The condition on the pieces is needed: a terminator that is cut there makes the client fail
  (\<open>split_terminator\<close>).\<close>

theorem chunked_response_complete:
  assumes "chunked_start cs ln0 rest c w" "w_alloc w = []" "arrives_whole (length rest) (sock c w)"
  shows "\<exists>c' w'. task_run mb (c, w) (c', w') \<and> hc_state c' = HTTP_CLIENT_DISPOSING \<and>
     w_delivered w' = w_delivered w @ [(hc_context c, concat (map snd cs))]"
proof -
  obtain c' w' where r: "task_run mb (c, w) (c', w')" "hc_state c' = HTTP_CLIENT_DISPOSING"
    using chunked_completes [OF assms] by blast
  moreover have "w_delivered w' = w_delivered w @ [(hc_context c, concat (map snd cs))]"
    using chunked_run [OF r(1) assms(1)] r(2) by (simp add: job_state_def)
  ultimately show ?thesis by blast
qed

theorem chunked_response_complete_witness:
  "\<exists>c' w'. task_run mb_example (chunk_example, chunk_wire) (c', w') \<and> hc_state c' = HTTP_CLIENT_DISPOSING \<and>
     w_delivered w' = [(7, ''abcde'')]"
  using chunked_response_complete [OF chunk_example_start chunk_example_arrives(2,1), of mb_example] chunk_example_arrives(3)
  by (auto simp: chunk_example_def)

text \<open>C9: A chunked body whose terminator is cut by a read fails. The client has the size line of the last chunk, and at most one byte
  of the empty line after it, in its buffer; the rest comes with the next read. The run ends in the error
  state and hands out nothing, although the response has arrived completely and is well-formed.\<close>

theorem chunked_terminator_split:
  assumes "client_ready plain_up plain_unread c w" "hc_state c = HTTP_CLIENT_DECIPHER_CHONKINESS" "w_alloc w = []" "size_line ln0 0"
    and "contents (hc_recv_buf c) = ln0 @ CRLF @ pre" "length pre < 2" "pre @ bs = CRLF @ rest" "sock c w = [Data bs]" "length bs \<le> 1023"
  shows "\<exists>c' w'. task_run mb (c, w) (c', w') \<and> hc_state c' = HTTP_CLIENT_ERROR \<and> w_delivered w' = w_delivered w"
  by (rule split_terminator [OF assms])

theorem chunked_terminator_split_witness:
  "\<exists>c' w'. task_run mb_example (chunk_example\<lparr>hc_recv_buf := \<lparr>hd_addr = Some (''0'' @ CRLF), hd_size = 3\<rparr>\<rparr>,
       chunk_wire\<lparr>w_in := \<lambda>_. [Data CRLF]\<rparr>) (c', w') \<and> hc_state c' = HTTP_CLIENT_ERROR \<and> w_delivered w' = []"
proof -
  let ?c = "chunk_example\<lparr>hc_recv_buf := \<lparr>hd_addr = Some (''0'' @ CRLF), hd_size = 3\<rparr>\<rparr>"
  let ?w = "chunk_wire\<lparr>w_in := \<lambda>_. [Data CRLF]\<rparr>"
  have z: "size_line ''0'' 0" by code_simp
  have "client_ready plain_up plain_unread ?c ?w" "contents (hc_recv_buf ?c) = ''0'' @ CRLF @ []"
    by (simp_all add: client_ready_def plain_up_def buf_ok_def block_inv_def block_bytes_def stream_of_def contents_def
        block_contents_def plain_unread_def chunk_example_def zero_client_def zero_transport_def CRLF_def)
  from chunked_terminator_split [OF this(1) _ _ z this(2), of CRLF "[]" mb_example] show ?thesis
    by (simp add: chunk_example_def sock_def CRLF_def chunk_wire_def world0_def)
qed

text \<open>A chunked body without chunks: the client, which has decoded nothing, hands out what follows the body in its
  buffer.\<close>

theorem chunked_empty_body:
  assumes "client_ready plain_up plain_unread c w" "hc_state c = HTTP_CLIENT_DECIPHER_CHONKINESS" "w_alloc w = []" "size_line ln0 0"
    and "contents (hc_recv_buf c) = ln0 @ CRLF @ CRLF @ extra" "hc_decoded_body c = None" "\<not> hc_blocking_mode c" "hc_on_success c"
  shows "\<exists>c' w'. task_run mb (c, w) (c', w') \<and> hc_state c' = HTTP_CLIENT_DISPOSING \<and>
     w_delivered w' = w_delivered w @ [(hc_context c, extra)]"
proof -
  let ?w = "snd (SystemMonotonicMS w)"
  have rd: "client_ready plain_up plain_unread c ?w" using assms(1) by (simp add: monotonic_ready)
  let ?c1 = "c\<lparr>hc_recv_buf := buf_consume (int (length ln0) + 2) (hc_recv_buf c)\<rparr>"
  let ?c2 = "?c1\<lparr>hc_recv_buf := buf_consume 2 (hc_recv_buf ?c1)\<rparr>"
  have c1: "client_ready plain_up plain_unread ?c1 ?w" "contents (hc_recv_buf ?c1) = CRLF @ extra"
    using plain.line_consumed [OF rd assms(5) refl] by (simp_all add: stream_of_def)
  have b: "buf_ok (hc_recv_buf ?c1)" using c1(1) by (simp add: client_ready_def)
  have "client_ready plain_up plain_unread ?c2 ?w" "contents (hc_recv_buf ?c2) = extra"
    using plain.consume_stream(1,3) [OF c1] by (simp_all add: CRLF_def)
  then have src: "response_source (?c2\<lparr>hc_state := HTTP_CLIENT_RETURNING\<rparr>) = Inr extra"
    using response_source_buffer [of "?c2\<lparr>hc_state := HTTP_CLIENT_RETURNING\<rparr>"] assms(6) by (simp add: client_ready_def)
  have "length (contents (hc_recv_buf c)) < 2 ^ 31" using assms(1) by (simp add: client_ready_def stream_of_def)
  then have "state_work mb c ?w = last_chunk mb ?c1 ?w"
    using plain.decipher_line [OF rd assms(5) _ assms(4), of mb] find_line_end_buffered [OF assms(4), of "CRLF @ extra"] assms(2,5)
    by (simp add: state_work_def)
  also have "\<dots> = ret (HTTP_CLIENT_RETURNING, ?c2, ?w)" using c1(2) buf_view_ok [OF b] by (simp add: last_chunk_def CRLF_def)
  finally have "task_run mb (c, w) (?c2\<lparr>hc_state := HTTP_CLIENT_RETURNING\<rparr>, ?w)"
    using task_run_step [OF task_run.task_refl [of mb "(c, w)"]] assms(2) by simp
  from returning_progress [OF this _ src] assms(3,7,8) show ?thesis by simp
qed

end
