(* ===== verification/HTTP_Response.thy ===== *)
theory HTTP_Response imports HTTP_Chunked begin

text \<open>
  Whole responses as the client of \<^verbatim>\<open>modules/src/http_client.c\<close> reads them: the status line
  (\<^verbatim>\<open>http_client_worktask_read_firstline\<close>), the header block (\<^verbatim>\<open>http_client_worktask_read_headers\<close>), bodies
  of known length (\<^verbatim>\<open>http_client_worktask_read_body\<close>), and the composition of all reading states.
\<close>

section \<open>Facts: bodies of known length\<close>

text \<open>Reading a body: nothing of the stream is lost, and the state is left for \<open>RETURNING\<close> only when
  at least \<open>content_length\<close> bytes are in the buffer.\<close>

definition body_inv ::
  "('s Transport \<Rightarrow> world \<Rightarrow> bool) \<Rightarrow> ('s Transport \<Rightarrow> world \<Rightarrow> byte list) \<Rightarrow> byte list \<Rightarrow>
     HTTPClientState \<Rightarrow> 's HTTP_Client \<Rightarrow> world \<Rightarrow> bool" where
  "body_inv up unread payload st c w \<longleftrightarrow>
     (case st of
        HTTP_CLIENT_READING_BODY \<Rightarrow> client_ready up unread c w \<and> stream_of unread c w = payload
      | HTTP_CLIENT_RETURNING \<Rightarrow> buf_ok (hc_recv_buf c) \<and> stream_of unread c w = payload \<and>
          hc_content_length c \<le> int (length (contents (hc_recv_buf c)))
      | HTTP_CLIENT_ERROR \<Rightarrow> True
      | _ \<Rightarrow> False)"

context byte_stream begin

lemma body_check_law:
  assumes "ready c w" "stream c w = payload"
  shows "\<exists>st c'. body_check c w = ret (st, c', w) \<and> body_inv up unread payload st c' w \<and> same_job c c' \<and>
     hc_content_length c' = hc_content_length c \<and> hc_decoded_body c' = hc_decoded_body c"
  using assms contents_length [of "hc_recv_buf c"]
  by (auto simp: body_check_def body_inv_def ready_def same_job_def)

lemma read_body_step:
  assumes "body_inv up unread payload HTTP_CLIENT_READING_BODY c w"
  shows "\<exists>st c' w'. http_client_worktask_read_body mb c w = ret (st, c', w') \<and>
     body_inv up unread payload st c' w' \<and> same_job c c' \<and> w_delivered w' = w_delivered w \<and>
     hc_content_length c' = hc_content_length c \<and> hc_decoded_body c' = hc_decoded_body c"
proof -
  have rd: "ready c w" "stream c w = payload" using assms by (auto simp: body_inv_def)
  obtain n bs c1 w1 where r: "client_read mb 1023 c w = (n, bs, c1, w1)" by (metis prod_cases4)
  show ?thesis
  proof (rule client_read_cases [OF rd(1) _ r])
    fix t assume "c1 = c\<lparr>hc_transport := t\<rparr>" "n < 0" "ready c1 w1" "stream c1 w1 = stream c w"
      "w_delivered w1 = w_delivered w"
    then show ?thesis
      using r rd(2) by (simp add: http_client_worktask_read_body_def body_inv_def same_job_def)
  next
    fix t assume *: "c1 = c\<lparr>hc_transport := t\<rparr>" "n = 0" "ready c1 w1" "stream c1 w1 = stream c w"
      "w_delivered w1 = w_delivered w"
    show ?thesis
    proof (cases "hd_size (hc_recv_buf c1) < hc_content_length c1")
      case True
      then show ?thesis
        using * r by (simp add: http_client_worktask_read_body_def body_inv_def same_job_def)
    next
      case False
      then have "http_client_worktask_read_body mb c w = body_check c1 w1"
        using * r by (simp add: http_client_worktask_read_body_def)
      then show ?thesis using body_check_law [of c1 w1 payload] * rd(2) by (auto simp: same_job_def)
    qed
  next
    fix t assume *: "c1 = c\<lparr>hc_transport := t\<rparr>" "0 < n" "n = int (length bs)" "up t w1"
      "stream c w = contents (hc_recv_buf c) @ bs @ unread t w1" "w_delivered w1 = w_delivered w"
    have ne: "bs \<noteq> []" using *(2,3) by auto
    obtain ok a where m: "malloc (w_alloc w1) = (ok, a)" by (cases "malloc (w_alloc w1)")
    show ?thesis
    proof (cases ok)
      case True
      with m have "malloc (w_alloc w1) = (True, a)" by simp
      from append_read [OF rd(1) *(1,4) ne *(5) this] obtain d where d:
        "client_append bs c1 w1 = Inr (int (length bs), c1\<lparr>hc_recv_buf := d\<rparr>, w1\<lparr>w_alloc := a\<rparr>)"
        "ready (c1\<lparr>hc_recv_buf := d\<rparr>) (w1\<lparr>w_alloc := a\<rparr>)"
        "stream (c1\<lparr>hc_recv_buf := d\<rparr>) (w1\<lparr>w_alloc := a\<rparr>) = stream c w" by blast
      then have "http_client_worktask_read_body mb c w = body_check (c1\<lparr>hc_recv_buf := d\<rparr>) (w1\<lparr>w_alloc := a\<rparr>)"
        using * r by (simp add: http_client_worktask_read_body_def)
      then show ?thesis
        using body_check_law [OF d(2), of payload] d(3) rd(2) * by (auto simp: same_job_def)
    next
      case False
      with m have "client_append bs c1 w1 = Inr (ERR_NO_MEMORY, c1\<lparr>hc_recv_buf := hc_recv_buf c1\<rparr>, w1\<lparr>w_alloc := a\<rparr>)"
        using client_append_refused [OF ne] by simp
      then show ?thesis
        using * r by (simp add: http_client_worktask_read_body_def body_inv_def same_job_def err_codes)
    qed
  qed simp
qed

end

section \<open>Facts: where the header block ends\<close>

lemma header_block_Cons: "header_block (h # hs) = header_text h @ CRLF @ header_block hs"
  by (simp add: header_block_def)

lemma header_block_start:
  assumes "list_all clean_header hs"
  shows "hs \<noteq> [] \<Longrightarrow> \<exists>x xs. header_block hs = x # xs \<and> x \<noteq> CR" "header_block [] = CRLF"
proof -
  assume "hs \<noteq> []"
  then obtain h r where h: "hs = h # r" by (cases hs) auto
  then have "CR \<notin> set (header_text h)" using assms clean_header_no_CR by simp
  moreover have "header_text h \<noteq> []" by (simp add: header_text_def)
  ultimately show "\<exists>x xs. header_block hs = x # xs \<and> x \<noteq> CR"
    using h by (cases "header_text h") (auto simp: header_block_Cons)
qed (simp add: header_block_def)

lemma no_early_headers_end:
  assumes "list_all clean_header hs" "hs \<noteq> []" "j + 4 < length (header_block hs)"
    and "j + 3 < length (header_block hs @ s)"
  shows "\<not> (crlf_at (pre @ header_block hs @ s) (length pre + j) \<and> crlf_at (pre @ header_block hs @ s) (length pre + j + 2))"
  using assms
proof (induction hs arbitrary: pre j)
  case (Cons h hs)
  let ?buf = "pre @ header_block (h # hs) @ s" and ?t = "header_text h"
  have buf: "?buf = pre @ ?t @ CRLF @ header_block hs @ s" by (simp add: header_block_Cons)
  have cr: "CR \<notin> set ?t" using Cons.prems(1) clean_header_no_CR by simp
  consider "j < length ?t" | "j = length ?t" | "j = length ?t + 1" | "j \<ge> length ?t + 2" by linarith
  then show ?case
  proof cases
    case 1
    then show ?thesis using no_crlf_in_line [OF cr, of pre "length pre + j"] unfolding buf by simp
  next
    case 2
    show ?thesis
    proof (cases "hs = []")
      case True
      then show ?thesis using Cons.prems(3) 2 by (simp add: header_block_def CRLF_def)
    next
      case False
      then obtain x xs where x: "header_block hs = x # xs" "x \<noteq> CR"
        using header_block_start(1) [of hs] Cons.prems(1) by auto
      have "?buf = (pre @ ?t @ CRLF) @ x # xs @ s" using buf x(1) by simp
      moreover have "length pre + j + 2 = length (pre @ ?t @ CRLF)" using 2 by (simp add: CRLF_def)
      ultimately have "?buf ! (length pre + j + 2) = x" by (metis nth_append_length)
      then show ?thesis using x(2) by (simp add: crlf_at_def)
    qed
  next
    case 3
    have "?buf = (pre @ ?t @ [CR]) @ LF # header_block hs @ s" using buf by (simp add: CRLF_def)
    moreover have "length pre + j = length (pre @ ?t @ [CR])" using 3 by simp
    ultimately have "?buf ! (length pre + j) = LF" by (metis nth_append_length)
    then show ?thesis by (simp add: crlf_at_def)
  next
    case 4
    then have ne: "hs \<noteq> []" using Cons.prems(3) by (auto simp: header_block_def CRLF_def)
    obtain k where k: "j = length ?t + 2 + k" using 4 le_Suc_ex by blast
    have "\<not> (crlf_at ((pre @ ?t @ CRLF) @ header_block hs @ s) (length (pre @ ?t @ CRLF) + k) \<and>
        crlf_at ((pre @ ?t @ CRLF) @ header_block hs @ s) (length (pre @ ?t @ CRLF) + k + 2))"
      using Cons.IH [of k "pre @ ?t @ CRLF"] Cons.prems ne k by (simp add: header_block_Cons CRLF_def)
    moreover have "length (pre @ ?t @ CRLF) + k = length pre + j" using k by (simp add: CRLF_def)
    moreover have "(pre @ ?t @ CRLF) @ header_block hs @ s = ?buf" using buf by simp
    ultimately show ?thesis by metis
  qed
qed simp

lemma headers_end_at:
  assumes "hs \<noteq> []"
  shows "crlf_at (header_block hs @ s) (length (header_block hs) - 4)"
    "crlf_at (header_block hs @ s) (length (header_block hs) - 4 + 2)" "4 < length (header_block hs)"
proof -
  obtain hs' h where h: "hs = hs' @ [h]" using assms by (cases hs rule: rev_cases) auto
  let ?p = "concat (map (\<lambda>h. header_text h @ CRLF) hs') @ header_text h"
  have e: "header_block hs = ?p @ [CR, LF, CR, LF]" using h by (simp add: header_block_def CRLF_def)
  have "header_text h \<noteq> []" by (simp add: header_text_def)
  then show "4 < length (header_block hs)" using e by simp
  have l: "length (header_block hs) - 4 = length ?p" using e by simp
  show "crlf_at (header_block hs @ s) (length (header_block hs) - 4)"
      "crlf_at (header_block hs @ s) (length (header_block hs) - 4 + 2)"
    unfolding l unfolding e by (simp_all add: crlf_at_def nth_append)
qed

text \<open>The end of the headers in a buffer that holds the beginning of the stream.\<close>

lemma find_headers_end_stream:
  assumes "buf @ r = header_block hs @ s" "list_all clean_header hs" "hs \<noteq> []" "length buf < 2 ^ 31"
  obtains "http_parser_find_headers_end buf (length buf) = -1"
  | s' where "http_parser_find_headers_end buf (length buf) = int (length (header_block hs)) - 4"
      "buf = header_block hs @ s'" "s = s' @ r"
proof -
  let ?n = "length (header_block hs)"
  note at = headers_end_at [OF assms(3)]
  have pre: "crlf_at (buf @ r) j = crlf_at buf j" if "Suc j < length buf" for j
    using that by (simp add: crlf_at_def nth_append)
  have early: "\<not> (crlf_at buf j \<and> crlf_at buf (j + 2))" if "j + 4 < ?n" "j + 3 < length buf" for j
    using no_early_headers_end [OF assms(2,3) that(1), of s "[]"] that pre [of j] pre [of "j + 2"] assms(1) by auto
  show thesis
  proof (cases "length buf < ?n")
    case True
    have "\<not> (crlf_at buf j \<and> crlf_at buf (j + 2))" if "j + 3 < length buf" for j
      using early [of j] that True by simp
    then show thesis using that(1) find_headers_end_none by blast
  next
    case False
    obtain s' where s': "buf = header_block hs @ s'" "s = s' @ r"
      using prefix_append_split [OF assms(1)] False by (metis linorder_not_less)
    have "http_parser_find_headers_end buf (length buf) = int (?n - 4)"
      using find_headers_end_iff [OF assms(4) order_refl, of "?n - 4"] at(1,2) [of s'] at(3) early s'(1)
      by auto
    then show thesis using that(2) [of s'] s' at(3) by simp
  qed
qed

section \<open>Facts: status line and headers from the stream\<close>

text \<open>A response as a server sends it, and the body its headers announce: a body that is not empty, either of the
  length given by Content-Length, or in one chunk or more, ended by the last chunk and an empty line. Trailer fields and empty
  bodies are outside this class.\<close>

definition announces :: "(cstring \<times> cstring) list \<Rightarrow> byte list \<Rightarrow> byte list \<Rightarrow> bool" where
  "announces hs payload body \<longleftrightarrow>
     (\<exists>te cs ln0 rest. map_of hs ''Transfer-Encoding'' = Some te \<and> strstr te ''chunked'' \<noteq> None \<and>
        payload = chunked_text cs ln0 rest \<and> list_all valid_chunk cs \<and> cs \<noteq> [] \<and> size_line ln0 0 \<and>
        body = concat (map snd cs)) \<or>
     ((\<forall>te. map_of hs ''Transfer-Encoding'' = Some te \<longrightarrow> strstr te ''chunked'' = None) \<and>
      map_of hs ''Content-Length'' = Some (dec_str (length payload)) \<and> payload \<noteq> [] \<and> body = payload)"

definition known_status :: "cstring \<Rightarrow> int \<Rightarrow> cstring \<Rightarrow> bool" where
  "known_status v code phrase \<longleftrightarrow> SP \<notin> set v \<and> CR \<notin> set v \<and> is_c_str v \<and>
     HttpStatus_reasonPhrase code = Some phrase \<and> length (status_line v (dec_str (nat code)) phrase) < 1024"

lemma known_status_line:
  assumes "known_status v code phrase"
  shows "CR \<notin> set (status_line v (dec_str (nat code)) phrase)"
    "http_parser_response_firstline (Some (status_line v (dec_str (nat code)) phrase @ post))
        (length (status_line v (dec_str (nat code)) phrase)) (Some r) [] =
      Inr (SUCCESS, Some (r\<lparr>resp_version := Some v, resp_status_code_string := Some (dec_str (nat code)),
         resp_reason_phrase := Some phrase\<rparr>), [])"
proof -
  have p: "HttpStatus_reasonPhrase code = Some phrase" using assms by (simp add: known_status_def)
  have "\<not> isdigit CR" by (simp add: isdigit_def char_code_def)
  then have "CR \<notin> set (dec_str (nat code))" using dec_str_digits [of "nat code"] by (auto simp: list_all_iff)
  then show "CR \<notin> set (status_line v (dec_str (nat code)) phrase)"
    using assms reason_phrase_text [OF p] by (auto simp: status_line_def known_status_def)
  show "http_parser_response_firstline (Some (status_line v (dec_str (nat code)) phrase @ post))
        (length (status_line v (dec_str (nat code)) phrase)) (Some r) [] =
      Inr (SUCCESS, Some (r\<lparr>resp_version := Some v, resp_status_code_string := Some (dec_str (nat code)),
         resp_reason_phrase := Some phrase\<rparr>), [])"
    using response_firstline_code [of v phrase code post r] assms reason_phrase_text [OF p] reason_phrase_range [OF p]
    by (simp add: known_status_def is_c_str_def Let_def)
qed

text \<open>The client in the states before the body.\<close>

definition fresh_body :: "'s HTTP_Client \<Rightarrow> bool" where
  "fresh_body c \<longleftrightarrow> hc_decoded_body c = None \<and> hc_decoded_body_len c = 0 \<and>
     (\<exists>r. hc_resp c = Some r) \<and> (\<exists>q. hc_req c = Some q)"

context byte_stream begin

lemma read_append:
  assumes "ready c w" "0 < len" "w_alloc w = []" "client_read mb len c w = (n, bs, c1, w1)" "0 < n"
  obtains t d where "client_append bs c1 w1 = Inr (int (length bs), c\<lparr>hc_transport := t, hc_recv_buf := d\<rparr>, w1)"
    "ready (c\<lparr>hc_transport := t, hc_recv_buf := d\<rparr>) w1" "stream (c\<lparr>hc_transport := t, hc_recv_buf := d\<rparr>) w1 = stream c w"
    "w_alloc w1 = []" "w_delivered w1 = w_delivered w" "contents d \<noteq> []"
proof (rule client_read_cases [OF assms(1,2,4)])
  fix t assume *: "c1 = c\<lparr>hc_transport := t\<rparr>" "0 < n" "n = int (length bs)" "up t w1"
      "stream c w = contents (hc_recv_buf c) @ bs @ unread t w1" "w_alloc w1 = w_alloc w" "w_delivered w1 = w_delivered w"
  have ne: "bs \<noteq> []" using *(2,3) by auto
  have m: "malloc (w_alloc w1) = (True, [])" using *(6) assms(3) by simp
  have w1: "w1\<lparr>w_alloc := []\<rparr> = w1" using *(6) assms(3) by simp
  from append_read [OF assms(1) *(1,4) ne *(5) m] obtain d where
    "client_append bs c1 w1 = Inr (int (length bs), c1\<lparr>hc_recv_buf := d\<rparr>, w1)"
    "contents d = contents (hc_recv_buf c) @ bs" "ready (c1\<lparr>hc_recv_buf := d\<rparr>) w1"
    "stream (c1\<lparr>hc_recv_buf := d\<rparr>) w1 = stream c w" unfolding w1 by blast
  then show thesis using that [where t = t and d = d] *(1,6,7) assms(3) ne by simp
qed (use assms(5) in auto)

lemma read_failed:
  assumes "ready c w" "0 < len" "client_read mb len c w = (n, bs, c1, w1)" "n < 0"
  shows "ready c1 w1 \<and> stream c1 w1 = stream c w \<and> w_alloc w1 = w_alloc w \<and> w_delivered w1 = w_delivered w \<and>
    (\<exists>t. c1 = c\<lparr>hc_transport := t\<rparr>)"
  by (rule client_read_cases [OF assms(1-3)]; (blast | (use assms(4) in linarith)))

lemma read_closed:
  assumes "ready c w" "0 < len" "client_read mb len c w = (n, bs, c1, w1)" "n = 0"
  shows "w_delivered w1 = w_delivered w \<and> (\<exists>t. c1 = c\<lparr>hc_transport := t\<rparr>)"
  by (rule client_read_cases [OF assms(1-3)]; (blast | (use assms(4) in linarith)))

lemma firstline_scan_law:
  assumes "ready c w" "w_alloc w = []" "stream c w = status_line v (dec_str (nat code)) phrase @ CRLF @ s"
    and "known_status v code phrase" "fresh_body c" "contents (hc_recv_buf c) \<noteq> []"
  shows "\<exists>st c'. firstline_scan c w = ret (st, c', w) \<and> same_job c c' \<and>
     (st = HTTP_CLIENT_ERROR \<or> st = HTTP_CLIENT_READING_FIRSTLINE \<and> c' = c \<or>
      st = HTTP_CLIENT_READING_HEADERS \<and> ready c' w \<and> stream c' w = s \<and> fresh_body c')"
proof -
  let ?l = "status_line v (dec_str (nat code)) phrase" and ?buf = "contents (hc_recv_buf c)"
  have ok: "buf_ok (hc_recv_buf c)" "length ?buf < 2 ^ 31" using assms(1) by (auto simp: ready_def stream_def)
  have v: "buf_view (hc_recv_buf c) = Inr ?buf" using ok(1) by (rule buf_view_ok)
  have e: "?buf @ unread (hc_transport c) w = ?l @ CRLF @ s" using assms(3) by (simp add: stream_def)
  obtain r where r: "hc_resp c = Some r" using assms(5) by (auto simp: fresh_body_def)
  have len: "length ?l < 1024" "0 < length ?l" using assms(4) by (simp_all add: known_status_def status_line_def)
  show ?thesis
  proof (rule find_line_end_stream [OF e known_status_line(1) [OF assms(4)] ok(2)])
    assume "http_parser_find_line_end ?buf (length ?buf) = -1"
    then show ?thesis using v assms(6) by (simp add: firstline_scan_def same_job_def)
  next
    fix s' assume s': "http_parser_find_line_end ?buf (length ?buf) = int (length ?l)" "?buf = ?l @ CRLF @ s'"
      "s = s' @ unread (hc_transport c) w"
    let ?c1 = "c\<lparr>hc_resp := Some (r\<lparr>resp_version := Some v, resp_status_code_string := Some (dec_str (nat code)),
         resp_reason_phrase := Some phrase\<rparr>)\<rparr>"
    let ?c2 = "?c1\<lparr>hc_recv_buf := buf_consume (int (length ?l) + 2) (hc_recv_buf c)\<rparr>"
    have p: "http_parser_response_firstline (Some ?buf) (length ?l) (hc_resp c) (w_alloc w) = Inr (SUCCESS, hc_resp ?c1, [])"
      using known_status_line(2) [OF assms(4), of "CRLF @ s'" r] s'(2) r assms(2) by simp
    have "w\<lparr>w_alloc := []\<rparr> = w" using assms(2) by simp
    then have "firstline_done ?buf (length ?l) c w = ret (HTTP_CLIENT_READING_HEADERS, ?c2, w)"
      using p by (simp add: firstline_done_def)
    then have "firstline_scan c w = ret (HTTP_CLIENT_READING_HEADERS, ?c2, w)"
      using v s'(1) len assms(6) by (simp add: firstline_scan_def)
    moreover have "ready ?c2 w" "stream ?c2 w = s"
    proof -
      have b: "?buf = (?l @ CRLF) @ s'" using s'(2) by simp
      have k: "int (length (?l @ CRLF)) = int (length ?l) + 2" by (simp add: CRLF_def)
      show "ready ?c2 w" "stream ?c2 w = s"
        using consume_stream [OF assms(1) b] s'(3) stream_job [of ?c2 "c\<lparr>hc_recv_buf := buf_consume (int (length ?l) + 2) (hc_recv_buf c)\<rparr>"]
        unfolding k by simp_all
    qed
    moreover have "fresh_body ?c2" using assms(5) by (simp add: fresh_body_def)
    moreover have "same_job c ?c2" by (simp add: same_job_def)
    ultimately show ?thesis by blast
  qed
qed

lemma firstline_step:
  assumes "ready c w" "w_alloc w = []" "stream c w = status_line v (dec_str (nat code)) phrase @ CRLF @ s"
    and "known_status v code phrase" "fresh_body c"
  shows "\<exists>st c' w'. http_client_worktask_read_firstline mb c w = ret (st, c', w') \<and> same_job c c' \<and>
     w_delivered w' = w_delivered w \<and>
     (st = HTTP_CLIENT_ERROR \<or>
      ready c' w' \<and> w_alloc w' = [] \<and> fresh_body c' \<and>
      (st = HTTP_CLIENT_READING_FIRSTLINE \<and> stream c' w' = stream c w \<or>
       st = HTTP_CLIENT_READING_HEADERS \<and> stream c' w' = s))"
proof -
  obtain n bs c1 w1 where r: "client_read mb 8095 c w = (n, bs, c1, w1)" by (metis prod_cases4)
  consider "n < 0" | "n = 0" | "0 < n" by linarith
  then show ?thesis
  proof cases
    case 1
    then obtain t where t: "c1 = c\<lparr>hc_transport := t\<rparr>" "ready c1 w1" "stream c1 w1 = stream c w"
        "w_alloc w1 = w_alloc w" "w_delivered w1 = w_delivered w"
      using read_failed [OF assms(1) _ r] by auto
    have "http_client_worktask_read_firstline mb c w =
        ret (if would_block (w_errno w1) then HTTP_CLIENT_READING_FIRSTLINE else HTTP_CLIENT_ERROR, c1, w1)"
      using r 1 by (simp add: http_client_worktask_read_firstline_def)
    moreover have "fresh_body c1" "same_job c c1" using t(1) assms(5) by (simp_all add: fresh_body_def same_job_def)
    ultimately show ?thesis using t(2-5) assms(2) by auto
  next
    case 2
    then obtain t where "c1 = c\<lparr>hc_transport := t\<rparr>" "w_delivered w1 = w_delivered w"
      using read_closed [OF assms(1) _ r] by auto
    then show ?thesis using r 2 by (simp add: http_client_worktask_read_firstline_def same_job_def)
  next
    case 3
    show ?thesis
    proof (rule read_append [OF assms(1) _ assms(2) r 3])
      fix t d assume a: "client_append bs c1 w1 = Inr (int (length bs), c\<lparr>hc_transport := t, hc_recv_buf := d\<rparr>, w1)"
        "ready (c\<lparr>hc_transport := t, hc_recv_buf := d\<rparr>) w1" "stream (c\<lparr>hc_transport := t, hc_recv_buf := d\<rparr>) w1 = stream c w"
        "w_alloc w1 = []" "w_delivered w1 = w_delivered w" "contents d \<noteq> []"
      let ?c = "c\<lparr>hc_transport := t, hc_recv_buf := d\<rparr>"
      have "http_client_worktask_read_firstline mb c w = firstline_scan ?c w1"
        using r 3 a(1) by (simp add: http_client_worktask_read_firstline_def)
      moreover have fb: "fresh_body ?c" using assms(5) by (simp add: fresh_body_def)
      moreover obtain st c' where "firstline_scan ?c w1 = ret (st, c', w1)" "same_job ?c c'"
          "st = HTTP_CLIENT_ERROR \<or> st = HTTP_CLIENT_READING_FIRSTLINE \<and> c' = ?c \<or>
           st = HTTP_CLIENT_READING_HEADERS \<and> ready c' w1 \<and> stream c' w1 = s \<and> fresh_body c'"
        using firstline_scan_law [OF a(2,4) _ assms(4) fb, of s] a(3,6) assms(3) by auto
      moreover have "same_job c c'" using calculation(4) by (simp add: same_job_def)
      ultimately show ?thesis using a(2-5) by auto
    qed simp
  qed
qed

end

lemma body_state_law:
  assumes "ll_wf l" "ll_items l = map (\<lambda>h. kv (fst h) (snd h)) hs" "announces hs payload body"
    and "length payload < 2 ^ 31"
  shows "body_state (Some l) c =
     (if \<exists>te. map_of hs ''Transfer-Encoding'' = Some te \<and> strstr te ''chunked'' \<noteq> None
      then ret (HTTP_CLIENT_DECIPHER_CHONKINESS, c)
      else ret (if c_size (hd_size (hc_recv_buf c)) \<ge> int (length payload) then HTTP_CLIENT_RETURNING
                else HTTP_CLIENT_READING_BODY, c\<lparr>hc_content_length := int (length payload)\<rparr>))"
proof -
  note get = get_header_value_items [OF assms(1,2)]
  show ?thesis
  proof (cases "\<exists>te. map_of hs ''Transfer-Encoding'' = Some te \<and> strstr te ''chunked'' \<noteq> None")
    case True
    then show ?thesis using get [of "''Transfer-Encoding''"] by (auto simp: body_state_def)
  next
    case False
    then have cl: "map_of hs ''Content-Length'' = Some (dec_str (length payload))" "payload \<noteq> []"
      using assms(3) by (auto simp: announces_def)
    have p: "parse_string_to_int (Some (dec_str (length payload))) True = Inr (0, Some (int (length payload)))"
      using parse_int_dec_str [of "length payload"] assms(4) by simp
    show ?thesis
    proof (cases "map_of hs ''Transfer-Encoding''")
      case None
      then show ?thesis
        using get [of "''Transfer-Encoding''"] get [of "''Content-Length''"] cl p
        by (simp add: body_state_def err_codes Let_def)
    next
      case (Some te)
      then have "strstr te ''chunked'' = None" using False by simp
      then show ?thesis
        using Some get [of "''Transfer-Encoding''"] get [of "''Content-Length''"] cl p
        by (simp add: body_state_def err_codes Let_def)
    qed
  qed
qed

text \<open>The client in the states of the body, whatever way the body is sent.\<close>

definition response_inv ::
  "('s Transport \<Rightarrow> world \<Rightarrow> bool) \<Rightarrow> ('s Transport \<Rightarrow> world \<Rightarrow> byte list) \<Rightarrow> byte list \<Rightarrow>
     HTTPClientState \<Rightarrow> 's HTTP_Client \<Rightarrow> world \<Rightarrow> bool" where
  "response_inv up unread body st c w \<longleftrightarrow>
     (case st of
        HTTP_CLIENT_RETURNING \<Rightarrow> response_source c = Inr body
      | HTTP_CLIENT_READING_BODY \<Rightarrow> body_inv up unread body st c w \<and>
          hc_content_length c = int (length body) \<and> hc_decoded_body c = None
      | HTTP_CLIENT_ERROR \<Rightarrow> True
      | _ \<Rightarrow> \<exists>rest. chunk_inv up unread body rest st c w)"

context byte_stream begin

lemma headers_done_law:
  assumes "ready c w" "w_alloc w = []" "contents (hc_recv_buf c) = header_block hs @ s'"
    and "payload = s' @ unread (hc_transport c) w" "length (header_block hs @ payload) < 2 ^ 31"
    and "list_all clean_header hs" "announces hs payload body" "fresh_body c"
  shows "\<exists>st c'. headers_done (contents (hc_recv_buf c)) (length (header_block hs)) c w = ret (st, c', w) \<and>
     same_job c c' \<and> response_inv up unread body st c' w \<and> st \<noteq> HTTP_CLIENT_DISPOSING"
proof -
  obtain q where q: "hc_req c = Some q" using assms(8) by (auto simp: fresh_body_def)
  obtain l where l: "http_parser_headers (Some (header_block hs @ s')) (length (header_block hs)) (Some (req_headers q)) []
        = ret (SUCCESS, Some l, [])" "ll_wf l" "ll_items l = map (\<lambda>h. kv (fst h) (snd h)) hs"
    using headers_block [OF assms(6), of s' "req_headers q"] assms(4,5) by auto
  let ?d = "buf_consume (int (length (header_block hs))) (hc_recv_buf c)"
  let ?c2 = "c\<lparr>hc_req := Some (q\<lparr>req_headers := Some l\<rparr>), hc_recv_buf := ?d, hc_retries := 0\<rparr>"
  have w: "w\<lparr>w_alloc := []\<rparr> = w" using assms(2) by simp
  have hd: "headers_done (contents (hc_recv_buf c)) (length (header_block hs)) c w =
      out_bind (body_state (Some l) ?c2) (\<lambda>(st, c2). ret (st, c2, w))"
    unfolding headers_done_def assms(2,3) q using l(1) by (simp add: w)
  note cons = consume_stream [OF assms(1,3)]
  have rd2: "ready ?c2 w" "stream ?c2 w = payload" "contents ?d = s'" "buf_ok ?d"
    using cons assms(4) stream_job [of ?c2 "c\<lparr>hc_recv_buf := ?d\<rparr>"] by (auto simp: ready_def)
  have pl: "length payload < 2 ^ 31" using assms(5) by simp
  have sz: "c_size (hd_size ?d) = int (length s')"
    using contents_length [OF rd2(4)] rd2(3) assms(4) pl by (simp add: c_conv)
  have dec: "hc_decoded_body ?c2 = None" "decoded ?c2 = []" "decoded_ok ?c2"
    using assms(8) by (simp_all add: fresh_body_def decoded_def decoded_ok_def block_contents_def block_inv_def block_bytes_def)
  show ?thesis
  proof (cases "\<exists>te. map_of hs ''Transfer-Encoding'' = Some te \<and> strstr te ''chunked'' \<noteq> None")
    case True
    then have "headers_done (contents (hc_recv_buf c)) (length (header_block hs)) c w = ret (HTTP_CLIENT_DECIPHER_CHONKINESS, ?c2, w)"
      using hd body_state_law [OF l(2,3) assms(7) pl, of ?c2] by simp
    moreover from True assms(7) obtain cs ln0 rest where "payload = chunked_text cs ln0 rest" "list_all valid_chunk cs"
        "size_line ln0 0" "body = concat (map snd cs)"
      by (auto simp: announces_def)
    then have "chunk_inv up unread body rest HTTP_CLIENT_DECIPHER_CHONKINESS ?c2 w"
      using rd2 dec by (auto simp: chunk_inv_def chunks_left_def)
    then have "response_inv up unread body HTTP_CLIENT_DECIPHER_CHONKINESS ?c2 w" by (auto simp: response_inv_def)
    ultimately show ?thesis by (force simp: same_job_def)
  next
    case False
    let ?c3 = "?c2\<lparr>hc_content_length := int (length payload)\<rparr>"
    have b: "body = payload" using False assms(7) by (auto simp: announces_def)
    have rd3: "ready ?c3 w" "stream ?c3 w = payload" using rd2 stream_job [of ?c3 ?c2] by simp_all
    have "headers_done (contents (hc_recv_buf c)) (length (header_block hs)) c w =
        ret (if length s' \<ge> length payload then HTTP_CLIENT_RETURNING else HTTP_CLIENT_READING_BODY, ?c3, w)"
      using hd body_state_law [OF l(2,3) assms(7) pl, of ?c2] False sz by simp
    moreover have "response_inv up unread body HTTP_CLIENT_RETURNING ?c3 w" if "length s' \<ge> length payload"
      using that rd2(3,4) assms(4) b dec(1) response_source_buffer [of ?c3] by (simp add: response_inv_def)
    moreover have "response_inv up unread body HTTP_CLIENT_READING_BODY ?c3 w"
      using rd3 b dec(1) by (simp add: response_inv_def body_inv_def)
    ultimately show ?thesis by (force simp: same_job_def)
  qed
qed

lemma headers_step:
  assumes "ready c w" "w_alloc w = []" "stream c w = header_block hs @ payload" "list_all clean_header hs" "hs \<noteq> []"
    and "announces hs payload body" "fresh_body c"
  shows "\<exists>st c' w'. http_client_worktask_read_headers mb c w = ret (st, c', w') \<and> same_job c c' \<and>
     w_delivered w' = w_delivered w \<and> st \<noteq> HTTP_CLIENT_DISPOSING \<and>
     (st = HTTP_CLIENT_READING_HEADERS \<and> ready c' w' \<and> w_alloc w' = [] \<and> fresh_body c' \<and> stream c' w' = stream c w \<or>
      st \<noteq> HTTP_CLIENT_READING_HEADERS \<and> response_inv up unread body st c' w')"
proof -
  let ?buf = "contents (hc_recv_buf c)"
  let ?he = "http_parser_find_headers_end ?buf (length ?buf)"
  have ok: "buf_ok (hc_recv_buf c)" "length ?buf < 2 ^ 31" using assms(1) by (auto simp: ready_def stream_def)
  have v: "buf_view (hc_recv_buf c) = Inr ?buf" using ok(1) by (rule buf_view_ok)
  have sz: "hd_size (hc_recv_buf c) = int (length ?buf)" using contents_length [OF ok(1)] by simp
  have e: "?buf @ unread (hc_transport c) w = header_block hs @ payload" using assms(3) by (simp add: stream_def)
  show ?thesis
  proof (rule find_headers_end_stream [OF e assms(4,5) ok(2)])
    fix s' assume s': "?he = int (length (header_block hs)) - 4" "?buf = header_block hs @ s'"
      "payload = s' @ unread (hc_transport c) w"
    have l4: "4 < length (header_block hs)" by (rule headers_end_at(3) [OF assms(5)])
    then have "nat ?he + 4 = length (header_block hs)" "?he \<ge> 0" "hd_size (hc_recv_buf c) > 0"
      using s'(1,2) sz by auto
    then have "http_client_worktask_read_headers mb c w = headers_done ?buf (length (header_block hs)) c w"
      using v by (simp add: http_client_worktask_read_headers_def)
    moreover have "length (header_block hs @ payload) < 2 ^ 31" using assms(1,3) by (simp add: ready_def)
    then obtain st c' where "headers_done ?buf (length (header_block hs)) c w = ret (st, c', w)" "same_job c c'"
        "response_inv up unread body st c' w" "st \<noteq> HTTP_CLIENT_DISPOSING"
      using headers_done_law [OF assms(1,2) s'(2,3) _ assms(4,6,7)] by blast
    moreover have "\<not> response_inv up unread body HTTP_CLIENT_READING_HEADERS c' w"
      by (simp add: response_inv_def chunk_inv_def)
    ultimately show ?thesis by auto
  next
    assume none: "?he = -1"
    obtain n bs c1 w1 where r: "client_read mb 1023 c w = (n, bs, c1, w1)" by (metis prod_cases4)
    have er: "response_inv up unread body HTTP_CLIENT_ERROR x y" for x y by (simp add: response_inv_def)
    consider "n < 0" | "n = 0" | "0 < n" by linarith
    then show ?thesis
    proof cases
      case 1
      then obtain t where t: "c1 = c\<lparr>hc_transport := t\<rparr>" "ready c1 w1" "stream c1 w1 = stream c w"
          "w_alloc w1 = w_alloc w" "w_delivered w1 = w_delivered w"
        using read_failed [OF assms(1) _ r] by auto
      have "http_client_worktask_read_headers mb c w =
          ret (if would_block (w_errno w1) then HTTP_CLIENT_READING_HEADERS else HTTP_CLIENT_ERROR, c1, w1)"
        using r 1 v none by (simp add: http_client_worktask_read_headers_def)
      moreover have "fresh_body c1" "same_job c c1" using t(1) assms(7) by (simp_all add: fresh_body_def same_job_def)
      ultimately show ?thesis using t(2-5) assms(2) er by auto
    next
      case 2
      then obtain t where "c1 = c\<lparr>hc_transport := t\<rparr>" "w_delivered w1 = w_delivered w"
        using read_closed [OF assms(1) _ r] by auto
      then show ?thesis using r 2 v none er by (simp add: http_client_worktask_read_headers_def same_job_def)
    next
      case 3
      show ?thesis
      proof (rule read_append [OF assms(1) _ assms(2) r 3])
        fix t d assume a: "client_append bs c1 w1 = Inr (int (length bs), c\<lparr>hc_transport := t, hc_recv_buf := d\<rparr>, w1)"
          "ready (c\<lparr>hc_transport := t, hc_recv_buf := d\<rparr>) w1" "stream (c\<lparr>hc_transport := t, hc_recv_buf := d\<rparr>) w1 = stream c w"
          "w_alloc w1 = []" "w_delivered w1 = w_delivered w"
        have "http_client_worktask_read_headers mb c w = ret (HTTP_CLIENT_READING_HEADERS, c\<lparr>hc_transport := t, hc_recv_buf := d\<rparr>, w1)"
          using r 3 a(1) v none by (simp add: http_client_worktask_read_headers_def)
        moreover have "fresh_body (c\<lparr>hc_transport := t, hc_recv_buf := d\<rparr>)" using assms(7) by (simp add: fresh_body_def)
        moreover have "same_job c (c\<lparr>hc_transport := t, hc_recv_buf := d\<rparr>)" by (simp add: same_job_def)
        ultimately show ?thesis using a(2-5) by auto
      qed simp
    qed
  qed
qed

end

section \<open>Facts: a whole response\<close>

text \<open>What is known of the client in every state from the status line on.\<close>

definition whole_inv ::
  "('s Transport \<Rightarrow> world \<Rightarrow> bool) \<Rightarrow> ('s Transport \<Rightarrow> world \<Rightarrow> byte list) \<Rightarrow> byte list \<Rightarrow>
     (cstring \<times> cstring) list \<Rightarrow> byte list \<Rightarrow> byte list \<Rightarrow> HTTPClientState \<Rightarrow> 's HTTP_Client \<Rightarrow> world \<Rightarrow> bool" where
  "whole_inv up unread line hs payload body st c w \<longleftrightarrow>
     (case st of
        HTTP_CLIENT_READING_FIRSTLINE \<Rightarrow> client_ready up unread c w \<and> w_alloc w = [] \<and> fresh_body c \<and>
          stream_of unread c w = line @ CRLF @ header_block hs @ payload
      | HTTP_CLIENT_READING_HEADERS \<Rightarrow> client_ready up unread c w \<and> w_alloc w = [] \<and> fresh_body c \<and>
          stream_of unread c w = header_block hs @ payload
      | _ \<Rightarrow> response_inv up unread body st c w)"

lemma inv_state [simp]:
  "fresh_body (c\<lparr>hc_state := st'\<rparr>) = fresh_body c"
  "response_source (c\<lparr>hc_state := st'\<rparr>) = response_source c"
  by (simp_all add: fresh_body_def response_source_def)

lemma response_inv_state [simp]:
  "response_inv up unread body st (c\<lparr>hc_state := st'\<rparr>) w = response_inv up unread body st c w"
  by (cases st) (simp_all add: response_inv_def body_inv_def)

lemma whole_inv_state [simp]:
  "whole_inv up unread line hs payload body st (c\<lparr>hc_state := st'\<rparr>) w = whole_inv up unread line hs payload body st c w"
  by (cases st) (simp_all add: whole_inv_def)

lemma chunk_inv_source:
  assumes "chunk_inv up unread body rest st c w" "body \<noteq> []" "length body < 2 ^ 31"
  shows "response_inv up unread body st c w"
  using assms response_source_decoded [of c]
  by (cases st) (auto simp: response_inv_def chunk_inv_def)

lemma chunks_nonempty: "list_all valid_chunk cs \<Longrightarrow> cs \<noteq> [] \<Longrightarrow> \<exists>p\<in>set cs. snd p \<noteq> []"
  by (cases cs) (auto simp: valid_chunk_def)

lemma announces_body:
  assumes "announces hs payload body" "length payload < 2 ^ 31"
  shows "body \<noteq> []" "length body < 2 ^ 31"
proof -
  show "body \<noteq> []" 
    using assms(1) unfolding announces_def by (elim disjE exE conjE) (simp_all add: chunks_nonempty)
  have "length body \<le> length payload" using assms(1) chunked_text_length by (auto simp: announces_def)
  then show "length body < 2 ^ 31" using assms(2) by simp
qed

text \<open>A client that has sent its request, and the response on its way.\<close>

definition response_begins ::
  "('s Transport \<Rightarrow> world \<Rightarrow> bool) \<Rightarrow> ('s Transport \<Rightarrow> world \<Rightarrow> byte list) \<Rightarrow> cstring \<Rightarrow> int \<Rightarrow> cstring \<Rightarrow>
     (cstring \<times> cstring) list \<Rightarrow> byte list \<Rightarrow> 's HTTP_Client \<Rightarrow> world \<Rightarrow> bool" where
  "response_begins up unread v code phrase hs payload c w \<longleftrightarrow>
     hc_state c = HTTP_CLIENT_READING_FIRSTLINE \<and> client_ready up unread c w \<and> fresh_body c \<and>
     \<not> hc_blocking_mode c \<and> hc_on_success c \<and> w_alloc w = [] \<and>
     stream_of unread c w = status_line v (dec_str (nat code)) phrase @ CRLF @ header_block hs @ payload \<and>
     known_status v code phrase \<and> list_all clean_header hs \<and> hs \<noteq> []"

context byte_stream begin

text \<open>Work on the body.\<close>

lemma body_work:
  assumes "response_inv up unread body (hc_state c) c w" "body \<noteq> []" "length body < 2 ^ 31"
    and "hc_state c \<in> {HTTP_CLIENT_DECIPHER_CHONKINESS, HTTP_CLIENT_READING_BODY_CHUNKED, HTTP_CLIENT_READING_BODY}"
  shows "\<exists>st c' w'. state_work mb c w = ret (st, c', w') \<and> same_job c c' \<and> w_delivered w' = w_delivered w \<and>
     st \<noteq> HTTP_CLIENT_DISPOSING \<and> st \<notin> {HTTP_CLIENT_READING_FIRSTLINE, HTTP_CLIENT_READING_HEADERS} \<and>
     response_inv up unread body st c' w'"
proof -
  have nd: "\<not> chunk_inv up unread body rest st c' w'"
    if "st \<in> {HTTP_CLIENT_DISPOSING, HTTP_CLIENT_READING_FIRSTLINE, HTTP_CLIENT_READING_HEADERS}" for c' w' rest st
    using that by (auto simp: chunk_inv_def)
  consider (line) rest where "hc_state c = HTTP_CLIENT_DECIPHER_CHONKINESS" "chunk_inv up unread body rest HTTP_CLIENT_DECIPHER_CHONKINESS c w"
    | (data) rest where "hc_state c = HTTP_CLIENT_READING_BODY_CHUNKED" "chunk_inv up unread body rest HTTP_CLIENT_READING_BODY_CHUNKED c w"
    | (known) "hc_state c = HTTP_CLIENT_READING_BODY" "body_inv up unread body HTTP_CLIENT_READING_BODY c w"
        "hc_content_length c = int (length body)" "hc_decoded_body c = None"
    using assms(1,4) by (auto simp: response_inv_def)
  then show ?thesis
  proof cases
    case line
    then obtain st c' w' where "http_client_worktask_decipher_chonkiness mb c w = ret (st, c', w')"
        "chunk_inv up unread body rest st c' w'" "same_job c c'" "w_delivered w' = w_delivered w"
      using decipher_step [of body rest c w] by auto
    then show ?thesis using line(1) nd [of st rest c' w'] chunk_inv_source [OF _ assms(2,3)] by (auto simp: state_work_def)
  next
    case data
    then obtain st c' w' where "http_client_worktask_read_body_chunked mb c w = ret (st, c', w')"
        "chunk_inv up unread body rest st c' w'" "same_job c c'" "w_delivered w' = w_delivered w"
      using chunk_data_step [of body rest c w] assms(3) by auto
    then show ?thesis using data(1) nd [of st rest c' w'] chunk_inv_source [OF _ assms(2,3)] by (auto simp: state_work_def)
  next
    case known
    then obtain st c' w' where r: "http_client_worktask_read_body mb c w = ret (st, c', w')"
        "body_inv up unread body st c' w'" "same_job c c'" "w_delivered w' = w_delivered w"
        "hc_content_length c' = hc_content_length c" "hc_decoded_body c' = hc_decoded_body c"
      using read_body_step [of body c w] by auto
    have full: "contents (hc_recv_buf c') = body" if "st = HTTP_CLIENT_RETURNING"
      using that r(2,5) known(3) by (auto simp: body_inv_def stream_def)
    have "response_inv up unread body st c' w'"
      using r(2,5,6) known(3,4) full response_source_buffer [of c']
      by (cases st) (auto simp: response_inv_def body_inv_def)
    moreover have "st \<notin> {HTTP_CLIENT_DISPOSING, HTTP_CLIENT_READING_FIRSTLINE, HTTP_CLIENT_READING_HEADERS}"
      using r(2) by (auto simp: body_inv_def)
    ultimately show ?thesis using r(1,3,4) known(1) by (auto simp: state_work_def)
  qed
qed

text \<open>One unit of work in any state that reads, then with the handing out.\<close>

lemma reading_work:
  assumes "whole_inv up unread (status_line v (dec_str (nat code)) phrase) hs payload body (hc_state c) c w"
    and "known_status v code phrase" "list_all clean_header hs" "hs \<noteq> []" "announces hs payload body"
    and "body \<noteq> []" "length body < 2 ^ 31"
    and "hc_state c \<notin> {HTTP_CLIENT_ERROR, HTTP_CLIENT_DISPOSING, HTTP_CLIENT_RETURNING}"
  shows "\<exists>st c' w'. state_work mb c w = ret (st, c', w') \<and> same_job c c' \<and>
     st \<noteq> HTTP_CLIENT_DISPOSING \<and> w_delivered w' = w_delivered w \<and>
     (st = HTTP_CLIENT_ERROR \<or>
      whole_inv up unread (status_line v (dec_str (nat code)) phrase) hs payload body st (c'\<lparr>hc_state := st\<rparr>) w')"
proof -
  let ?W = "whole_inv up unread (status_line v (dec_str (nat code)) phrase) hs payload body"
  have lift: "?W st c' w'" if "response_inv up unread body st c' w'"
      "st \<notin> {HTTP_CLIENT_READING_FIRSTLINE, HTTP_CLIENT_READING_HEADERS}" for st c' w'
    using that by (cases st) (auto simp: whole_inv_def)
  consider (line) "hc_state c = HTTP_CLIENT_READING_FIRSTLINE" | (hdr) "hc_state c = HTTP_CLIENT_READING_HEADERS"
    | (bdy) "hc_state c \<in> {HTTP_CLIENT_DECIPHER_CHONKINESS, HTTP_CLIENT_READING_BODY_CHUNKED, HTTP_CLIENT_READING_BODY}"
    using assms(1,8) by (cases "hc_state c") (auto simp: whole_inv_def response_inv_def chunk_inv_def)
  then show ?thesis
  proof cases
    case line
    then obtain st c' w' where "http_client_worktask_read_firstline mb c w = ret (st, c', w')" "same_job c c'"
        "w_delivered w' = w_delivered w" "st = HTTP_CLIENT_ERROR \<or> ready c' w' \<and> w_alloc w' = [] \<and> fresh_body c' \<and>
          (st = HTTP_CLIENT_READING_FIRSTLINE \<and> stream c' w' = stream c w \<or>
           st = HTTP_CLIENT_READING_HEADERS \<and> stream c' w' = header_block hs @ payload)"
      using firstline_step [OF _ _ _ assms(2), of c w "header_block hs @ payload"] assms(1)
      by (auto simp: whole_inv_def)
    then show ?thesis using line assms(1) by (auto simp: state_work_def whole_inv_def)
  next
    case hdr
    then obtain st c' w' where r: "http_client_worktask_read_headers mb c w = ret (st, c', w')" "same_job c c'"
        "w_delivered w' = w_delivered w" "st \<noteq> HTTP_CLIENT_DISPOSING"
        "st = HTTP_CLIENT_READING_HEADERS \<and> ready c' w' \<and> w_alloc w' = [] \<and> fresh_body c' \<and> stream c' w' = stream c w \<or>
         st \<noteq> HTTP_CLIENT_READING_HEADERS \<and> response_inv up unread body st c' w'"
      using headers_step [OF _ _ _ assms(3,4,5), of c w] assms(1) by (auto simp: whole_inv_def)
    have "st \<noteq> HTTP_CLIENT_READING_FIRSTLINE" using r(5) by (auto simp: response_inv_def chunk_inv_def)
    then have "?W st c' w'" using r(5) lift [of st c' w'] hdr assms(1) by (auto simp: whole_inv_def)
    then show ?thesis using r(1-4) hdr by (auto simp: state_work_def)
  next
    case bdy
    then have "response_inv up unread body (hc_state c) c w" using assms(1) by (auto simp: whole_inv_def)
    from body_work [OF this assms(6,7) bdy] show ?thesis by (auto dest: lift)
  qed
qed

lemma whole_work:
  assumes "whole_inv up unread (status_line v (dec_str (nat code)) phrase) hs payload body (hc_state c) c w"
    and "known_status v code phrase" "list_all clean_header hs" "hs \<noteq> []" "announces hs payload body"
    and "body \<noteq> []" "length body < 2 ^ 31" "\<not> hc_blocking_mode c" "hc_on_success c"
    and "hc_state c \<notin> {HTTP_CLIENT_ERROR, HTTP_CLIENT_DISPOSING}"
  shows "\<exists>st c' w'. state_work mb c w = ret (st, c', w') \<and> same_job c c' \<and>
     (st = HTTP_CLIENT_DISPOSING \<and> w_delivered w' = w_delivered w @ [(hc_context c, body)] \<or>
      st \<noteq> HTTP_CLIENT_DISPOSING \<and> w_delivered w' = w_delivered w \<and>
        (st = HTTP_CLIENT_ERROR \<or>
         whole_inv up unread (status_line v (dec_str (nat code)) phrase) hs payload body st (c'\<lparr>hc_state := st\<rparr>) w'))"
proof (cases "hc_state c = HTTP_CLIENT_RETURNING")
  case True
  then have "response_source c = Inr body" using assms(1) by (simp add: whole_inv_def response_inv_def)
  then show ?thesis
    by (rule returning_delivers [OF _ assms(8,9), of body w]) (use True in \<open>auto simp: state_work_def same_job_def\<close>)
next
  case False
  then show ?thesis using reading_work [OF assms(1-7)] assms(10) by blast
qed

lemma whole_frame:
  assumes "w_in w' = w_in w" "w_alloc w' = w_alloc w" "whole_inv up unread line hs payload body st c w"
  shows "whole_inv up unread line hs payload body st c w'"
  using assms(2,3) ready_frame [OF assms(1), of c] stream_frame [OF assms(1), of c]
  by (auto simp: whole_inv_def response_inv_def chunk_inv_def body_inv_def split: HTTPClientState.splits)

text \<open>Runs over a whole response.\<close>

lemma begins_inv:
  assumes "response_begins up unread v code phrase hs payload c w"
  shows "whole_inv up unread (status_line v (dec_str (nat code)) phrase) hs payload body (hc_state c) c w" "length payload < 2 ^ 31"
  using assms by (auto simp: response_begins_def whole_inv_def ready_def)

lemma begins_work:
  assumes "response_begins up unread v code phrase hs payload c0 w0" "announces hs payload body"
    and "whole_inv up unread (status_line v (dec_str (nat code)) phrase) hs payload body (hc_state c) c w" "same_job c0 c"
    and "hc_state c \<notin> {HTTP_CLIENT_ERROR, HTTP_CLIENT_DISPOSING}"
  shows "\<exists>st c' w'. state_work mb c w = ret (st, c', w') \<and> same_job c c' \<and>
     (st = HTTP_CLIENT_DISPOSING \<and> w_delivered w' = w_delivered w @ [(hc_context c, body)] \<or>
      st \<noteq> HTTP_CLIENT_DISPOSING \<and> w_delivered w' = w_delivered w \<and>
        (st = HTTP_CLIENT_ERROR \<or>
         whole_inv up unread (status_line v (dec_str (nat code)) phrase) hs payload body st (c'\<lparr>hc_state := st\<rparr>) w'))"
proof -
  have s: "known_status v code phrase" "list_all clean_header hs" "hs \<noteq> []" "\<not> hc_blocking_mode c" "hc_on_success c"
    using assms(1,4) by (auto simp: response_begins_def same_job_def)
  note b = announces_body [OF assms(2) begins_inv(2) [OF assms(1)]]
  show ?thesis by (rule whole_work [OF assms(3) s(1-3) assms(2) b s(4,5) assms(5)])
qed

lemma run_delivers:
  assumes "response_begins up unread v code phrase hs payload c w" "announces hs payload body" "task_run mb (c, w) (c', w')"
  shows "w_delivered w' =
       w_delivered w @ (if hc_state c' = HTTP_CLIENT_DISPOSING then [(hc_context c, body)] else []) \<and>
     (hc_state c' \<in> {HTTP_CLIENT_ERROR, HTTP_CLIENT_DISPOSING} \<or>
      (\<forall>t. \<exists>c2 w2. http_client_taskwork mb (Some c') t w' = ret (Some c2, w2)))"
proof -
  let ?I = "\<lambda>c w. whole_inv up unread (status_line v (dec_str (nat code)) phrase) hs payload body (hc_state c) c w"
  have clock: "?I d (snd (SystemMonotonicMS x))" if "?I d x" for d x by (rule whole_frame [OF _ _ that]) simp_all
  have s0: "hc_state c \<notin> {HTTP_CLIENT_ERROR, HTTP_CLIENT_DISPOSING}" using assms(1) by (simp add: response_begins_def)
  have work: "\<exists>st d' x'. state_work mb d x = ret (st, d', x') \<and> same_job d d' \<and>
     (st = HTTP_CLIENT_DISPOSING \<and> w_delivered x' = w_delivered x @ [(hc_context d, body)] \<or>
      st \<noteq> HTTP_CLIENT_DISPOSING \<and> w_delivered x' = w_delivered x \<and> (st = HTTP_CLIENT_ERROR \<or> ?I (d'\<lparr>hc_state := st\<rparr>) x'))"
    if "?I d x" "same_job c d" "hc_state d \<notin> {HTTP_CLIENT_ERROR, HTTP_CLIENT_DISPOSING}" for d x
    using begins_work [OF assms(1,2) that] by simp
  have "job_state ?I body c w (fst (c', w')) (snd (c', w'))"
    by (rule task_run_invariant [OF assms(3) refl begins_inv(1) [OF assms(1)] s0 clock work])
  then have js: "job_state ?I body c w c' w'" by simp
  have "\<exists>c2 w2. http_client_taskwork mb (Some c') t w' = ret (Some c2, w2)"
    if no: "hc_state c' \<notin> {HTTP_CLIENT_ERROR, HTTP_CLIENT_DISPOSING}" for t
  proof -
    have I: "?I c' w'" "same_job c c'" using js no by (auto simp: job_state_def)
    obtain st c1 w1 where "state_work mb c' (snd (SystemMonotonicMS w')) = ret (st, c1, w1)"
      using work [OF clock [OF I(1)] I(2) no] by auto
    then show ?thesis using taskwork_returns no by blast
  qed
  then show ?thesis using js by (auto simp: job_state_def)
qed

end

section \<open>Over a plain connection\<close>

definition whole_I where
  "whole_I line hs payload body c w = whole_inv plain_up plain_unread line hs payload body (hc_state c) c w"

lemma whole_I_clock: "whole_I line hs payload body c w \<Longrightarrow> whole_I line hs payload body c (snd (SystemMonotonicMS w))"
  unfolding whole_I_def by (rule plain.whole_frame) simp_all

text \<open>A client that has sent its request over a plain connection, and the response on its way.\<close>

definition response_start ::
  "cstring \<Rightarrow> int \<Rightarrow> cstring \<Rightarrow> (cstring \<times> cstring) list \<Rightarrow> byte list \<Rightarrow> 's HTTP_Client \<Rightarrow> world \<Rightarrow> bool" where
  "response_start v code phrase hs payload c w \<longleftrightarrow>
     hc_state c = HTTP_CLIENT_READING_FIRSTLINE \<and> \<not> tr_use_tls (hc_transport c) \<and> hc_recv_buf c = empty_data \<and>
     fresh_body c \<and> \<not> hc_blocking_mode c \<and> hc_on_success c \<and> w_alloc w = [] \<and>
     plain_unread (hc_transport c) w = status_line v (dec_str (nat code)) phrase @ CRLF @ header_block hs @ payload \<and>
     length (plain_unread (hc_transport c) w) < 2 ^ 31 \<and>
     known_status v code phrase \<and> list_all clean_header hs \<and> hs \<noteq> []"

lemma start_begins:
  "response_start v code phrase hs payload c w \<Longrightarrow> response_begins plain_up plain_unread v code phrase hs payload c w"
  by (auto simp: response_start_def response_begins_def client_ready_def plain_up_def stream_of_def
      buf_ok_def contents_def empty_data_def block_inv_def block_contents_def block_bytes_def)

section \<open>Examples\<close>

text \<open>A response with a body of five bytes, received in segments that cut the header block and the body.\<close>

definition response_example :: "nat HTTP_Client" where
  "response_example = (zero_client mb_example)\<lparr>hc_state := HTTP_CLIENT_READING_FIRSTLINE, hc_on_success := True,
     hc_context := 7, hc_req := Some zero_request, hc_resp := Some zero_response,
     hc_transport := (zero_transport mb_example)\<lparr>tr_tcp := zero_tcp\<lparr>tcp_fd := 3\<rparr>\<rparr>\<rparr>"

definition response_world :: world where
  "response_world = (world0 0)\<lparr>w_in := (\<lambda>_. [])(3 := [Data (''HTTP/1.1 200 OK'' @ CRLF @ ''Content-Le''),
     RxErr EAGAIN, Data (''ngth: 5'' @ CRLF @ CRLF @ ''ab''), Data ''cde''])\<rparr>"

lemma response_example_start:
  "response_start ''HTTP/1.1'' 200 ''OK'' [(''Content-Length'', ''5'')] ''abcde'' response_example response_world"
proof -
  have d: "dec_str 200 = ''200''" "HttpStatus_reasonPhrase 200 = Some ''OK''" by code_simp+
  have h: "header_block [(''Content-Length'', ''5'')] = ''Content-Length: 5'' @ CRLF @ CRLF" by code_simp
  show ?thesis
  by (simp add: response_start_def response_example_def response_world_def zero_client_def zero_transport_def
     fresh_body_def world0_def plain_unread_def h d status_line_def known_status_def clean_header_def
     hdr_ws_def hdr_lws_def is_c_str_def CRLF_def)
qed

lemma response_example_announces: "announces [(''Content-Length'', ''5'')] ''abcde'' ''abcde''"
proof -
  have "dec_str (length ''abcde'') = ''5''" by code_simp
  then show ?thesis by (simp add: announces_def)
qed

lemma response_example_length:
  "length (status_line ''HTTP/1.1'' (dec_str 200) ''OK'') + (length CRLF + length (header_block [(''Content-Length'', ''5'')])) < 2147483643"
proof -
  have "dec_str 200 = ''200''" by code_simp
  then show ?thesis by (simp add: status_line_def header_block_def header_text_def CRLF_def)
qed

text \<open>C5: A whole response. The request has been sent over a plain connection; the server answers with
  a status line of a known code, any clean header fields and a body (not empty) that the fields announce, either
  with Content-Length or in chunks without trailer fields, in any segmentation and with any interruptions. Along every run of
  the task by the scheduler no call faults or hangs, nothing is handed to the callback early, and if the
  run ends with success then the callback was called exactly once, with exactly the body.\<close>

theorem response_exact:
  assumes "response_start v code phrase hs payload c w" "announces hs payload body" "task_run mb (c, w) (c', w')"
  shows "w_delivered w' =
       w_delivered w @ (if hc_state c' = HTTP_CLIENT_DISPOSING then [(hc_context c, body)] else []) \<and>
     (hc_state c' \<in> {HTTP_CLIENT_ERROR, HTTP_CLIENT_DISPOSING} \<or>
      (\<forall>t. \<exists>c2 w2. http_client_taskwork mb (Some c') t w' = ret (Some c2, w2)))"
  by (rule plain.run_delivers [OF start_begins [OF assms(1)] assms(2,3)])

theorem response_exact_witness:
  "\<exists>c' w'. task_run mb_example (response_example, response_world) (c', w') \<and> w_delivered w' = [(7, ''abcde'')]"
proof -
  have "map_option (\<lambda>(c, w). hc_state c) (task_iter mb_example 9 response_example response_world) =
      Some HTTP_CLIENT_DISPOSING" by code_simp
  then obtain c' w' where i: "task_iter mb_example 9 response_example response_world = Some (c', w')"
      "hc_state c' = HTTP_CLIENT_DISPOSING" by (auto simp: case_prod_unfold)
  have r: "task_run mb_example (response_example, response_world) (c', w')"
    by (rule task_iter_run [OF task_run.task_refl i(1)])
  then show ?thesis
    using response_exact [OF response_example_start response_example_announces r] i(2)
    by (auto simp: response_world_def world0_def response_example_def)
qed

end
