(* ===== verification/HTTP_Blocking.thy ===== *)
theory HTTP_Blocking imports HTTP_Progress HTTP_Response
begin

text \<open>
  The blocking calls of \<^verbatim>\<open>modules/src/http_client.c\<close> (\<^verbatim>\<open>http_blocking_get\<close>, \<^verbatim>\<open>http_blocking_post\<close>): with the reading
  states dealt with in \<^verbatim>\<open>HTTP_Progress\<close>, the rounds that connect, build and send the request come to an end as
  well, so the calls do; and the guard of their timeout fails once the uptime passes 2^31 milliseconds.
\<close>

section \<open>Sending, building, connecting\<close>

definition send_ready :: "'s HTTP_Client \<Rightarrow> bool" where
  "send_ready c \<longleftrightarrow> 0 \<le> hc_bytes_sent c \<and> hc_bytes_sent c < hc_request_length c \<and> hc_request_length c < 2 ^ 31"

lemma send_step_cases:
  assumes "blk_inv c w" "send_ready c" "http_client_worktask_send_request mb c w = ret (st, c', w')"
  defines "fd \<equiv> tcp_fd (tr_tcp (hc_transport c))"
  shows "blk_inv c' w'" "tcp_fd (tr_tcp (hc_transport c')) = fd"
    "st \<in> {HTTP_CLIENT_READING_FIRSTLINE, HTTP_CLIENT_ERROR} \<or>
     st = HTTP_CLIENT_SENDING_REQUEST \<and> send_ready c' \<and> length (w_send w' fd) < length (w_send w fd)"
proof -
  let ?buf = "block_bytes (hc_request_buffer c)" let ?rem = "hc_request_length c - hc_bytes_sent c"
  let ?data = "take (nat ?rem) (drop (nat (hc_bytes_sent c)) ?buf)"
  have rem: "c_size ?rem = ?rem" "0 < ?rem" using assms(2) by (simp_all add: send_ready_def c_size_id)
  have fit: "\<not> int (length ?buf) < hc_bytes_sent c + ?rem"
    using assms(3) rem by (auto simp: http_client_worktask_send_request_def Let_def split: if_splits)
  then have "nat (hc_request_length c) \<le> length ?buf" by simp
  then have len: "length ?data = nat ?rem" using assms(2) by (simp add: send_ready_def nat_diff_distrib)
  obtain n w1 where s: "sys_send fd ?data w = (n, w1)" by (cases "sys_send fd ?data w")
  have tls: "\<not> tr_use_tls (hc_transport c)" using assms(1) by (simp add: blk_inv_def)
  then have wr: "transport_write mb (Some (hc_transport c)) ?data w = (n, Some (hc_transport c), w1)"
    using s by (simp add: transport_write_def tcp_client_write_simple_def fd_def)
  obtain now w2 where clk: "SystemMonotonicMS w1 = (now, w2)" by (cases "SystemMonotonicMS w1")
  have w2: "w_in w2 = w_in w1" "w_send w2 = w_send w1" using monotonic_frame(3,8) [of w1] clk by simp_all
  have w1: "w_in w1 = w_in w" "n \<le> ?rem" "w_send w fd = [] \<Longrightarrow> n = ?rem"
      "w_send w fd \<noteq> [] \<Longrightarrow> length (w_send w1 fd) < length (w_send w fd)"
    using s len rem(2) by (auto simp: sys_send_def Let_def next_of_def split: tx.splits list.splits)
  have cs: "c_size (hc_bytes_sent c + n) = hc_bytes_sent c + n" "c_size (hc_request_length c) = hc_request_length c" if "0 < n"
    using that w1(2) assms(2) by (simp_all add: send_ready_def c_size_id)
  note def = assms(3) [unfolded http_client_worktask_send_request_def Let_def rem(1) if_not_P [OF fit] wr prod.case option.sel clk]
  have "w_in w' = w_in w \<and> hc_transport c' = hc_transport c \<and> hc_recv_buf c' = hc_recv_buf c \<and>
      hc_chunk_remaining c' = hc_chunk_remaining c \<and> hc_req c' = hc_req c"
    using def w1(1) w2(1) by (auto split: if_splits)
  then show "blk_inv c' w'" "tcp_fd (tr_tcp (hc_transport c')) = fd"
    using assms(1) by (simp_all add: blk_inv_def plain_unread_def fd_def)
  show "st \<in> {HTTP_CLIENT_READING_FIRSTLINE, HTTP_CLIENT_ERROR} \<or>
     st = HTTP_CLIENT_SENDING_REQUEST \<and> send_ready c' \<and> length (w_send w' fd) < length (w_send w fd)"
  proof (cases "w_send w fd = []")
    case True
    then have "n = ?rem" "0 < n" using w1(3) rem(2) by simp_all
    then show ?thesis using def cs by (auto split: if_splits)
  next
    case False
    then show ?thesis
      using def cs w1(2,4) w2 assms(2) by (auto simp: send_ready_def split: if_splits)
  qed
qed

lemma send_never_hangs: "http_client_worktask_send_request mb c w \<noteq> None"
  by (auto simp: http_client_worktask_send_request_def Let_def split: prod.splits)

lemma send_ready_state [simp]: "send_ready (c\<lparr>hc_state := st\<rparr>) = send_ready c"
  by (simp add: send_ready_def)

lemma sending_ends:
  assumes "blk_inv c w" "send_ready c" "hc_state c = HTTP_CLIENT_SENDING_REQUEST"
  shows "\<exists>r. blocking_loop mb timeout_ms start c w = Some r"
  using assms
proof (induction "length (w_send w (tcp_fd (tr_tcp (hc_transport c))))" arbitrary: c w rule: less_induct)
  case less
  let ?w = "snd (SystemMonotonicMS w)"
  have I: "blk_inv c ?w" using less.prems(1) by simp
  show ?case
  proof (rule loop_step [OF blk_inv_req [OF less.prems(1)]])
    show "blocking_step mb c ?w = Some (http_client_worktask_send_request mb c ?w)"
      using less.prems(3) by (simp add: blocking_step_def)
    fix st c1 w1 assume "http_client_worktask_send_request mb c ?w = ret (st, c1, w1)"
    note s = send_step_cases [OF I less.prems(2) this]
    then have k: "req_kept (c1\<lparr>hc_state := st\<rparr>)" using blk_inv_req by (fastforce simp: req_kept_def)
    from s(3) show "\<exists>x. blocking_loop mb timeout_ms start (c1\<lparr>hc_state := st\<rparr>) w1 = Some x"
      using reading_ends [of "c1\<lparr>hc_state := st\<rparr>" w1] exit_ends_if [OF k] s(1,2)
        less.hyps [of w1 "c1\<lparr>hc_state := st\<rparr>"] by auto
  qed (rule send_never_hangs)
qed

text \<open>The sizes that keep the length of the request within an \<^verbatim>\<open>int\<close>.\<close>

definition small_request :: "'s HTTP_Client \<Rightarrow> bool" where
  "small_request c \<longleftrightarrow> length (up_host (hc_url_parts c)) < 128 \<and> length (up_path (hc_url_parts c)) < 512 \<and>
     (\<forall>r. hc_req c = Some r \<longrightarrow> req_body_len r < 2 ^ 30)"

lemma build_cases:
  assumes "blk_inv c w" "small_request c" "http_client_worktask_build_request c w = ret (st, c', w')"
  shows "blk_inv c' w' \<and> (st = HTTP_CLIENT_ERROR \<or> st = HTTP_CLIENT_SENDING_REQUEST \<and> send_ready c')"
proof -
  obtain req where req: "hc_req c = Some req"
    using assms(3) by (cases "hc_req c") (simp_all add: http_client_worktask_build_request_def)
  define path where "path = (if up_path (hc_url_parts c) \<noteq> [] then up_path (hc_url_parts c) else ''/'')"
  define bl where "bl = (if req_body req \<noteq> None \<and> req_body_len req > 0 then nat (req_body_len req) else 0)"
  define hdr where "hdr = request_head (method_str (hc_method c)) path (up_host (hc_url_parts c))
      (if bl > 0 \<and> (hc_method c = HTTP_POST \<or> hc_method c = HTTP_PUT) then Some bl else None)"
  have bl: "bl < 2 ^ 30" using assms(2) req by (auto simp: bl_def small_request_def)
  have short: "length path < 512" "length (up_host (hc_url_parts c)) < 128" using assms(2) by (auto simp: path_def small_request_def)
  have "length hdr \<le> length path + length (up_host (hc_url_parts c)) + 75 +
      (if (if bl > 0 \<and> (hc_method c = HTTP_POST \<or> hc_method c = HTTP_PUT) then Some bl else None) = None then 0 else 68)"
    unfolding hdr_def using short bl by (intro request_head_length) (simp_all split: if_splits)
  then have "length hdr \<le> length path + length (up_host (hc_url_parts c)) + 143" by (simp split: if_splits)
  then have l: "length hdr < 1024" using short by simp
  have "0 < length hdr" by (simp add: hdr_def request_head_def)
  then have pos: "0 < int (length hdr) + int bl" by linarith
  have ci: "c_int (int (length hdr)) = int (length hdr)" "c_int (int (length hdr) + int bl) = int (length hdr) + int bl"
    using l bl by (simp_all add: c_int_id)
  obtain ok w1 where m: "w_malloc w = (ok, w1)" by (cases "w_malloc w")
  then obtain a where w1: "w1 = w\<lparr>w_alloc := a\<rparr>" by (auto simp: w_malloc_def)
  note def = assms(3) [unfolded http_client_worktask_build_request_def req option.case Let_def path_def [symmetric]
      bl_def [symmetric] hdr_def [symmetric] m prod.case ci]
  have "w' = w1 \<and> (st = HTTP_CLIENT_ERROR \<and> c' = c\<lparr>hc_request_buffer := None\<rparr> \<or>
      st = HTTP_CLIENT_SENDING_REQUEST \<and> (\<exists>b. c' = c\<lparr>hc_request_buffer := Some b, hc_request_length := int (length hdr) + int bl, hc_bytes_sent := 0\<rparr>))"
    using def by (simp only: split: if_split_asm) (auto simp del: of_nat_add)
  then show ?thesis
    using assms(1) pos l bl by (auto simp: w1 blk_inv_def plain_unread_def send_ready_def)
qed

lemma if_not_None: "x \<noteq> None \<Longrightarrow> y \<noteq> None \<Longrightarrow> (if P then x else y) \<noteq> None"
  by simp

lemma build_never_hangs: "http_client_worktask_build_request c w \<noteq> None"
proof (cases "hc_req c")
  case (Some req)
  obtain ok w1 where "w_malloc w = (ok, w1)" by (cases "w_malloc w")
  then show ?thesis
    unfolding http_client_worktask_build_request_def Some option.case Let_def
    by (simp only: prod.case) (intro if_not_None option.distinct(2))
qed (simp add: http_client_worktask_build_request_def)

lemma building_ends:
  assumes "blk_inv c w" "small_request c" "hc_state c = HTTP_CLIENT_BUILDING_REQUEST"
  shows "\<exists>r. blocking_loop mb timeout_ms start c w = Some r"
proof (rule loop_step [OF blk_inv_req [OF assms(1)]])
  let ?w = "snd (SystemMonotonicMS w)"
  have I: "blk_inv c ?w" using assms(1) by simp
  show "blocking_step mb c ?w = Some (http_client_worktask_build_request c ?w)" using assms(3) by (simp add: blocking_step_def)
  show "http_client_worktask_build_request c ?w \<noteq> None" by (rule build_never_hangs)
  fix st c1 w1 assume "http_client_worktask_build_request c ?w = ret (st, c1, w1)"
  note b = build_cases [OF I assms(2) this]
  then have k: "req_kept (c1\<lparr>hc_state := st\<rparr>)" using blk_inv_req by (fastforce simp: req_kept_def)
  show "\<exists>x. blocking_loop mb timeout_ms start (c1\<lparr>hc_state := st\<rparr>) w1 = Some x"
    using b sending_ends [of "c1\<lparr>hc_state := st\<rparr>" w1] exit_ends_if [OF k] by auto
qed

text \<open>Opening a connection touches descriptors and the scripts of the calls it makes, and nothing else.\<close>

definition net_kept :: "world \<Rightarrow> world \<Rightarrow> bool" where
  "net_kept w w' \<longleftrightarrow> w_in w' = w_in w \<and> w_out w' = w_out w \<and> w_alloc w' = w_alloc w \<and> w_delivered w' = w_delivered w \<and>
     w_sched w' = w_sched w \<and> w_clock w' = w_clock w"

lemma net_kept_refl [simp]: "net_kept w w"
  by (simp add: net_kept_def)

lemma net_kept_trans [trans]: "net_kept w w1 \<Longrightarrow> net_kept w1 w2 \<Longrightarrow> net_kept w w2"
  by (simp add: net_kept_def)

lemma open_frame:
  "sys_socket w = (fd, w') \<Longrightarrow> net_kept w w'"
  "tcp_client_set_nonblocking fd b w = (r, w') \<Longrightarrow> net_kept w w'"
  "sys_connect w = (r, w') \<Longrightarrow> net_kept w w'"
  "sys_poll w = (r', w') \<Longrightarrow> net_kept w w'"
  "tcp_client_finish_connect fd w = (r, w') \<Longrightarrow> net_kept w w'"
  "sys_getaddrinfo w = (x, w') \<Longrightarrow> net_kept w w'"
  by (auto simp: net_kept_def sys_socket_def tcp_client_set_nonblocking_def sys_getfl_def sys_setfl_def sys_connect_def
      sys_poll_def tcp_client_finish_connect_def sys_so_error_def sys_getaddrinfo_def Let_def
      split: if_splits option.splits pollres.splits)

lemma close_frame [simp]: "net_kept w (sys_close fd w') = net_kept w w'" "net_kept (sys_close fd w) w' = net_kept w w'"
  by (simp_all add: net_kept_def sys_close_def)

lemma connect_loop_frame: "tcp_connect_loop w = (r, w') \<Longrightarrow> net_kept w w'"
proof (induction w rule: tcp_connect_loop.induct)
  case (1 w)
  obtain cres w1 where c: "sys_connect w = (cres, w1)" by (cases "sys_connect w")
  with "1.prems" "1.IH" [OF c [symmetric]] open_frame(3) [OF c] show ?case
    by (subst (asm) tcp_connect_loop.simps) (auto split: if_splits intro: net_kept_trans)
qed

lemma poll_loop_frame: "tcp_poll_loop w = (r, w') \<Longrightarrow> net_kept w w'"
proof (induction w rule: tcp_poll_loop.induct)
  case (1 w)
  obtain cres w1 where c: "sys_poll w = (cres, w1)" by (cases "sys_poll w")
  with "1.prems" "1.IH" [OF c [symmetric]] open_frame(4) [OF c] show ?case
    by (subst (asm) tcp_poll_loop.simps) (auto split: if_splits intro: net_kept_trans)
qed

lemma wait_writable_net: "tcp_client_wait_writable fd t w = (r, w') \<Longrightarrow> net_kept w w'"
  by (auto simp: tcp_client_wait_writable_def dest: poll_loop_frame split: prod.splits)

lemma blocking_loop_frame: "tcp_blocking_loop ais t e c w = (r, c', w') \<Longrightarrow> net_kept w w'"
proof (induction ais arbitrary: e c w)
  case (Cons ai ais)
  from Cons.prems show ?case
    by (auto simp: Let_def net_kept_def sys_close_def split: prod.splits if_splits
        dest!: Cons.IH [unfolded net_kept_def] open_frame(1,2,5) [unfolded net_kept_def]
          connect_loop_frame [unfolded net_kept_def] wait_writable_net [unfolded net_kept_def])
qed simp

lemma blocking_init_frame:
  "tcp_client_blocking_init (Some c) (Some h) (Some p) t w = (r, c', w') \<Longrightarrow> net_kept w w'"
  by (auto simp: tcp_client_blocking_init_def Let_def split: prod.splits option.splits dest!: open_frame(6) blocking_loop_frame
      intro: net_kept_trans)

lemma init_loop_frame: "tcp_init_loop ais e c w = (r, fd, c', w') \<Longrightarrow> net_kept w w'"
proof (induction ais arbitrary: e c w)
  case (Cons ai ais)
  from Cons.prems show ?case
    by (auto simp: net_kept_def sys_close_def split: prod.splits if_splits
        dest!: Cons.IH [unfolded net_kept_def] open_frame(1,2,3) [unfolded net_kept_def])
qed simp

lemma init_frame: "tcp_client_init (Some c) (Some h) (Some p) w = (r, c', w') \<Longrightarrow> net_kept w w'"
  by (auto simp: tcp_client_init_def Let_def split: prod.splits option.splits if_splits dest!: open_frame(6) init_loop_frame
      intro: net_kept_trans)

text \<open>A connection over plain TCP is set up, begun or refused; a URL with the scheme of TLS is left out, whose
  blocking handshake loop is the subject of \<^verbatim>\<open>Transport\<close>.\<close>

lemma plain_init:
  assumes "scheme_uses_tls s \<noteq> Some True"
  obtains r t' w' where "transport_init mb (Some t) (Some h) (Some p) (Some s) timeout_ms b w = ret (r, Some t', w')"
    "net_kept w w'" "tr_use_tls t' \<longrightarrow> r \<noteq> SUCCESS \<and> t' = t"
proof (cases "h = [] \<or> p = [] \<or> s = []")
  case True
  then show thesis using that [of ERR_INVALID_ARG t w] by (auto simp: transport_init_def err_codes)
next
  case False
  note ne = False
  define t1 where "t1 = (zero_transport mb)\<lparr>tr_host := Some h, tr_port := Some p, tr_scheme := Some s,
      tr_timeout_ms := timeout_ms, tr_use_blocking := b\<rparr>"
  show thesis
  proof (cases "scheme_uses_tls s")
    case None
    then show thesis
      using that [of ERR_BAD_FORMAT t1 w] ne by (auto simp: transport_init_def t1_def Let_def err_codes zero_transport_def)
  next
    case (Some x)
    then have x: "scheme_uses_tls s = Some False" using assms by (cases x) simp_all
    let ?init = "if b then tcp_client_blocking_init (Some (tr_tcp t1)) (Some h) (Some p) timeout_ms w
        else tcp_client_init (Some (tr_tcp t1)) (Some h) (Some p) w"
    obtain r c w1 where i: "?init = (r, c, w1)" by (cases ?init)
    have "net_kept w w1" using i blocking_init_frame init_frame by (cases b) auto
    then show thesis
      using that [of r "t1\<lparr>tr_use_tls := False, tr_tcp := the c\<rparr>" w1] ne x i
      by (auto simp: transport_init_def Let_def t1_def split: if_splits)
  qed
qed

text \<open>What a call has to give: a URL without TLS, a body below 2^30 bytes, and peers that close after less than
  2^31 bytes.\<close>

definition plain_url :: "cstring \<Rightarrow> bool" where
  "plain_url url \<longleftrightarrow>
     (case http_parser_url (Some url) (Some zero_url) of (r, u) \<Rightarrow> r \<noteq> SUCCESS \<or> scheme_uses_tls (up_scheme (the u)) \<noteq> Some True)"

definition peers_close :: "world \<Rightarrow> bool" where
  "peers_close w \<longleftrightarrow> (\<forall>fd. RxEof \<in> set (w_in w fd) \<and> length (rx_bytes (w_in w fd)) < 2 ^ 31)"

lemma connecting_ends:
  assumes "hc_state c = HTTP_CLIENT_CONNECTING" "hc_URL c = Some url" "plain_url url" "hc_url_parts c = zero_url"
    and "hc_recv_buf c = empty_data" "hc_chunk_remaining c = 0" "hc_blocking_mode c"
    and "\<forall>r. hc_req c = Some r \<longrightarrow> req_wf r \<and> req_body_len r < 2 ^ 30" "peers_close w"
  shows "\<exists>r. blocking_loop mb timeout_ms start c w = Some r"
proof -
  let ?w = "snd (SystemMonotonicMS w)"
  obtain r u where u: "http_parser_url (Some url) (Some zero_url) = (r, u)" by (cases "http_parser_url (Some url) (Some zero_url)")
  let ?c = "c\<lparr>hc_url_parts := the u\<rparr>"
  have k: "req_kept c" "req_kept (?c\<lparr>hc_state := st\<rparr>)" "req_kept (?c\<lparr>hc_transport := t, hc_state := st\<rparr>)" for st t
    using assms(8) by (simp_all add: req_kept_def)
  have step: "blocking_step mb c ?w = Some (http_client_worktask_connecting mb c ?w)" using assms(1) by (simp add: blocking_step_def)
  show ?thesis
  proof (cases "r = SUCCESS")
    case False
    then show ?thesis
      using u assms(2,4) exit_ends_if [OF k(2)] by (intro loop_step [OF k(1) step]) (auto simp: http_client_worktask_connecting_def Let_def)
  next
    case True
    then obtain q where q: "u = Some q" "url_ok q" using url_sound [of url zero_url u] u by auto
    then have "scheme_uses_tls (up_scheme q) \<noteq> Some True" using assms(3) u True by (simp add: plain_url_def)
    then obtain res t' w' where t: "transport_init mb (Some (hc_transport c)) (Some (up_host q)) (Some (up_port q)) (Some (up_scheme q))
        (hc_timeout_ms c) True ?w = ret (res, Some t', w')" "net_kept ?w w'" "tr_use_tls t' \<longrightarrow> res \<noteq> SUCCESS \<and> t' = hc_transport c"
      using plain_init by metis
    let ?c' = "c\<lparr>hc_url_parts := q, hc_transport := t'\<rparr>"
    have s: "http_client_worktask_connecting mb c ?w = ret (if res = ERR_IN_PROGRESS then HTTP_CLIENT_WAITING_CONNECT
        else if res \<noteq> SUCCESS then HTTP_CLIENT_ERROR else HTTP_CLIENT_BUILDING_REQUEST, ?c', w')"
      using u True q t(1) assms(2,4,7) by (simp add: http_client_worktask_connecting_def Let_def)
    have "blk_inv ?c' w'" if "res = SUCCESS"
      using that t assms(5,6,8,9) by (auto simp: blk_inv_def plain_unread_def peers_close_def empty_data_def block_bytes_def net_kept_def)
    moreover have "small_request ?c'" using q(2) assms(8) by (auto simp: small_request_def url_ok_def)
    ultimately have "\<exists>x. blocking_loop mb timeout_ms start (?c'\<lparr>hc_state := HTTP_CLIENT_BUILDING_REQUEST\<rparr>) w' = Some x" if "res = SUCCESS"
      using that building_ends [of "?c'\<lparr>hc_state := HTTP_CLIENT_BUILDING_REQUEST\<rparr>" w'] by (simp add: small_request_def)
    then show ?thesis
      using s exit_ends_if [OF k(3)] q(1) by (intro loop_step [OF k(1) step]) (auto simp: err_codes split: if_splits)
  qed
qed

section \<open>The calls\<close>

text \<open>A fresh client that gives up is simply taken down: what peers see and sent is left alone.\<close>

lemma exit_fresh:
  assumes "hc_transport c = zero_transport mb" "hc_task c = None" "req_kept c"
  obtains w' where "http_client_destroy mb (Some c) w = ret w'" "w_gai w' = w_gai w" "w_out w' = w_out w" "w_in w' = w_in w"
proof -
  let ?w = "snd (transport_dispose mb (Some (zero_transport mb)) w)"
  have d: "\<exists>x. http_parser_dispose (hc_req c) (hc_resp c) = ret x"
  proof (cases "hc_req c")
    case None
    then show ?thesis by (cases "hc_resp c") (simp_all add: http_parser_dispose_def)
  qed (use assms(3) in \<open>simp add: req_kept_def dispose_req_wf\<close>)
  have "http_client_destroy mb (Some c) w = ret ?w"
    using d assms(1,2) by (auto simp: http_client_destroy_def http_client_dispose_def Let_def scheduler_destroy_task_def split: prod.splits)
  moreover have "w_gai ?w = w_gai w" "w_out ?w = w_out w" "w_in ?w = w_in w"
    by (simp_all add: transport_dispose_def zero_transport_def tcp_client_dispose_def sys_close_def Let_def split: prod.splits)
  ultimately show thesis by (rule that)
qed

text \<open>Every call starts the loop on such a client, which carries the body to send, or gives up for lack of memory.\<close>

definition in_bytes :: "http_data option \<Rightarrow> byte list" where
  "in_bytes inp = (case inp of None \<Rightarrow> [] | Some d \<Rightarrow> (case buf_view d of Inl _ \<Rightarrow> [] | Inr bs \<Rightarrow> bs))"

definition blk_start :: "'s mbedtls \<Rightarrow> cstring \<Rightarrow> byte list \<Rightarrow> 's HTTP_Client \<Rightarrow> bool" where
  "blk_start mb url bs c \<longleftrightarrow>
     hc_URL c = Some url \<and> hc_url_parts c = zero_url \<and> hc_recv_buf c = empty_data \<and> hc_chunk_remaining c = 0 \<and>
     hc_blocking_mode c \<and> hc_transport c = zero_transport mb \<and> hc_task c = None \<and> fresh_body c \<and>
     (\<exists>r. hc_req c = Some r \<and> req_wf r \<and> request_body r = bs \<and> req_body_len r = int (length bs) \<and>
        (\<forall>b. req_body r = Some b \<longrightarrow> req_body_len r \<le> int (length b)))"

lemma blk_start_kept: "blk_start mb url bs c \<Longrightarrow> req_kept c"
  by (auto simp: blk_start_def req_kept_def)

definition gives_up :: "http_data option \<Rightarrow> world \<Rightarrow> (int \<times> http_data option \<times> world) out \<Rightarrow> bool" where
  "gives_up out w r \<longleftrightarrow> (\<exists>w'. r = ret (ERR_NO_MEMORY, out, w') \<and> w_gai w' = w_gai w \<and> w_out w' = w_out w)"

lemma no_memory_gives_up:
  assumes "hc_transport c = zero_transport mb" "hc_task c = None" "req_kept c"
  shows "gives_up out w (blocking_no_memory mb out c (w\<lparr>w_alloc := a\<rparr>))"
proof -
  obtain w' where "http_client_destroy mb (Some c) (w\<lparr>w_alloc := a\<rparr>) = ret w'" "w_gai w' = w_gai w" "w_out w' = w_out w"
    using exit_fresh [OF assms, of "w\<lparr>w_alloc := a\<rparr>"] by (metis world.ext_inject world.surjective world.update_convs(1))
  then show ?thesis by (simp add: gives_up_def blocking_no_memory_def)
qed

text \<open>How a call begins: \<open>a\<close> is the script of the allocations when the body is copied, \<open>r\<close> what the call gives.\<close>

definition begins ::
  "'s mbedtls \<Rightarrow> cstring \<Rightarrow> HTTPMethod \<Rightarrow> http_data option \<Rightarrow> http_data option \<Rightarrow> int \<Rightarrow> alloc \<Rightarrow> world \<Rightarrow>
     (int \<times> http_data option \<times> world) out \<Rightarrow> bool" where
  "begins mb u meth inp out t a w r \<longleftrightarrow>
     gives_up out w r \<and> a \<noteq> [] \<or>
     (\<exists>f d. inp = Some d \<and> buf_view d = Inl f \<and> r = fault f) \<or>
     (\<exists>c a'. blk_start mb u (in_bytes inp) c \<and> hc_blocking_out c = out \<and> hc_method c = meth \<and> (a = [] \<longrightarrow> a' = []) \<and>
        r = blocking_start mb t c (w\<lparr>w_alloc := a'\<rparr>))"

lemma begins_start:
  assumes "blk_start mb u (in_bytes inp) c" "hc_blocking_out c = out" "hc_method c = meth" "a = [] \<Longrightarrow> a' = []"
  shows "begins mb u meth inp out t a w (blocking_start mb t c (w\<lparr>w_alloc := a'\<rparr>))"
  using assms unfolding begins_def by blast

lemma body_begins:
  assumes "blk_start mb u [] c" "hc_blocking_out c = out" "hc_method c = meth" "length (in_bytes inp) < 2 ^ 31"
  shows "begins mb u meth inp out t a w (blocking_body mb inp out t c (w\<lparr>w_alloc := a\<rparr>))"
proof (cases "\<exists>d. inp = Some d \<and> hd_addr d \<noteq> None \<and> 0 < hd_size d")
  case False
  then have e: "blocking_body mb inp out t c (w\<lparr>w_alloc := a\<rparr>) = blocking_start mb t c (w\<lparr>w_alloc := a\<rparr>)"
    by (auto simp: blocking_body_def split: option.splits)
  have "in_bytes inp = []"
    using False by (auto simp: in_bytes_def buf_view_def block_bytes_def split: option.splits sum.splits if_splits)
  then show ?thesis using e assms by (auto intro: begins_start)
next
  case True
  then obtain d where d: "inp = Some d" "hd_addr d \<noteq> None" "0 < hd_size d" by blast
  obtain ok a' where m: "malloc a = (ok, a')" by (cases "malloc a")
  show ?thesis
  proof (cases "\<exists>bs. ok \<and> buf_view d = Inr bs")
    case True
    then obtain bs where bs: "ok" "buf_view d = Inr bs" by blast
    then have l: "length bs = nat (hd_size d)" using d(3) by (auto simp: buf_view_def split: if_splits)
    have z: "c_int (hd_size d) = hd_size d"
      using assms(4) d(1,3) bs(2) l by (intro c_int_id) (simp_all add: in_bytes_def nat_less_iff)
    let ?c = "c\<lparr>hc_req := map_option (\<lambda>r. r\<lparr>req_body := Some bs, req_body_len := hd_size d\<rparr>) (hc_req c)\<rparr>"
    have "blocking_body mb inp out t c (w\<lparr>w_alloc := a\<rparr>) = blocking_start mb t ?c (w\<lparr>w_alloc := a'\<rparr>)"
      using d m bs z by (auto simp: blocking_body_def w_malloc_def)
    moreover have "blk_start mb u (in_bytes inp) ?c"
      using assms(1) d(1,3) bs l by (auto simp: blk_start_def req_wf_def in_bytes_def request_body_def fresh_body_def)
    ultimately show ?thesis using assms(2,3) m by (auto intro: begins_start)
  next
    case False
    then have "blocking_body mb inp out t c (w\<lparr>w_alloc := a\<rparr>) =
        (if ok then fault (projl (buf_view d)) else blocking_no_memory mb out c (w\<lparr>w_alloc := a'\<rparr>))"
      using d m by (auto simp: blocking_body_def w_malloc_def split: sum.splits)
    moreover have "gives_up out w (blocking_no_memory mb out c (w\<lparr>w_alloc := a'\<rparr>))"
      using assms(1) blk_start_kept [OF assms(1)] by (intro no_memory_gives_up) (simp_all add: blk_start_def)
    ultimately show ?thesis using False d(1) m by (cases "buf_view d") (auto simp: begins_def)
  qed
qed

lemma work_begins:
  assumes "length (in_bytes inp) < 2 ^ 31"
  shows "begins mb u meth inp out t (w_alloc w) w (http_blocking_work mb (Some u) meth inp out t w)"
proof -
  obtain ok1 a1 where m1: "malloc (w_alloc w) = (ok1, a1)" by (cases "malloc (w_alloc w)")
  obtain ok2 a2 where m2: "malloc a1 = (ok2, a2)" by (cases "malloc a1")
  obtain ok3 a3 where m3: "malloc a2 = (ok3, a3)" by (cases "malloc a2")
  obtain ok4 a4 where m4: "malloc a3 = (ok4, a4)" by (cases "malloc a3")
  note ms = m1 m2 m3 m4
  let ?c = "(zero_client mb)\<lparr>hc_URL := if ok2 then Some u else None, hc_req := if ok3 then Some zero_request else None,
      hc_resp := if ok4 then Some zero_response else None\<rparr>"
  let ?d = "?c\<lparr>hc_recv_buf := empty_data, hc_decoded_body := None, hc_decoded_body_len := 0,
      hc_content_length := 0, hc_chunk_remaining := 0, hc_chunked := -1,
      hc_blocking_mode := True, hc_blocking_out := out, hc_timeout_ms := t, hc_method := meth\<rparr>"
  have "req_kept ?c" by (simp add: req_kept_def req_wf_def zero_request_def)
  then have g: "gives_up out w (blocking_no_memory mb out ?c (w\<lparr>w_alloc := a4\<rparr>))"
    by (intro no_memory_gives_up) (simp_all add: zero_client_def)
  have e: "http_blocking_work mb (Some u) meth inp out t w =
      (if \<not> ok1 then ret (ERR_NO_MEMORY, out, w\<lparr>w_alloc := a1\<rparr>)
       else if \<not> ok2 \<or> \<not> ok3 \<or> \<not> ok4 then blocking_no_memory mb out ?c (w\<lparr>w_alloc := a4\<rparr>)
       else blocking_body mb inp out t ?d (w\<lparr>w_alloc := a4\<rparr>))"
    by (simp add: http_blocking_work_def w_malloc_def strdup_ptr_def strdup_def ms Let_def)
  have nil: "ok1 \<and> ok2 \<and> ok3 \<and> ok4 \<and> a4 = []" if "w_alloc w = []" using that ms by simp
  show ?thesis
  proof (cases "ok1 \<and> ok2 \<and> ok3 \<and> ok4")
    case True
    then have s: "blk_start mb u [] ?d" "hc_blocking_out ?d = out" "hc_method ?d = meth"
      by (simp_all add: blk_start_def zero_client_def zero_request_def req_wf_def fresh_body_def request_body_def)
    show ?thesis using body_begins [OF s assms, of t a4 w] e True nil by (auto simp: begins_def)
  next
    case False
    then show ?thesis using e g nil by (auto simp: begins_def gives_up_def)
  qed
qed

lemma work_ends:
  assumes "plain_url u" "peers_close w" "\<And>d. inp = Some d \<Longrightarrow> hd_size d < 2 ^ 30"
  shows "\<exists>r. http_blocking_work mb (Some u) meth inp out t w = Some r"
proof -
  have l: "length (in_bytes inp) < 2 ^ 30"
    using assms(3) by (auto simp: in_bytes_def buf_view_def split: option.splits sum.splits if_splits)
  then have "begins mb u meth inp out t (w_alloc w) w (http_blocking_work mb (Some u) meth inp out t w)"
    by (intro work_begins) simp
  then show ?thesis
    unfolding begins_def
  proof (elim disjE exE conjE)
    fix c a assume s: "blk_start mb u (in_bytes inp) c"
      "http_blocking_work mb (Some u) meth inp out t w = blocking_start mb t c (w\<lparr>w_alloc := a\<rparr>)"
    obtain n v where clk: "SystemMonotonicMS (w\<lparr>w_alloc := a\<rparr>) = (n, v)" by (cases "SystemMonotonicMS (w\<lparr>w_alloc := a\<rparr>)")
    have p: "peers_close v" using assms(2) monotonic_frame(3) [of "w\<lparr>w_alloc := a\<rparr>"] clk by (simp add: peers_close_def)
    have b: "\<forall>r. hc_req c = Some r \<longrightarrow> req_wf r \<and> req_body_len r < 2 ^ 30" using s(1) l by (auto simp: blk_start_def)
    have "\<exists>r. blocking_loop mb t n (c\<lparr>hc_state := HTTP_CLIENT_CONNECTING\<rparr>) v = Some r"
      using s(1) b p assms(1) by (intro connecting_ends [of _ u]) (simp_all add: blk_start_def)
    then show ?thesis using s(2) clk by (simp add: blocking_start_def)
  qed (auto simp: gives_up_def)
qed

text \<open>C10: the blocking interface comes to an end: for a URL without TLS, a body to send below 2^30 bytes and peers
  that close their connections after less than 2^31 bytes, whatever they send, however it is cut into pieces, and
  whichever system calls and allocations fail, the loops of \<^verbatim>\<open>http_blocking_get\<close> and \<^verbatim>\<open>http_blocking_post\<close>
  do not run for ever.\<close>

theorem blocking_calls_end:
  assumes "plain_url u" "peers_close w" "\<And>d. inp = Some d \<Longrightarrow> hd_size d < 2 ^ 30"
  shows "(\<exists>r. http_blocking_get mb (Some u) out t w = Some r) \<and> (\<exists>r. http_blocking_post mb (Some u) inp out t w = Some r)"
  using work_ends [OF assms(1,2), of None] work_ends [OF assms(1,2), of inp] assms(3)
  by (auto simp: http_blocking_get_def http_blocking_post_def split: option.splits)

theorem blocking_calls_end_witness:
  "\<exists>r. http_blocking_post mb_example (Some ''http://a.se/x'') (Some \<lparr>hd_addr = Some ''hello'', hd_size = 5\<rparr>) None 0
     (world0 1\<lparr>w_in := \<lambda>_. [Data ''HTTP/1.1 200'', RxErr EAGAIN, Data [CHR 0x0D, CHR 0x0A], RxEof]\<rparr>) = Some r"
proof -
  have "plain_url ''http://a.se/x''" by code_simp
  then show ?thesis by (intro conjunct2 [OF blocking_calls_end]) (auto simp: peers_close_def)
qed

lemma timed_out_after_uptime:
  assumes "2 ^ 31 \<le> start" "start < 2 ^ 62" "0 < t" "t < 2 ^ 31"
  shows "timed_out t start now"
proof -
  have "c_size (c_int now - start) = c_int now - start + 2 ^ 64"
    using assms(1,2) c_int_range [of now] by (subst c_size_def, subst mod_add_self2 [symmetric], subst mod_pos_pos_trivial) simp_all
  then show ?thesis using assms c_int_range(1) [of now] by (simp add: timed_out_def)
qed

lemma loop_timed_out:
  assumes "timed_out t start (fst (SystemMonotonicMS w))"
  shows "blocking_loop mb t start c w = blocking_exit mb ERR_TIMEOUT c (snd (SystemMonotonicMS w))"
  using assms by (cases "SystemMonotonicMS w") (simp add: blocking_loop.simps [of mb t start c w])

lemma clock_frame:
  "fst (SystemMonotonicMS (w\<lparr>w_alloc := a\<rparr>)) = fst (SystemMonotonicMS w)" "w_gai (snd (SystemMonotonicMS w)) = w_gai w"
  by (auto simp: SystemMonotonicMS_def sys_clock_gettime_def split: list.splits prod.splits)

text \<open>C26: the timeout of the blocking interface compares the truncation \<^verbatim>\<open>(int)now\<close> with a 64-bit start: on a
  machine that has been up for 2^31 milliseconds (under 25 days) or more, every call with a timeout gives up at
  once, with \<^verbatim>\<open>ERR_TIMEOUT\<close> (or for lack of memory), before the host is looked up and without a byte sent.\<close>

theorem blocking_uptime_limit:
  assumes "2 ^ 31 \<le> fst (SystemMonotonicMS w)" "fst (SystemMonotonicMS w) < 2 ^ 62" "0 < t" "t < 2 ^ 31"
  shows "\<exists>code w'. http_blocking_get mb (Some u) (Some out) t w = ret (code, Some empty_data, w') \<and>
    code \<in> {ERR_TIMEOUT, ERR_NO_MEMORY} \<and> w_gai w' = w_gai w \<and> w_out w' = w_out w"
proof -
  have g: "http_blocking_get mb (Some u) (Some out) t w = http_blocking_work mb (Some u) HTTP_GET None (Some empty_data) t w"
    by (simp add: http_blocking_get_def)
  have "length (in_bytes None) < 2 ^ 31" by (simp add: in_bytes_def)
  from work_begins [OF this, of mb u HTTP_GET "Some empty_data" t w] show ?thesis
    unfolding g begins_def
  proof (elim disjE exE conjE)
    fix c a assume s: "blk_start mb u (in_bytes None) c" "hc_blocking_out c = Some empty_data"
      "http_blocking_work mb (Some u) HTTP_GET None (Some empty_data) t w = blocking_start mb t c (w\<lparr>w_alloc := a\<rparr>)"
    let ?c = "c\<lparr>hc_state := HTTP_CLIENT_CONNECTING\<rparr>"
    let ?v = "snd (SystemMonotonicMS (w\<lparr>w_alloc := a\<rparr>))"
    have "req_kept ?c" "hc_transport ?c = zero_transport mb" "hc_task ?c = None"
      using s(1) blk_start_kept [OF s(1)] by (simp_all add: blk_start_def req_kept_def)
    then obtain w' where d: "http_client_destroy mb (Some ?c) (snd (SystemMonotonicMS ?v)) = ret w'" "w_gai w' = w_gai w" "w_out w' = w_out w"
      using exit_fresh [of ?c mb "snd (SystemMonotonicMS ?v)"] by (auto simp: clock_frame)
    have "http_blocking_work mb (Some u) HTTP_GET None (Some empty_data) t w = ret (ERR_TIMEOUT, Some empty_data, w')"
      using s(2,3) d(1) loop_timed_out [OF timed_out_after_uptime [OF assms], of mb ?c ?v]
      by (simp add: blocking_start_def clock_frame(1) blocking_exit_def case_prod_beta)
    then show "\<exists>code w'. http_blocking_work mb (Some u) HTTP_GET None (Some empty_data) t w = ret (code, Some empty_data, w') \<and>
        code \<in> {ERR_TIMEOUT, ERR_NO_MEMORY} \<and> w_gai w' = w_gai w \<and> w_out w' = w_out w" using d(2,3) by simp
  qed (auto simp: gives_up_def)
qed

theorem blocking_uptime_limit_witness:
  "\<exists>code w'. http_blocking_get mb_example (Some ''http://a.se/'') (Some empty_data) 5000 (world0 1\<lparr>w_clock := [(2592000, 0)]\<rparr>) =
     ret (code, Some empty_data, w') \<and> code \<in> {ERR_TIMEOUT, ERR_NO_MEMORY} \<and>
     w_gai w' = [] \<and> w_out w' = (\<lambda>_. [])"
  using blocking_uptime_limit [of "world0 1\<lparr>w_clock := [(2592000, 0)]\<rparr>" 5000 mb_example "''http://a.se/''" empty_data]
  by (simp add: SystemMonotonicMS_def sys_clock_gettime_def c_size_id c_div_def world0_def)

end
