(* ===== verification/HTTP_Exchange.thy ===== *)
theory HTTP_Exchange imports HTTP_Blocking
begin

text \<open>
  A whole exchange through the blocking interface of \<^verbatim>\<open>modules/src/http_client.c\<close>: \<^verbatim>\<open>http_blocking_get\<close> parses the
  URL, connects, builds and sends the request, and reads the response. This composes what the other
  theories show of the parts: the URL parser, the sockets, the text of the request (\<open>HTTP_Request\<close>), the
  response in any segmentation (\<open>HTTP_Response\<close>) and the end of the loop (\<open>HTTP_Blocking\<close>).
\<close>

section \<open>The state of an exchange\<close>

text \<open>The server: whichever connection is opened, the same response comes in on it, cut in any way and with
  any interruptions, and then the connection is closed.\<close>

definition served ::
  "cstring \<Rightarrow> int \<Rightarrow> cstring \<Rightarrow> (cstring \<times> cstring) list \<Rightarrow> byte list \<Rightarrow> world \<Rightarrow> bool" where
  "served v code phrase hs payload w \<longleftrightarrow>
     known_status v code phrase \<and> list_all clean_header hs \<and> hs \<noteq> [] \<and> peers_close w \<and>
     (\<forall>fd. rx_bytes (w_in w fd) = status_line v (dec_str (nat code)) phrase @ CRLF @ header_block hs @ payload)"

lemma served_frame: "w_in w' = w_in w \<Longrightarrow> served v code phrase hs payload w' = served v code phrase hs payload w"
  unfolding served_def peers_close_def by simp

definition before_reading ::
  "byte list \<Rightarrow> (cstring \<times> cstring) list \<Rightarrow> byte list \<Rightarrow> 's HTTP_Client \<Rightarrow> world \<Rightarrow> bool" where
  "before_reading line hs payload c w \<longleftrightarrow>
     blk_inv c w \<and> client_ready plain_up plain_unread c w \<and> w_alloc w = [] \<and> fresh_body c \<and>
     stream_of plain_unread c w = line @ CRLF @ header_block hs @ payload"

definition exch_state ::
  "byte list \<Rightarrow> (cstring \<times> cstring) list \<Rightarrow> byte list \<Rightarrow> byte list \<Rightarrow> byte list \<Rightarrow> (int \<Rightarrow> byte list) \<Rightarrow>
     's HTTP_Client \<Rightarrow> world \<Rightarrow> bool" where
  "exch_state line hs payload body txt old c w \<longleftrightarrow>
     (let fd = tcp_fd (tr_tcp (hc_transport c)) in
      case hc_state c of
        HTTP_CLIENT_WAITING_CONNECT \<Rightarrow> before_reading line hs payload c w \<and> w_out w = old \<and>
          (\<exists>req. request_ok c req \<and> request_text c req = txt)
      | HTTP_CLIENT_BUILDING_REQUEST \<Rightarrow> before_reading line hs payload c w \<and> w_out w = old \<and>
          (\<exists>req. request_ok c req \<and> request_text c req = txt)
      | HTTP_CLIENT_SENDING_REQUEST \<Rightarrow> before_reading line hs payload c w \<and> sending_inv txt (old fd) fd c w
      | HTTP_CLIENT_RETURNING \<Rightarrow> whole_I line hs payload body c w \<and> w_out w fd = old fd @ txt
      | HTTP_CLIENT_ERROR \<Rightarrow> True
      | st \<Rightarrow> reading st \<and> blk_inv c w \<and> whole_I line hs payload body c w \<and> w_out w fd = old fd @ txt)"

definition exch_core where
  "exch_core line hs payload body txt old c w \<longleftrightarrow>
     req_kept c \<and> \<not> tr_use_tls (hc_transport c) \<and> exch_state line hs payload body txt old c w"

text \<open>What the units of work up to the end of the reading leave alone, but for the clock, which runs.\<close>

definition clock_runs :: "world \<Rightarrow> world \<Rightarrow> bool" where
  "clock_runs w w' \<longleftrightarrow> (\<exists>ts. w_clock w = ts @ w_clock w') \<and> (w_clock w' = [] \<longrightarrow> w_clock w = [])"

definition env_kept :: "'s HTTP_Client \<Rightarrow> world \<Rightarrow> 's HTTP_Client \<Rightarrow> world \<Rightarrow> bool" where
  "env_kept c w c' w' \<longleftrightarrow> same_job c c' \<and> hc_task c' = hc_task c \<and> w_delivered w' = w_delivered w \<and>
     w_sched w' = w_sched w \<and> clock_runs w w'"

lemma clock_runs_refl: "w_clock w' = w_clock w \<Longrightarrow> clock_runs w w'"
  by (simp add: clock_runs_def)

lemma clock_runs_trans [trans]: "clock_runs w w1 \<Longrightarrow> clock_runs w1 w2 \<Longrightarrow> clock_runs w w2"
  by (auto simp: clock_runs_def)

lemma clock_runs_read: "clock_runs w (snd (SystemMonotonicMS w))"
proof -
  have "w_clock (snd (SystemMonotonicMS w)) = (case w_clock w of a # b # r \<Rightarrow> b # r | ts \<Rightarrow> ts)"
    by (auto simp: SystemMonotonicMS_def sys_clock_gettime_def split: list.splits prod.splits)
  then show ?thesis by (auto simp: clock_runs_def split: list.splits)
qed

lemma blk_inv_state [simp]: "blk_inv (c\<lparr>hc_state := st\<rparr>) w = blk_inv c w"
  by (simp add: blk_inv_def)

lemma ready_state [simp]:
  "stream_of unread (c\<lparr>hc_state := st\<rparr>) w = stream_of unread c w"
  "client_ready up unread (c\<lparr>hc_state := st\<rparr>) w = client_ready up unread c w"
  by (simp_all add: stream_of_def client_ready_def)

lemma before_reading_update [simp]:
  "before_reading line hs payload (c\<lparr>hc_state := st\<rparr>) w = before_reading line hs payload c w"
  "before_reading line hs payload (c\<lparr>hc_request_buffer := b, hc_request_length := n, hc_bytes_sent := k\<rparr>) w =
     before_reading line hs payload c w"
  "before_reading line hs payload (c\<lparr>hc_retries := a\<rparr>) w = before_reading line hs payload c w"
  "before_reading line hs payload (c\<lparr>hc_next_retry_at := d\<rparr>) w = before_reading line hs payload c w"
  by (simp_all add: before_reading_def blk_inv_def client_ready_def stream_of_def fresh_body_def)

lemma before_reading_frame:
  "w_in v = w_in w \<Longrightarrow> w_alloc v = w_alloc w \<Longrightarrow> before_reading line hs payload c v = before_reading line hs payload c w"
  using plain.stream_frame [of v w c] plain.ready_frame [of v w c] by (simp add: before_reading_def blk_inv_def plain_unread_def)

lemma send_frame:
  assumes "http_client_worktask_send_request mb c w = ret (st, c', w')" "\<not> tr_use_tls (hc_transport c)"
  shows "w_in w' = w_in w" "w_alloc w' = w_alloc w" "hc_transport c' = hc_transport c" "hc_recv_buf c' = hc_recv_buf c"
    "fresh_body c' = fresh_body c" "env_kept c w c' w'"
    "st \<in> {HTTP_CLIENT_SENDING_REQUEST, HTTP_CLIENT_READING_FIRSTLINE, HTTP_CLIENT_ERROR}"
proof -
  let ?fd = "tcp_fd (tr_tcp (hc_transport c))"
  let ?data = "take (nat (c_size (hc_request_length c - hc_bytes_sent c))) (drop (nat (hc_bytes_sent c)) (block_bytes (hc_request_buffer c)))"
  obtain n w1 where s: "sys_send ?fd ?data w = (n, w1)" by (cases "sys_send ?fd ?data w")
  then have wr: "transport_write mb (Some (hc_transport c)) ?data w = (n, Some (hc_transport c), w1)"
    using assms(2) by (simp add: transport_write_def tcp_client_write_simple_def)
  note w1 = sys_send_frame [OF s]
  obtain now w2 where clk: "SystemMonotonicMS w1 = (now, w2)" by (cases "SystemMonotonicMS w1")
  note w2 = monotonic_frame [of w1, unfolded clk snd_conv] clock_runs_read [of w1, unfolded clk snd_conv]
  have r: "clock_runs w w1" "clock_runs w w2" using w1(6) clock_runs_trans [OF clock_runs_refl w2(9)] by (simp_all add: clock_runs_refl)
  note def = assms(1) [unfolded http_client_worktask_send_request_def Let_def wr prod.case option.sel clk]
  show "w_in w' = w_in w" "w_alloc w' = w_alloc w" using def w1 w2 by (auto split: if_splits)
  have "w' \<in> {w1, w2}" using def by (auto split: if_splits)
  then have "w_delivered w' = w_delivered w" "w_sched w' = w_sched w" "clock_runs w w'" using w1(3,4) w2(1,2) r by auto
  moreover have "same_job c c' \<and> hc_task c' = hc_task c" using def by (auto simp: same_job_def split: if_splits)
  ultimately show "env_kept c w c' w'" by (simp add: env_kept_def)
  show "hc_transport c' = hc_transport c" "hc_recv_buf c' = hc_recv_buf c" "fresh_body c' = fresh_body c"
    "st \<in> {HTTP_CLIENT_SENDING_REQUEST, HTTP_CLIENT_READING_FIRSTLINE, HTTP_CLIENT_ERROR}"
    using def by (auto simp: fresh_body_def split: if_splits)
qed

section \<open>One unit of work\<close>

lemma core_building:
  assumes "exch_core line hs payload body txt old c w" "hc_state c = HTTP_CLIENT_BUILDING_REQUEST"
  shows "\<exists>st c' w'. state_work mb c w = ret (st, c', w') \<and> env_kept c w c' w' \<and> st \<noteq> HTTP_CLIENT_DISPOSING \<and>
     exch_core line hs payload body txt old (c'\<lparr>hc_state := st\<rparr>) w'"
proof -
  obtain req where I: "before_reading line hs payload c w" "w_out w = old" "request_ok c req" "request_text c req = txt"
      "req_kept c" "\<not> tr_use_tls (hc_transport c)"
    using assms by (auto simp: exch_core_def exch_state_def)
  have m: "w_malloc w = (True, w)" using I(1) by (simp add: w_malloc_def before_reading_def)
  obtain buf where b: "http_client_worktask_build_request c w =
       ret (HTTP_CLIENT_SENDING_REQUEST,
         c\<lparr>hc_request_buffer := Some buf, hc_request_length := int (length txt), hc_bytes_sent := 0\<rparr>, w)"
      "length txt \<le> length buf" "take (length txt) buf = txt"
    using build_request_law [OF I(3) m] I(4) by auto
  have "0 < length txt" using I(4) by (auto simp: request_text_def request_head_def)
  then show ?thesis
    using b I assms(2)
    by (auto simp: state_work_def exch_core_def exch_state_def sending_inv_def req_kept_def env_kept_def same_job_def
        clock_runs_def)
qed

lemma core_sending:
  assumes "exch_core line hs payload body txt old c w" "hc_state c = HTTP_CLIENT_SENDING_REQUEST" "length txt < 2 ^ 31"
  shows "\<exists>st c' w'. state_work mb c w = ret (st, c', w') \<and> env_kept c w c' w' \<and> st \<noteq> HTTP_CLIENT_DISPOSING \<and>
     exch_core line hs payload body txt old (c'\<lparr>hc_state := st\<rparr>) w'"
proof -
  let ?fd = "tcp_fd (tr_tcp (hc_transport c))"
  have I: "before_reading line hs payload c w" "sending_inv txt (old ?fd) ?fd c w" "req_kept c" "\<not> tr_use_tls (hc_transport c)"
    using assms(1,2) by (simp_all add: exch_core_def exch_state_def Let_def)
  obtain st c' w' where s: "http_client_worktask_send_request mb c w = ret (st, c', w')"
      "st = HTTP_CLIENT_ERROR \<or> sending_inv txt (old ?fd) ?fd (c'\<lparr>hc_state := st\<rparr>) w'"
    using send_step [OF I(2) assms(2,3), of mb] by blast
  note f = send_frame [OF s(1) I(4)]
  have "send_ready c" using I(2) assms(2,3) by (auto simp: sending_inv_def send_ready_def)
  then have b: "blk_inv c' w'" using send_step_cases(1) [OF _ _ s(1)] I(1) by (simp add: before_reading_def)
  have e: "stream_of plain_unread (c'\<lparr>hc_state := st\<rparr>) w' = stream_of plain_unread c w" using f by (simp add: stream_of_def plain_unread_def)
  then have "client_ready plain_up plain_unread (c'\<lparr>hc_state := st\<rparr>) w' = client_ready plain_up plain_unread c w"
    using f by (simp add: client_ready_def plain_up_def)
  then have br: "before_reading line hs payload (c'\<lparr>hc_state := st\<rparr>) w'" using b I(1) f e by (simp add: before_reading_def)
  then have wh: "whole_I line hs payload body (c'\<lparr>hc_state := HTTP_CLIENT_READING_FIRSTLINE\<rparr>) w'"
    by (simp add: before_reading_def whole_I_def whole_inv_def)
  have "exch_core line hs payload body txt old (c'\<lparr>hc_state := st\<rparr>) w'"
    using f(7) s(2) br wh b f I blk_inv_req [OF b]
    by (auto simp: exch_core_def exch_state_def Let_def sending_inv_def req_kept_def before_reading_def)
  then show ?thesis using s(1) assms(2) f(6,7) by (auto simp: state_work_def)
qed

lemma core_reading:
  assumes "exch_core line hs payload body txt old c w" "reading (hc_state c)" "line = status_line v (dec_str (nat code)) phrase"
    and "known_status v code phrase" "list_all clean_header hs" "hs \<noteq> []" "announces hs payload body" "length payload < 2 ^ 31"
  shows "\<exists>st c' w'. state_work mb c w = ret (st, c', w') \<and> env_kept c w c' w' \<and> st \<noteq> HTTP_CLIENT_DISPOSING \<and>
     exch_core line hs payload body txt old (c'\<lparr>hc_state := st\<rparr>) w'"
proof -
  let ?fd = "tcp_fd (tr_tcp (hc_transport c))"
  have I: "blk_inv c w" "whole_I line hs payload body c w" "w_out w ?fd = old ?fd @ txt" "req_kept c" "\<not> tr_use_tls (hc_transport c)"
    using assms(1,2) by (auto simp: exch_core_def exch_state_def Let_def reading_def)
  have st: "hc_state c \<notin> {HTTP_CLIENT_ERROR, HTTP_CLIENT_DISPOSING, HTTP_CLIENT_RETURNING}"
      "hc_state c \<in> {HTTP_CLIENT_READING_FIRSTLINE, HTTP_CLIENT_READING_HEADERS, HTTP_CLIENT_DECIPHER_CHONKINESS,
         HTTP_CLIENT_READING_BODY_CHUNKED, HTTP_CLIENT_READING_BODY, HTTP_CLIENT_RETURNING}"
    using assms(2) by (auto simp: reading_def)
  note b = announces_body [OF assms(7,8)]
  obtain st c' w' where r: "state_work mb c w = ret (st, c', w')" "same_job c c'" "st \<noteq> HTTP_CLIENT_DISPOSING"
      "w_delivered w' = w_delivered w" "st = HTTP_CLIENT_ERROR \<or> whole_I line hs payload body (c'\<lparr>hc_state := st\<rparr>) w'"
    using plain.reading_work [OF _ assms(4-7) b st(1), of w mb] I(2) by (auto simp: whole_I_def assms(3))
  have step: "blocking_step mb c w = Some (state_work mb c w)" using st(2) by (auto simp: blocking_step_def state_work_def)
  then have p: "req_kept c'" "st \<in> {HTTP_CLIENT_RETURNING, HTTP_CLIENT_ERROR} \<or> reading st \<and> blk_inv c' w'"
    using reading_progress [OF I(1) assms(2), of mb] r(1) by (auto simp: progress_def)
  have k: "sent_kept c w c' w'" by (rule reading_work_sent [OF r(1) I(5) st(2)])
  then have "exch_core line hs payload body txt old (c'\<lparr>hc_state := st\<rparr>) w'"
    using p r(5) I(3,5) by (cases st) (auto simp: exch_core_def exch_state_def req_kept_def reading_def sent_kept_def)
  moreover have "env_kept c w c' w'" using k r(2,4) by (simp add: env_kept_def sent_kept_def clock_runs_def)
  ultimately show ?thesis using r(1,3) by blast
qed

text \<open>A client before its connection: connecting leads to an error, or to a client whose request is for the parts
  of the URL.\<close>

definition conn_start :: "cstring \<Rightarrow> byte list \<Rightarrow> 's HTTP_Client \<Rightarrow> bool" where
  "conn_start url bs c \<longleftrightarrow>
     hc_URL c = Some url \<and> hc_url_parts c = zero_url \<and> hc_recv_buf c = empty_data \<and> hc_chunk_remaining c = 0 \<and>
     \<not> tr_use_tls (hc_transport c) \<and> fresh_body c \<and>
     (\<exists>r. hc_req c = Some r \<and> req_wf r \<and> request_body r = bs \<and> req_body_len r = int (length bs) \<and>
        (\<forall>b. req_body r = Some b \<longrightarrow> req_body_len r \<le> int (length b)))"

lemma blk_conn_start: "blk_start mb u bs c \<Longrightarrow> conn_start u bs c"
  by (simp add: blk_start_def conn_start_def zero_transport_def)

lemma core_connecting:
  assumes "http_parser_url (Some u) (Some zero_url) = (SUCCESS, Some p)" "scheme_uses_tls (up_scheme p) \<noteq> Some True"
    and "conn_start u bs c" "hc_state c = HTTP_CLIENT_CONNECTING" "length bs < 2 ^ 30"
    and "served v code phrase hs payload w" "w_alloc w = []"
    and "txt = request_head (method_str (hc_method c)) (up_path p) (up_host p) (announced (hc_method c) bs) @ bs"
  shows "\<exists>st c' w'. state_work mb c w = ret (st, c', w') \<and> env_kept c w c' w' \<and> st \<noteq> HTTP_CLIENT_DISPOSING \<and>
     exch_core (status_line v (dec_str (nat code)) phrase) hs payload body txt (w_out w) (c'\<lparr>hc_state := st\<rparr>) w'"
proof -
  have c: "hc_URL c = Some u" "hc_url_parts c = zero_url" "hc_recv_buf c = empty_data" "hc_chunk_remaining c = 0"
      "\<not> tr_use_tls (hc_transport c)" "fresh_body c" "req_kept c"
    using assms(3) by (auto simp: conn_start_def req_kept_def)
  obtain r where r: "hc_req c = Some r" "req_wf r" "request_body r = bs" "req_body_len r = int (length bs)"
      "\<forall>b. req_body r = Some b \<longrightarrow> req_body_len r \<le> int (length b)"
    using assms(3) by (auto simp: conn_start_def)
  have ok: "url_ok p" using url_sound [OF assms(1)] by auto
  obtain res t' w' where t: "transport_init mb (Some (hc_transport c)) (Some (up_host p)) (Some (up_port p)) (Some (up_scheme p))
        (hc_timeout_ms c) (hc_blocking_mode c) w = ret (res, Some t', w')" "net_kept w w'"
      "tr_use_tls t' \<longrightarrow> res \<noteq> SUCCESS \<and> t' = hc_transport c"
    using plain_init [OF assms(2)] by metis
  have pl: "\<not> tr_use_tls t'" using t(3) c(5) by auto
  let ?c = "c\<lparr>hc_url_parts := p, hc_transport := t'\<rparr>"
  let ?st = "if res = ERR_IN_PROGRESS then HTTP_CLIENT_WAITING_CONNECT
      else if res \<noteq> SUCCESS then HTTP_CLIENT_ERROR else HTTP_CLIENT_BUILDING_REQUEST"
  have step: "state_work mb c w = ret (?st, ?c, w')"
    using assms(1,4) t(1) c(1,2) by (simp add: state_work_def http_client_worktask_connecting_def Let_def)
  have rx: "rx_bytes (w_in w' fd) = status_line v (dec_str (nat code)) phrase @ CRLF @ header_block hs @ payload"
      "RxEof \<in> set (w_in w' fd)" "length (rx_bytes (w_in w' fd)) < 2 ^ 31" for fd
    using assms(6) t(2) unfolding served_def peers_close_def net_kept_def by auto
  have "before_reading (status_line v (dec_str (nat code)) phrase) hs payload ?c w'"
    using rx [of "tcp_fd (tr_tcp t')"] c(3,4,6,7) pl t(2) assms(7)
    by (simp add: before_reading_def blk_inv_def client_ready_def stream_of_def plain_unread_def plain_up_def
        empty_data_def block_bytes_def contents_def buf_ok_def block_inv_def block_contents_def fresh_body_def req_kept_def net_kept_def)
  moreover have "request_ok ?c r" "request_text ?c r = txt"
    using ok r assms(5,8) by (auto simp: request_ok_def request_text_def url_ok_def)
  ultimately have "exch_core (status_line v (dec_str (nat code)) phrase) hs payload body txt (w_out w) (?c\<lparr>hc_state := ?st\<rparr>) w'"
    using c(7) pl t(2)
    by (auto simp: exch_core_def exch_state_def Let_def req_kept_def net_kept_def request_ok_def request_text_def err_codes)
  moreover have "env_kept c w ?c w'" using t(2) by (simp add: env_kept_def same_job_def net_kept_def clock_runs_def)
  moreover have "?st \<noteq> HTTP_CLIENT_DISPOSING" by simp
  ultimately show ?thesis using step by blast
qed

lemma core_waiting:
  assumes "exch_core line hs payload body txt old c w" "hc_state c = HTTP_CLIENT_WAITING_CONNECT"
  shows "\<exists>st c' w'. state_work mb c w = ret (st, c', w') \<and> env_kept c w c' w' \<and> st \<noteq> HTTP_CLIENT_DISPOSING \<and>
     exch_core line hs payload body txt old (c'\<lparr>hc_state := st\<rparr>) w'"
proof -
  obtain req where I: "before_reading line hs payload c w" "w_out w = old" "request_ok c req" "request_text c req = txt"
      "req_kept c" "\<not> tr_use_tls (hc_transport c)"
    using assms by (auto simp: exch_core_def exch_state_def)
  obtain res w1 where f: "transport_finish_connect mb (Some (hc_transport c)) w = (res, Some (hc_transport c), w1)" "net_kept w w1"
  proof (cases "tr_use_blocking (hc_transport c)")
    case True
    then show thesis using that [of SUCCESS w] I(6) by (simp add: transport_finish_connect_def)
  next
    case False
    obtain res w1 where "tcp_client_finish_connect (tcp_fd (tr_tcp (hc_transport c))) w = (res, w1)"
      by (cases "tcp_client_finish_connect (tcp_fd (tr_tcp (hc_transport c))) w")
    then show thesis using that [of res w1] False I(6) open_frame(5) by (simp add: transport_finish_connect_def)
  qed
  obtain now w2 where clk: "SystemMonotonicMS w1 = (now, w2)" by (cases "SystemMonotonicMS w1")
  note w2 = monotonic_frame [of w1, unfolded clk snd_conv] clock_runs_read [of w1, unfolded clk snd_conv]
  have k: "v \<in> {w1, w2} \<Longrightarrow> w_in v = w_in w \<and> w_alloc v = w_alloc w \<and> w_out v = w_out w \<and> w_delivered v = w_delivered w \<and>
      w_sched v = w_sched w \<and> clock_runs w v" for v
    using f(2) w2 clock_runs_trans [OF clock_runs_refl w2(9)] by (auto simp: net_kept_def clock_runs_refl)
  have br: "v \<in> {w1, w2} \<Longrightarrow> before_reading line hs payload c v" for v using k I(1) before_reading_frame by metis
  have good: "env_kept c w d v \<and> st \<noteq> HTTP_CLIENT_DISPOSING \<and> exch_core line hs payload body txt old (d\<lparr>hc_state := st\<rparr>) v"
    if "v \<in> {w1, w2}" "d = c\<lparr>hc_retries := a, hc_next_retry_at := b\<rparr>"
      "st \<in> {HTTP_CLIENT_BUILDING_REQUEST, HTTP_CLIENT_WAITING_CONNECT, HTTP_CLIENT_ERROR}" for st d v a b
  proof -
    have "\<exists>req. request_ok (d\<lparr>hc_state := st\<rparr>) req \<and> request_text (d\<lparr>hc_state := st\<rparr>) req = txt"
      using I(3,4) that(2) by (auto simp: request_ok_def request_text_def)
    then show ?thesis
      using that k [OF that(1)] br [OF that(1)] I(2,5,6)
      by (auto simp: exch_core_def exch_state_def env_kept_def same_job_def req_kept_def)
  qed
  have "\<exists>st v a b. state_work mb c w = ret (st, c\<lparr>hc_retries := a, hc_next_retry_at := b\<rparr>, v) \<and> v \<in> {w1, w2} \<and>
      st \<in> {HTTP_CLIENT_BUILDING_REQUEST, HTTP_CLIENT_WAITING_CONNECT, HTTP_CLIENT_ERROR}"
  proof -
    have c: "c = c\<lparr>hc_retries := hc_retries c, hc_next_retry_at := hc_next_retry_at c\<rparr>"
      "c\<lparr>hc_retries := 0\<rparr> = c\<lparr>hc_retries := 0, hc_next_retry_at := hc_next_retry_at c\<rparr>"
      "c\<lparr>hc_next_retry_at := b\<rparr> = c\<lparr>hc_retries := hc_retries c, hc_next_retry_at := b\<rparr>" for b by simp_all
    have "state_work mb c w = ret (HTTP_CLIENT_BUILDING_REQUEST, c\<lparr>hc_retries := 0\<rparr>, w1) \<or>
        state_work mb c w = ret (HTTP_CLIENT_WAITING_CONNECT, c\<lparr>hc_next_retry_at := c_size (now + 50)\<rparr>, w2) \<or>
        state_work mb c w = ret (HTTP_CLIENT_ERROR, c, w1)"
      using f(1) clk assms(2) by (simp add: state_work_def http_client_worktask_waiting_connect_def Let_def)
    then show ?thesis using c by (metis insert_iff)
  qed
  then show ?thesis using good by blast
qed

section \<open>The loop of the blocking interface\<close>

definition exch_inv where
  "exch_inv line hs payload body txt old c w \<longleftrightarrow> hc_blocking_mode c \<and>
     (if hc_state c = HTTP_CLIENT_DISPOSING
      then req_kept c \<and> \<not> tr_use_tls (hc_transport c) \<and>
        hc_blocking_out c = Some \<lparr>hd_addr = Some (body @ [NUL]), hd_size = int (length body)\<rparr> \<and>
        (\<exists>fd. w_out w fd = old fd @ txt)
      else hc_blocking_out c = Some empty_data \<and> exch_core line hs payload body txt old c w)"

lemma exch_work:
  assumes "exch_inv line hs payload body txt old c w" "hc_state c \<noteq> HTTP_CLIENT_DISPOSING"
    and "env_kept c w c' w'" "st \<noteq> HTTP_CLIENT_DISPOSING" "exch_core line hs payload body txt old (c'\<lparr>hc_state := st\<rparr>) w'"
  shows "exch_inv line hs payload body txt old (c'\<lparr>hc_state := st\<rparr>) w'"
  using assms by (simp add: exch_inv_def env_kept_def same_job_def)

lemma exch_returning:
  assumes "exch_inv line hs payload body txt old c w" "hc_state c = HTTP_CLIENT_RETURNING"
  shows "\<exists>st c' w'. blocking_step mb c w = Some (ret (st, c', w')) \<and>
     exch_inv line hs payload body txt old (c'\<lparr>hc_state := st\<rparr>) w'"
proof -
  let ?fd = "tcp_fd (tr_tcp (hc_transport c))"
  have I: "response_source c = Inr body" "w_out w ?fd = old ?fd @ txt" "req_kept c" "\<not> tr_use_tls (hc_transport c)"
      "hc_blocking_mode c" "hc_blocking_out c = Some empty_data"
    using assms by (simp_all add: exch_inv_def exch_core_def exch_state_def Let_def whole_I_def whole_inv_def response_inv_def)
  obtain ok w1 where m: "w_malloc w = (ok, w1)" by (cases "w_malloc w")
  have "w_out w1 = w_out w" using w_malloc_frame(3) [of w] m by simp
  then show ?thesis
    using I m assms(2)
    by (cases ok) (auto simp: blocking_step_def http_client_worktask_returning_def exch_inv_def exch_core_def exch_state_def
        empty_data_def req_kept_def)
qed

lemma exch_connecting:
  assumes "http_parser_url (Some u) (Some zero_url) = (SUCCESS, Some p)" "scheme_uses_tls (up_scheme p) \<noteq> Some True"
    and "blk_start mb u bs c" "hc_state c = HTTP_CLIENT_CONNECTING" "length bs < 2 ^ 30" "hc_blocking_out c = Some empty_data"
    and "served v code phrase hs payload w" "w_alloc w = []"
    and "txt = request_head (method_str (hc_method c)) (up_path p) (up_host p) (announced (hc_method c) bs) @ bs"
  shows "\<exists>st c' w'. blocking_step mb c w = Some (ret (st, c', w')) \<and>
     exch_inv (status_line v (dec_str (nat code)) phrase) hs payload body txt (w_out w) (c'\<lparr>hc_state := st\<rparr>) w'"
proof -
  obtain st c' w' where s: "state_work mb c w = ret (st, c', w')" "env_kept c w c' w'" "st \<noteq> HTTP_CLIENT_DISPOSING"
      "exch_core (status_line v (dec_str (nat code)) phrase) hs payload body txt (w_out w) (c'\<lparr>hc_state := st\<rparr>) w'"
    using core_connecting [OF assms(1,2) blk_conn_start [OF assms(3)] assms(4,5,7-9), of mb body] by blast
  have "blocking_step mb c w = Some (ret (st, c', w'))" using s(1) assms(4) by (simp add: blocking_step_def state_work_def)
  moreover have "exch_inv (status_line v (dec_str (nat code)) phrase) hs payload body txt (w_out w) (c'\<lparr>hc_state := st\<rparr>) w'"
    using s(2-4) assms(3,6) by (simp add: exch_inv_def env_kept_def same_job_def blk_start_def)
  ultimately show ?thesis by blast
qed

section \<open>The exchange\<close>

definition exch_result :: "byte list \<Rightarrow> byte list \<Rightarrow> (int \<Rightarrow> byte list) \<Rightarrow> int \<Rightarrow> http_data \<Rightarrow> world \<Rightarrow> bool" where
  "exch_result body txt old code out w \<longleftrightarrow>
     (if code = SUCCESS
      then out = \<lparr>hd_addr = Some (body @ [NUL]), hd_size = int (length body)\<rparr> \<and> (\<exists>fd. w_out w fd = old fd @ txt)
      else code \<in> {ERR_TIMEOUT, ERR_IO} \<and>
        (out = empty_data \<or> out = \<lparr>hd_addr = Some (body @ [NUL]), hd_size = int (length body)\<rparr>))"

lemma exch_clock:
  assumes "exch_inv line hs payload body txt old c w"
  shows "exch_inv line hs payload body txt old c (snd (SystemMonotonicMS w))"
proof -
  have "before_reading line hs payload c (snd (SystemMonotonicMS w)) = before_reading line hs payload c w"
    by (simp add: before_reading_def monotonic_ready)
  then show ?thesis
    using assms whole_I_clock [of line hs payload body c w]
    by (auto simp: exch_inv_def exch_core_def exch_state_def Let_def sending_inv_clock split: HTTPClientState.splits)
qed

lemma exch_exit:
  assumes "exch_inv line hs payload body txt old c w" "code = SUCCESS \<Longrightarrow> hc_state c = HTTP_CLIENT_DISPOSING"
    and "code \<in> {SUCCESS, ERR_TIMEOUT, ERR_IO}"
  shows "\<exists>out w'. blocking_exit mb code c w = ret (code, Some out, w') \<and> exch_result body txt old code out w'"
proof -
  have k: "req_kept c" "\<not> tr_use_tls (hc_transport c)" using assms(1) by (simp_all add: exch_inv_def exch_core_def split: if_splits)
  have d: "\<exists>x. http_parser_dispose (hc_req c) (hc_resp c) = ret x"
  proof (cases "hc_req c")
    case None
    then show ?thesis by (cases "hc_resp c") (simp_all add: http_parser_dispose_def)
  qed (use k in \<open>simp add: req_kept_def dispose_req_wf\<close>)
  obtain t w1 where t: "transport_dispose mb (Some (hc_transport c)) (scheduler_destroy_task (hc_task c) w) = (t, w1)"
    by (cases "transport_dispose mb (Some (hc_transport c)) (scheduler_destroy_task (hc_task c) w)")
  then have o: "w_out w1 = w_out w"
    using k(2) by (auto simp: transport_dispose_def tcp_client_dispose_def sys_close_def scheduler_destroy_task_def Let_def
        split: prod.splits option.splits if_splits)
  have "blocking_exit mb code c w = ret (code, hc_blocking_out c, w1)"
    using d t by (auto simp: blocking_exit_def http_client_destroy_def http_client_dispose_def Let_def)
  moreover obtain out where out: "hc_blocking_out c = Some out"
      "out = empty_data \<and> hc_state c \<noteq> HTTP_CLIENT_DISPOSING \<or>
       out = \<lparr>hd_addr = Some (body @ [NUL]), hd_size = int (length body)\<rparr> \<and> (\<exists>fd. w_out w fd = old fd @ txt)"
    using assms(1) by (auto simp: exch_inv_def split: if_splits)
  moreover have "exch_result body txt old code out w1" using out assms(2,3) o by (auto simp: exch_result_def)
  ultimately show ?thesis by simp
qed

lemma exch_step:
  assumes "exch_inv (status_line v (dec_str (nat code)) phrase) hs payload body txt old c w"
    and "served v code phrase hs payload w0" "announces hs payload body" "length txt < 2 ^ 31"
    and "blocking_step mb c w = Some r"
  shows "\<exists>st c' w'. r = ret (st, c', w') \<and>
     exch_inv (status_line v (dec_str (nat code)) phrase) hs payload body txt old (c'\<lparr>hc_state := st\<rparr>) w'"
proof -
  let ?line = "status_line v (dec_str (nat code)) phrase"
  have s: "known_status v code phrase" "list_all clean_header hs" "hs \<noteq> []" using assms(2) by (simp_all add: served_def)
  have "length (rx_bytes (w_in w0 0)) < 2 ^ 31"
      "rx_bytes (w_in w0 0) = status_line v (dec_str (nat code)) phrase @ CRLF @ header_block hs @ payload"
    using assms(2) unfolding served_def peers_close_def by blast+
  then have p: "length payload < 2 ^ 31" by simp
  have core: ?thesis if "\<exists>st c' w'. state_work mb c w = ret (st, c', w') \<and> env_kept c w c' w' \<and> st \<noteq> HTTP_CLIENT_DISPOSING \<and>
       exch_core ?line hs payload body txt old (c'\<lparr>hc_state := st\<rparr>) w'"
      "blocking_step mb c w = Some (state_work mb c w)" "hc_state c \<noteq> HTTP_CLIENT_DISPOSING"
    using that exch_work [OF assms(1)] assms(5) by auto
  have c: "exch_core ?line hs payload body txt old c w" if "hc_state c \<noteq> HTTP_CLIENT_DISPOSING"
    using that assms(1) by (simp add: exch_inv_def)
  consider "reading (hc_state c)" | "hc_state c = HTTP_CLIENT_BUILDING_REQUEST" | "hc_state c = HTTP_CLIENT_SENDING_REQUEST"
    | "hc_state c = HTTP_CLIENT_RETURNING" | "blocking_step mb c w = None" | "hc_state c = HTTP_CLIENT_CONNECTING"
    by (cases "hc_state c") (simp_all add: blocking_step_def)
  then show ?thesis
  proof cases
    case 1
    then have "hc_state c \<noteq> HTTP_CLIENT_DISPOSING" "blocking_step mb c w = Some (state_work mb c w)"
      by (auto simp: reading_def blocking_step_def state_work_def)
    then show ?thesis using core core_reading [OF c 1 refl s assms(3) p, of mb] by blast
  next
    case 2
    then show ?thesis using core [OF core_building [OF c 2]] by (simp add: blocking_step_def state_work_def)
  next
    case 3
    then show ?thesis using core [OF core_sending [OF c 3 assms(4)]] by (simp add: blocking_step_def state_work_def)
  next
    case 4
    then show ?thesis using exch_returning [OF assms(1) 4, of mb] assms(5) by auto
  next
    case 5
    then show ?thesis using assms(5) by simp
  next
    case 6
    then show ?thesis using c by (simp add: exch_core_def exch_state_def reading_def)
  qed
qed

text \<open>One round of the loop, for any function \<open>loop\<close> in the place of the rest of it that has the property.\<close>

lemma exch_round:
  assumes "\<And>mb t start c w r. loop mb t start c w = Some r \<Longrightarrow>
      exch_inv (status_line v (dec_str (nat code)) phrase) hs payload body txt old c w \<longrightarrow>
      (\<exists>rc out w'. r = Inr (rc, Some out, w') \<and> exch_result body txt old rc out w')"
    and "(case SystemMonotonicMS w of (now, w) \<Rightarrow>
        if timed_out t start now then blocking_exit mb ERR_TIMEOUT c w
        else
          (case blocking_step mb c w of
             None \<Rightarrow> blocking_exit mb (if hc_state c = HTTP_CLIENT_DISPOSING then SUCCESS else ERR_IO) c w
           | Some r \<Rightarrow>
               (case r of
                  None \<Rightarrow> None
                | Some (Inl f) \<Rightarrow> fault f
                | Some (Inr (st, c1, w1)) \<Rightarrow> loop mb t start (c1\<lparr>hc_state := st\<rparr>) w1))) = Some r"
    and "exch_inv (status_line v (dec_str (nat code)) phrase) hs payload body txt old c w"
    and "served v code phrase hs payload w0" "announces hs payload body" "length txt < 2 ^ 31"
  shows "\<exists>rc out w'. r = Inr (rc, Some out, w') \<and> exch_result body txt old rc out w'"
proof -
  let ?w = "snd (SystemMonotonicMS w)"
  note I = exch_clock [OF assms(3)]
  show ?thesis
  proof (cases "timed_out t start (fst (SystemMonotonicMS w))")
    case True
    then have "blocking_exit mb ERR_TIMEOUT c ?w = Some r" using assms(2) by (simp add: case_prod_beta)
    moreover have "ERR_TIMEOUT \<noteq> SUCCESS" by (simp add: err_codes)
    ultimately show ?thesis using exch_exit [OF I, of ERR_TIMEOUT mb] by force
  next
    case False
    show ?thesis
    proof (cases "blocking_step mb c ?w")
      case None
      let ?code = "if hc_state c = HTTP_CLIENT_DISPOSING then SUCCESS else ERR_IO"
      have "blocking_exit mb ?code c ?w = Some r" using assms(2) False None by (simp add: case_prod_beta)
      moreover have "?code = SUCCESS \<Longrightarrow> hc_state c = HTTP_CLIENT_DISPOSING" "?code \<in> {SUCCESS, ERR_TIMEOUT, ERR_IO}"
        by (simp_all add: err_codes split: if_splits)
      note exch_exit [OF I this, of mb]
      ultimately show ?thesis by (metis option.inject)
    next
      case (Some x)
      obtain st c' w' where x: "x = ret (st, c', w')"
          "exch_inv (status_line v (dec_str (nat code)) phrase) hs payload body txt old (c'\<lparr>hc_state := st\<rparr>) w'"
        using exch_step [OF I assms(4-6) Some] by blast
      then have "loop mb t start (c'\<lparr>hc_state := st\<rparr>) w' = Some r" using assms(2) False Some by (simp add: case_prod_beta)
      then show ?thesis using assms(1) x(2) by blast
    qed
  qed
qed

lemma exch_loop:
  assumes "blocking_loop mb t start c w = Some r"
    and "exch_inv (status_line v (dec_str (nat code)) phrase) hs payload body txt old c w"
    and "served v code phrase hs payload w0" "announces hs payload body" "length txt < 2 ^ 31"
  shows "\<exists>rc out w'. r = Inr (rc, Some out, w') \<and> exch_result body txt old rc out w'"
proof -
  have "exch_inv (status_line v (dec_str (nat code)) phrase) hs payload body txt old c w \<longrightarrow>
      (\<exists>rc out w'. r = Inr (rc, Some out, w') \<and> exch_result body txt old rc out w')"
  proof (rule blocking_loop.raw_induct [OF _ assms(1), where P = "\<lambda>mb t start c w r.
      exch_inv (status_line v (dec_str (nat code)) phrase) hs payload body txt old c w \<longrightarrow>
      (\<exists>rc out w'. r = Inr (rc, Some out, w') \<and> exch_result body txt old rc out w')"], rule impI, goal_cases)
    case (1 loop mb t start c w r)
    show ?case by (rule exch_round [where loop = loop, OF _ 1(2,3) assms(3-5)]) (rule 1(1))
  qed
  then show ?thesis using assms(2) by simp
qed

lemma served_clock [simp]: "served v code phrase hs payload (snd (SystemMonotonicMS w)) = served v code phrase hs payload w"
  by (rule served_frame) simp

lemma blocking_exit_state: "blocking_exit mb code (c\<lparr>hc_state := st\<rparr>) w = blocking_exit mb code c w"
  by (simp add: blocking_exit_def http_client_destroy_def http_client_dispose_def Let_def out_bind_def split: prod.splits option.splits sum.splits)

lemma exch_start:
  assumes "http_parser_url (Some u) (Some zero_url) = (SUCCESS, Some p)" "scheme_uses_tls (up_scheme p) \<noteq> Some True"
    and "blk_start mb u bs c" "hc_state c = HTTP_CLIENT_CONNECTING" "length bs < 2 ^ 30" "hc_blocking_out c = Some empty_data"
    and "served v code phrase hs payload w" "announces hs payload body" "w_alloc w = []" "length txt < 2 ^ 31"
    and "txt = request_head (method_str (hc_method c)) (up_path p) (up_host p) (announced (hc_method c) bs) @ bs"
    and "blocking_loop mb t start c w = Some r"
  shows "\<exists>rc out w'. r = Inr (rc, Some out, w') \<and> exch_result body txt (w_out w) rc out w'"
proof -
  let ?w = "snd (SystemMonotonicMS w)" and ?line = "status_line v (dec_str (nat code)) phrase"
  have served: "served v code phrase hs payload ?w" "w_alloc ?w = []" "w_out ?w = w_out w"
    using assms(7,9) by simp_all
  show ?thesis
  proof (cases "timed_out t start (fst (SystemMonotonicMS w))")
    case True
    have "exch_inv ?line hs payload body txt (w_out w) (c\<lparr>hc_state := HTTP_CLIENT_ERROR\<rparr>) ?w"
      using assms(3,6) blk_start_kept [OF assms(3)]
      by (simp add: exch_inv_def exch_core_def exch_state_def blk_start_def req_kept_def zero_transport_def)
    note exch_exit [OF this, of ERR_TIMEOUT mb]
    moreover have "blocking_exit mb ERR_TIMEOUT (c\<lparr>hc_state := HTTP_CLIENT_ERROR\<rparr>) ?w = Some r"
      using assms(12) loop_timed_out [OF True, of mb c] by (simp add: blocking_exit_state)
    ultimately show ?thesis by (auto simp: err_codes)
  next
    case False
    obtain st c' w' where s: "blocking_step mb c ?w = Some (ret (st, c', w'))"
        "exch_inv ?line hs payload body txt (w_out w) (c'\<lparr>hc_state := st\<rparr>) w'"
      using exch_connecting [OF assms(1-6) served(1,2) assms(11), of body] served(3) by auto
    then have "blocking_loop mb t start (c'\<lparr>hc_state := st\<rparr>) w' = Some r"
      using assms(12) False by (simp add: blocking_loop.simps [of mb t start c w] case_prod_beta)
    then show ?thesis using exch_loop [OF _ s(2) assms(7,8,10)] by blast
  qed
qed

lemma work_exchange:
  assumes "http_parser_url (Some u) (Some zero_url) = (SUCCESS, Some p)" "scheme_uses_tls (up_scheme p) \<noteq> Some True"
    and "served v code phrase hs payload w" "announces hs payload body" "w_alloc w = []"
    and inp: "\<And>d. inp = Some d \<Longrightarrow> hd_size d < 2 ^ 30 \<and> buf_view d = Inr bs" "inp = None \<Longrightarrow> bs = []"
  shows "\<exists>rc out w'. http_blocking_work mb (Some u) meth inp (Some empty_data) t w = ret (rc, Some out, w') \<and>
     exch_result body (request_head (method_str meth) (up_path p) (up_host p) (announced meth bs) @ bs) (w_out w) rc out w'"
proof -
  let ?txt = "request_head (method_str meth) (up_path p) (up_host p) (announced meth bs) @ bs"
  let ?r = "http_blocking_work mb (Some u) meth inp (Some empty_data) t w"
  have bs: "in_bytes inp = bs" using inp by (cases inp) (simp_all add: in_bytes_def)
  have lb: "length bs < 2 ^ 30"
    using inp by (cases inp) (auto simp: buf_view_def split: if_splits)
  have "length (request_head (method_str meth) (up_path p) (up_host p) (announced meth bs)) \<le>
      length (up_path p) + length (up_host p) + 75 + (if announced meth bs = None then 0 else 68)"
    using url_sound [OF assms(1)] lb by (intro request_head_length) (auto simp: url_ok_def announced_def split: if_splits)
  then have lt: "length ?txt < 2 ^ 31" using url_sound [OF assms(1)] lb by (auto simp: url_ok_def split: if_splits)
  have "plain_url u" "peers_close w" using assms(1-3) by (simp_all add: plain_url_def served_def)
  then obtain r where r: "?r = Some r" using work_ends [of u w inp] inp(1) by blast
  have "length (in_bytes inp) < 2 ^ 31" using bs lb by simp
  from work_begins [OF this, of mb u meth "Some empty_data" t w] show ?thesis
    unfolding begins_def
  proof (elim disjE exE conjE)
    fix c a assume s: "blk_start mb u (in_bytes inp) c" "hc_blocking_out c = Some empty_data" "hc_method c = meth"
      "w_alloc w = [] \<longrightarrow> a = []" "?r = blocking_start mb t c (w\<lparr>w_alloc := a\<rparr>)"
    have "w\<lparr>w_alloc := a\<rparr> = w" using s(4) assms(5) by simp
    then have w: "?r = blocking_start mb t c w" using s(5) by simp
    let ?w = "snd (SystemMonotonicMS w)" and ?c = "c\<lparr>hc_state := HTTP_CLIENT_CONNECTING\<rparr>"
    have "blocking_loop mb t (fst (SystemMonotonicMS w)) ?c ?w = Some r"
      using r w by (simp add: blocking_start_def case_prod_beta)
    moreover have "blk_start mb u bs ?c" using s(1) bs by (simp add: blk_start_def fresh_body_def)
    ultimately obtain rc out w' where "r = Inr (rc, Some out, w')" "exch_result body ?txt (w_out ?w) rc out w'"
      using exch_start [OF assms(1,2) _ _ lb _ _ assms(4) _ lt, of mb ?c v code phrase ?w t "fst (SystemMonotonicMS w)" r] s(2,3) assms(3,5) by auto
    then show ?thesis using r by auto
  next
    fix f d assume "inp = Some d" "buf_view d = Inl f"
    then show ?thesis using inp(1) by simp
  qed (simp add: assms(5))
qed

text \<open>C1: a whole exchange over the blocking interface. For a URL of plain HTTP that the parser accepts, with memory
  and with a server that answers with a status line of a known code, clean header fields and the body they
  announce (with Content-Length or in chunks), cut into segments in any way, \<^verbatim>\<open>http_blocking_get\<close> and
  \<^verbatim>\<open>http_blocking_post\<close> return without a fault, whatever the sockets and the clock do. On \<^verbatim>\<open>SUCCESS\<close> the output
  holds exactly the body and a NUL behind it, and the server has been sent exactly the request text of the
  parts of the URL, with the body given. Otherwise the code is \<^verbatim>\<open>ERR_TIMEOUT\<close> or \<^verbatim>\<open>ERR_IO\<close>, and the output is
  empty or the whole body, never a part of it.\<close>

theorem blocking_exchange_exact:
  assumes "http_parser_url (Some u) (Some zero_url) = (SUCCESS, Some p)" "scheme_uses_tls (up_scheme p) = Some False"
    and "served v code phrase hs payload w" "announces hs payload body" "w_alloc w = []"
    and "buf_view d = Inr bs" "hd_size d < 2 ^ 30"
  shows "(\<exists>rc out' w'. http_blocking_get mb (Some u) (Some out) t w = ret (rc, Some out', w') \<and>
       exch_result body (request_head ''GET'' (up_path p) (up_host p) None) (w_out w) rc out' w') \<and>
     (\<exists>rc out' w'. http_blocking_post mb (Some u) (Some d) (Some out) t w = ret (rc, Some out', w') \<and>
       exch_result body
         (request_head ''POST'' (up_path p) (up_host p) (if bs = [] then None else Some (length bs)) @ bs) (w_out w) rc out' w')"
proof -
  have tls: "scheme_uses_tls (up_scheme p) \<noteq> Some True" using assms(2) by simp
  have "\<not> hd_size d < 0" using assms(6) by (auto simp: buf_view_def split: if_splits)
  then show ?thesis
    using work_exchange [OF assms(1) tls assms(3-5), of None "[]" mb HTTP_GET t]
      work_exchange [OF assms(1) tls assms(3-5), of "Some d" bs mb HTTP_POST t] assms(6,7)
    by (cases "bs = []") (simp_all add: http_blocking_get_def http_blocking_post_def announced_def method_str_def)
qed

text \<open>An exchange of five bytes in chunks over a connection that hands the response out in pieces.\<close>

definition exch_world :: world where
  "exch_world = (world0 0)\<lparr>w_gai := [Some [7]], w_in := \<lambda>_. [Data (''HTTP/1.1 200 OK'' @ CRLF @ ''Transfer-Enc''), RxErr EAGAIN,
     Data (''oding: chunked'' @ CRLF @ CRLF @ ''5'' @ CRLF @ ''abc''), Data (''de'' @ CRLF @ ''0'' @ CRLF @ CRLF), RxEof]\<rparr>"

lemma exch_example:
  "served ''HTTP/1.1'' 200 ''OK'' [(''Transfer-Encoding'', ''chunked'')] (chunked_text [(''5'', ''abcde'')] ''0'' []) exch_world"
  "announces [(''Transfer-Encoding'', ''chunked'')] (chunked_text [(''5'', ''abcde'')] ''0'' []) ''abcde''"
proof -
  have d: "dec_str 200 = ''200''" "HttpStatus_reasonPhrase 200 = Some ''OK''" by code_simp+
  have h: "header_block [(''Transfer-Encoding'', ''chunked'')] = ''Transfer-Encoding: chunked'' @ CRLF @ CRLF" by code_simp
  have z: "size_line ''5'' (length ''abcde'')" "size_line ''0'' 0" "strstr ''chunked'' ''chunked'' = Some 0" by code_simp+
  show "served ''HTTP/1.1'' 200 ''OK'' [(''Transfer-Encoding'', ''chunked'')] (chunked_text [(''5'', ''abcde'')] ''0'' []) exch_world"
    by (simp add: served_def exch_world_def world0_def h d status_line_def known_status_def clean_header_def peers_close_def
      hdr_ws_def hdr_lws_def is_c_str_def CRLF_def chunked_text_def chunk_text_def)
  show "announces [(''Transfer-Encoding'', ''chunked'')] (chunked_text [(''5'', ''abcde'')] ''0'' []) ''abcde''"
    unfolding announces_def using z
    by (intro disjI1 exI [of _ "''chunked''"] exI [of _ "[(''5'', ''abcde'')]"] exI [of _ "''0''"] exI [of _ "[]"])
      (simp_all add: valid_chunk_def)
qed

theorem blocking_exchange_exact_witness:
  "\<exists>w'. http_blocking_get mb_example (Some ''http://a.se/x'') (Some empty_data) 0 exch_world =
       ret (SUCCESS, Some \<lparr>hd_addr = Some (''abcde'' @ [NUL]), hd_size = 5\<rparr>, w') \<and>
     (\<exists>fd. w_out w' fd = ''GET /x HTTP/1.1'' @ CRLF @ ''Host: a.se'' @ CRLF @ ''User-Agent: httpclient'' @ CRLF @
        ''Connection: close'' @ CRLF @ CRLF)"
proof -
  have p: "http_parser_url (Some ''http://a.se/x'') (Some zero_url) =
      (SUCCESS, Some \<lparr>up_scheme = ''http'', up_host = ''a.se'', up_port = ''80'', up_path = ''/x''\<rparr>)" by code_simp
  have "scheme_uses_tls ''http'' = Some False" by code_simp
  then obtain rc out w' where r: "http_blocking_get mb_example (Some ''http://a.se/x'') (Some empty_data) 0 exch_world = ret (rc, Some out, w')"
      "exch_result ''abcde'' (request_head ''GET'' ''/x'' ''a.se'' None) (w_out exch_world) rc out w'"
    using blocking_exchange_exact [OF p _ exch_example, of "\<lparr>hd_addr = None, hd_size = 0\<rparr>" "[]" mb_example empty_data 0]
    by (auto simp: exch_world_def world0_def buf_view_def)
  have "map_option (map_sum id fst) (http_blocking_get mb_example (Some ''http://a.se/x'') (Some empty_data) 0 exch_world) =
      Some (Inr SUCCESS)" by code_simp
  then have "rc = SUCCESS" using r(1) by simp
  then show ?thesis using r by (auto simp: exch_result_def exch_world_def world0_def request_head_def)
qed

end
