(* ===== verification/HTTP_Tasks.thy ===== *)
theory HTTP_Tasks imports HTTP_Exchange Scheduler
begin

text \<open>
  The client of \<^verbatim>\<open>modules/src/http_client.c\<close> as a task of the scheduler (\<^verbatim>\<open>modules/src/scheduler.c\<close>): a whole exchange
  without blocking, from the first call of the task to the callback. The clients live in a heap of their own;
  the callback of a task is the function pointer \<^verbatim>\<open>http_client_taskwork\<close>, its context the address of a client.
\<close>

section \<open>The callback\<close>

type_synonym 's clients = "nat \<Rightarrow> 's HTTP_Client option"

definition client_callbacks :: "'s mbedtls \<Rightarrow> 's clients callbacks" where
  "client_callbacks mb cb ctx t hw =
     (case ctx of
        None \<Rightarrow> ret hw
      | Some a \<Rightarrow>
          (case fst hw a of
             None \<Rightarrow> fault UseAfterFree
           | Some c \<Rightarrow>
               out_bind (http_client_taskwork mb (Some c) t (snd hw)) (\<lambda>(c', w'). ret ((fst hw)(a := c'), w'))))"

section \<open>An exchange as a sequence of calls\<close>

text \<open>What the two ends agree on: a URL of plain HTTP and a response that announces its body.\<close>

definition agreed ::
  "cstring \<Rightarrow> URL_Parts \<Rightarrow> cstring \<Rightarrow> int \<Rightarrow> cstring \<Rightarrow> (cstring \<times> cstring) list \<Rightarrow> byte list \<Rightarrow> byte list \<Rightarrow> bool" where
  "agreed u p v code phrase hs payload body \<longleftrightarrow>
     http_parser_url (Some u) (Some zero_url) = (SUCCESS, Some p) \<and> scheme_uses_tls (up_scheme p) = Some False \<and>
     known_status v code phrase \<and> list_all clean_header hs \<and> hs \<noteq> [] \<and> announces hs payload body \<and> length payload < 2 ^ 31"

definition get_text :: "URL_Parts \<Rightarrow> byte list" where
  "get_text p = request_head ''GET'' (up_path p) (up_host p) None"

text \<open>The client between two calls of its task, before anything was handed out.\<close>

definition task_inv ::
  "cstring \<Rightarrow> URL_Parts \<Rightarrow> cstring \<Rightarrow> int \<Rightarrow> cstring \<Rightarrow> (cstring \<times> cstring) list \<Rightarrow> byte list \<Rightarrow> byte list \<Rightarrow> (int \<Rightarrow> byte list) \<Rightarrow>
     's HTTP_Client \<Rightarrow> world \<Rightarrow> bool" where
  "task_inv u p v code phrase hs payload body old c w \<longleftrightarrow>
     \<not> hc_blocking_mode c \<and> hc_on_success c \<and>
     (if hc_state c = HTTP_CLIENT_CONNECTING
      then conn_start u [] c \<and> hc_method c = HTTP_OPTIONS \<and> served v code phrase hs payload w \<and> w_alloc w = [] \<and> w_out w = old
      else exch_core (status_line v (dec_str (nat code)) phrase) hs payload body (get_text p) old c w)"

text \<open>What peers send, what they were sent and the heap: nothing else of the system matters to the invariant.\<close>

lemma whole_I_frame:
  assumes "w_in v = w_in w" "w_alloc v = w_alloc w" "whole_I line hs payload body c w"
  shows "whole_I line hs payload body c v"
proof -
  note f = plain.stream_frame [OF assms(1)] plain.ready_frame [OF assms(1)]
  have "response_inv plain_up plain_unread body (hc_state c) c w \<Longrightarrow> response_inv plain_up plain_unread body (hc_state c) c v"
    by (cases "hc_state c") (simp_all add: response_inv_def chunk_inv_def body_inv_def f)
  then show ?thesis using assms(2,3) by (cases "hc_state c") (simp_all add: whole_I_def whole_inv_def f)
qed

lemma task_inv_frame:
  assumes "w_in v = w_in w" "w_alloc v = w_alloc w" "w_out v = w_out w" "task_inv u p vs code phrase hs payload body old c w"
  shows "task_inv u p vs code phrase hs payload body old c v"
proof -
  have "served vs code phrase hs payload v = served vs code phrase hs payload w"
    by (rule served_frame [OF assms(1)])
  moreover have "blk_inv c v = blk_inv c w" using assms(1) by (simp add: blk_inv_def plain_unread_def)
  ultimately show ?thesis
    using assms whole_I_frame [OF assms(1,2), where c = c] before_reading_frame [OF assms(1,2), where c = c]
    by (cases "hc_state c") (auto simp: task_inv_def exch_core_def exch_state_def Let_def sending_inv_def)
qed

lemmas task_inv_clock = task_inv_frame [OF monotonic_frame(3,6,4)]

text \<open>How a call ends: the response was handed out, or nothing was and the client goes on or has failed.\<close>

definition task_ends ::
  "cstring \<Rightarrow> URL_Parts \<Rightarrow> cstring \<Rightarrow> int \<Rightarrow> cstring \<Rightarrow> (cstring \<times> cstring) list \<Rightarrow> byte list \<Rightarrow> byte list \<Rightarrow> (int \<Rightarrow> byte list) \<Rightarrow>
     's HTTP_Client \<Rightarrow> world \<Rightarrow> 's HTTP_Client \<Rightarrow> world \<Rightarrow> bool" where
  "task_ends u p v code phrase hs payload body old c w c' w' \<longleftrightarrow>
     hc_task c' = hc_task c \<and> hc_context c' = hc_context c \<and> w_sched w' = w_sched w \<and> clock_runs w w' \<and>
     (if hc_state c' = HTTP_CLIENT_DISPOSING
      then w_delivered w' = w_delivered w @ [(hc_context c, body)] \<and> (\<exists>fd. w_out w' fd = old fd @ get_text p)
      else w_delivered w' = w_delivered w \<and> task_inv u p v code phrase hs payload body old c' w')"

lemma task_returning:
  assumes "task_inv u p v code phrase hs payload body old c w" "hc_state c = HTTP_CLIENT_RETURNING"
  shows "\<exists>st c' w'. state_work mb c w = ret (st, c', w') \<and> task_ends u p v code phrase hs payload body old c w (c'\<lparr>hc_state := st\<rparr>) w'"
proof -
  let ?fd = "tcp_fd (tr_tcp (hc_transport c))"
  have I: "response_source c = Inr body" "w_out w ?fd = old ?fd @ get_text p" "req_kept c" "\<not> tr_use_tls (hc_transport c)"
      "\<not> hc_blocking_mode c" "hc_on_success c"
    using assms by (simp_all add: task_inv_def exch_core_def exch_state_def Let_def whole_I_def whole_inv_def response_inv_def)
  obtain ok w1 where m: "w_malloc w = (ok, w1)" by (cases "w_malloc w")
  have "w_out w1 = w_out w" "w_delivered w1 = w_delivered w" "w_sched w1 = w_sched w" "w_clock w1 = w_clock w"
    using w_malloc_frame(3,5,6,7) [of w] m by simp_all
  then show ?thesis
    using I m assms(2)
    by (cases ok) (auto simp: state_work_def http_client_worktask_returning_def task_ends_def task_inv_def exch_core_def
        exch_state_def req_kept_def clock_runs_refl clock_runs_def)
qed

lemma task_work:
  assumes "task_inv u p v code phrase hs payload body old c w" "agreed u p v code phrase hs payload body"
    and "hc_state c \<notin> {HTTP_CLIENT_ERROR, HTTP_CLIENT_DISPOSING}"
  shows "\<exists>st c' w'. state_work mb c w = ret (st, c', w') \<and> task_ends u p v code phrase hs payload body old c w (c'\<lparr>hc_state := st\<rparr>) w'"
proof -
  let ?line = "status_line v (dec_str (nat code)) phrase"
  have a: "http_parser_url (Some u) (Some zero_url) = (SUCCESS, Some p)" "scheme_uses_tls (up_scheme p) \<noteq> Some True"
      "known_status v code phrase" "list_all clean_header hs" "hs \<noteq> []" "announces hs payload body" "length payload < 2 ^ 31"
    using assms(2) by (simp_all add: agreed_def)
  have "length (get_text p) \<le> length (up_path p) + length (up_host p) + 75"
    using url_sound [OF a(1)] request_head_length [of "up_path p" "up_host p" None HTTP_GET]
    by (auto simp: get_text_def url_ok_def method_str_def)
  then have l: "length (get_text p) < 2 ^ 31" using url_sound [OF a(1)] by (auto simp: url_ok_def)
  have core_case: ?thesis if "\<exists>st c' w'. state_work mb c w = ret (st, c', w') \<and> env_kept c w c' w' \<and> st \<noteq> HTTP_CLIENT_DISPOSING \<and>
      exch_core ?line hs payload body (get_text p) old (c'\<lparr>hc_state := st\<rparr>) w'"
  proof -
    obtain st c' w' where s: "state_work mb c w = ret (st, c', w')" "env_kept c w c' w'" "st \<noteq> HTTP_CLIENT_DISPOSING"
        "exch_core ?line hs payload body (get_text p) old (c'\<lparr>hc_state := st\<rparr>) w'" using \<open>\<exists>st c' w'. _\<close> by blast
    then have "st \<noteq> HTTP_CLIENT_CONNECTING" by (auto simp: exch_core_def exch_state_def reading_def)
    then have "task_ends u p v code phrase hs payload body old c w (c'\<lparr>hc_state := st\<rparr>) w'"
      using s(2-4) assms(1) by (auto simp: task_ends_def env_kept_def same_job_def task_inv_def)
    then show ?thesis using s(1) by blast
  qed
  have c: "exch_core ?line hs payload body (get_text p) old c w" if "hc_state c \<noteq> HTTP_CLIENT_CONNECTING"
    using that assms(1) by (simp add: task_inv_def)
  consider "hc_state c = HTTP_CLIENT_CONNECTING" | "hc_state c = HTTP_CLIENT_WAITING_CONNECT"
    | "hc_state c = HTTP_CLIENT_BUILDING_REQUEST" | "hc_state c = HTTP_CLIENT_SENDING_REQUEST"
    | "hc_state c = HTTP_CLIENT_RETURNING" | "reading (hc_state c)" "hc_state c \<noteq> HTTP_CLIENT_CONNECTING"
    using assms(3) c by (cases "hc_state c") (auto simp: exch_core_def exch_state_def Let_def reading_def)
  then show ?thesis
  proof cases
    case 1
    then have "conn_start u [] c" "hc_method c = HTTP_OPTIONS" "served v code phrase hs payload w" "w_alloc w = []" "w_out w = old"
      using assms(1) by (simp_all add: task_inv_def)
    then show ?thesis
      using core_case core_connecting [OF a(1,2) _ 1, of "[]" v code phrase hs payload w "get_text p" mb body]
      by (simp add: get_text_def method_str_def announced_def)
  next
    case 2
    then show ?thesis by (intro core_case core_waiting c) simp_all
  next
    case 3
    then show ?thesis by (intro core_case core_building c) simp_all
  next
    case 4
    then show ?thesis by (intro core_case core_sending c l) simp_all
  next
    case 5
    then show ?thesis using task_returning [OF assms(1)] by blast
  next
    case 6
    then show ?thesis using core_case [OF core_reading [OF c [OF 6(2)] 6(1) refl a(3-7)]] by simp
  qed
qed

lemma task_call:
  assumes "task_inv u p v code phrase hs payload body old c w" "agreed u p v code phrase hs payload body"
    and "hc_state c \<notin> {HTTP_CLIENT_ERROR, HTTP_CLIENT_DISPOSING}"
  shows "\<exists>c' w'. http_client_taskwork mb (Some c) t w = ret (Some c', w') \<and>
     task_ends u p v code phrase hs payload body old c w c' w'"
proof -
  let ?w = "snd (SystemMonotonicMS w)"
  note I = task_inv_clock [OF assms(1)]
  obtain st c1 w1 where s: "state_work mb c ?w = ret (st, c1, w1)"
      "task_ends u p v code phrase hs payload body old c ?w (c1\<lparr>hc_state := st\<rparr>) w1"
    using task_work [OF I assms(2,3), of mb] by blast
  obtain c' w' where r: "http_client_taskwork mb (Some c) t w = ret (Some c', w')" using taskwork_returns [OF s(1) assms(3)] by blast
  have "task_ends u p v code phrase hs payload body old c w c' w'"
  proof (rule taskwork_cases [OF r assms(3)])
    assume "c' = c" "w' = ?w"
    then show ?thesis using I assms(3) clock_runs_read by (auto simp: task_ends_def)
  next
    fix st' c2 assume "state_work mb c ?w = ret (st', c2, w')" "c' = c2\<lparr>hc_state := st'\<rparr>"
    then have "task_ends u p v code phrase hs payload body old c ?w c' w'" using s by simp
    then show ?thesis using clock_runs_trans [OF clock_runs_read] by (auto simp: task_ends_def)
  qed
  then show ?thesis using r by blast
qed

section \<open>A pass of the scheduler over one client\<close>

text \<open>The table with one task in slot \<open>i\<close>, that of the client at address \<open>a\<close>.\<close>

definition one_task :: "nat \<Rightarrow> nat \<Rightarrow> nat \<Rightarrow> Scheduler_Task list" where
  "one_task n i a = (replicate n idle_task)[i := \<lparr>st_context = Some a, st_callback = Some HTTP_TASKWORK\<rparr>]"

lemma slots_append: "scheduler_slots run t (is @ js) hw = out_bind (scheduler_slots run t is hw) (scheduler_slots run t js)"
  by (induction "is" arbitrary: hw) (auto simp: out_bind_def split: option.splits sum.splits)

lemma slots_idle:
  "\<forall>j\<in>set is. st_callback (w_sched w ! j) = None \<Longrightarrow> scheduler_slots run t is (h, w) = ret (h, w)"
  by (induction "is") (simp_all add: scheduler_slot_def)

lemma one_task_nth: "j < n \<Longrightarrow> one_task n i a ! j = (if j = i then \<lparr>st_context = Some a, st_callback = Some HTTP_TASKWORK\<rparr> else idle_task)"
  by (simp add: one_task_def nth_list_update)

lemma one_task_live: "i < n \<Longrightarrow> length (filter task_live (one_task n i a)) = 1"
  using filter_update_length [of i "replicate n idle_task" task_live "\<lparr>st_context = Some a, st_callback = Some HTTP_TASKWORK\<rparr>"]
  by (simp add: one_task_def task_live_def idle_task_def)

text \<open>A pass calls the task once; the world it leaves differs from the one the call leaves in the clock and the sleeps.\<close>

lemma one_pass:
  assumes "w_sched w = one_task n i a" "i < n" "h a = Some c"
    and "http_client_taskwork mb (Some c) t (snd (SystemMonotonicMS w)) = ret (Some c', w')"
    and "w_sched w' = one_task n i a \<or> w_sched w' = replicate n idle_task"
  obtains w2 where "scheduler_work (client_callbacks mb) t (h, w) = ret (h(a \<mapsto> c'), w2)"
    "w_sched w2 = w_sched w'" "w_in w2 = w_in w'" "w_out w2 = w_out w'" "w_alloc w2 = w_alloc w'" "w_delivered w2 = w_delivered w'"
    "clock_runs w' w2"
proof -
  let ?run = "client_callbacks mb"
  obtain st w1 where m: "SystemMonotonicMS w = (st, w1)" by (cases "SystemMonotonicMS w")
  have w1: "w_sched w1 = w_sched w" using monotonic_frame(1) [of w] m by simp
  obtain fin w3 where m3: "SystemMonotonicMS w' = (fin, w3)" by (cases "SystemMonotonicMS w'")
  note f3 = monotonic_frame [of w', unfolded m3 snd_conv] clock_runs_read [of w', unfolded m3 snd_conv]
  define w2 where "w2 = (if c_size (fin - st) < MIN_LOOP_MS then ms_sleep (c_size (MIN_LOOP_MS - c_size (fin - st))) w3 else w3)"
  have slot: "scheduler_slot ?run t i (h, w) = ret (h(a \<mapsto> c'), w2)"
    using assms(1-4) m m3 w1 by (simp add: scheduler_slot_def one_task_nth client_callbacks_def w2_def Let_def)
  have f: "w_sched w2 = w_sched w'" "w_in w2 = w_in w'" "w_out w2 = w_out w'" "w_alloc w2 = w_alloc w'" "w_delivered w2 = w_delivered w'"
      "w_clock w2 = w_clock w3"
    using f3 by (simp_all add: w2_def ms_sleep_def sys_nanosleep_def)
  have before: "scheduler_slots ?run t [0..<i] (h, w) = ret (h, w)"
    using assms(1,2) by (intro slots_idle) (simp add: one_task_nth idle_task_def)
  have after: "scheduler_slots ?run t [Suc i..<n] (h(a \<mapsto> c'), w2) = ret (h(a \<mapsto> c'), w2)"
    using assms(2,5) f(1) by (intro slots_idle) (auto simp: one_task_nth idle_task_def)
  have "length (w_sched w) = n" using assms(1) by (simp add: one_task_def)
  moreover have "[0..<n] = [0..<i] @ i # [Suc i..<n]" using assms(2) by (metis upt_conv_Cons upt_add_eq_append le_add1 less_imp_le_nat add_0 zero_le le_iff_add)
  ultimately have "scheduler_work ?run t (h, w) = ret (h(a \<mapsto> c'), w2)"
    using before slot after by (simp add: scheduler_work_def slots_append)
  moreover have "clock_runs w' w2" using f3(9) f(6) by (simp add: clock_runs_def)
  ultimately show thesis using that f by blast
qed

end
