(* ===== verification/Files.thy ===== *)
theory Files imports String_Utils
begin

text \<open>
  Files as the sources see them through \<^verbatim>\<open>stdio.h\<close>, \<^verbatim>\<open>stat\<close>, \<^verbatim>\<open>mkdir\<close> and \<^verbatim>\<open>readdir\<close>.

  \<open>f_node\<close> says what is at each path that can be reached. A regular file is its bytes; opening a
  directory for reading succeeds and every read fails; a special file (a pipe, a device) delivers some
  bytes. The number kept with the last two is what \<^verbatim>\<open>ftell\<close> reports after seeking to the end, -1 where
  seeking fails. \<open>f_may_read\<close> and \<open>f_may_write\<close> are the permissions (for writing also that the directory
  is there), \<open>f_space\<close> is how many bytes the device still takes: what exceeds it is lost, and \<^verbatim>\<open>fputs\<close> and
  \<^verbatim>\<open>fclose\<close> report it only through results the sources do not look at. Truncating a file does not add to \<open>f_space\<close>:
  a file system may keep the old blocks (a snapshot, a reader that has the file open).
\<close>

datatype dtype = DT_REG | DT_DIR | DT_UNKNOWN | DT_OTHER

record dirent =
  d_name :: cstring
  d_type :: dtype

datatype fnode = Regular "byte list" | Directory "dirent list" int | Special "byte list" int

record files =
  f_node :: "cstring \<Rightarrow> fnode option"
  f_may_read :: "cstring \<Rightarrow> bool"
  f_may_write :: "cstring \<Rightarrow> bool"
  f_space :: nat

text \<open>A file system with everything allowed.\<close>

definition files0 :: "(cstring \<Rightarrow> fnode option) \<Rightarrow> files" where
  "files0 nodes = \<lparr>f_node = nodes, f_may_read = (\<lambda>_. True), f_may_write = (\<lambda>_. True), f_space = 1000000\<rparr>"

section \<open>Streams\<close>

text \<open>\<^verbatim>\<open>fopen(path, "r")\<close>: the bytes reads deliver, and the position of the end.\<close>

definition fopen_r :: "cstring \<Rightarrow> files \<Rightarrow> (byte list \<times> int) option" where
  "fopen_r path fs =
     (if \<not> f_may_read fs path then None
      else
        (case f_node fs path of
           None \<Rightarrow> None
         | Some (Regular bs) \<Rightarrow> Some (bs, int (length bs))
         | Some (Directory _ n) \<Rightarrow> Some ([], n)
         | Some (Special bs n) \<Rightarrow> Some (bs, n)))"

text \<open>\<^verbatim>\<open>fopen(path, "w")\<close> creates or truncates, \<^verbatim>\<open>fopen(path, "a")\<close> creates or keeps.\<close>

definition fopen_w :: "cstring \<Rightarrow> files \<Rightarrow> files option" where
  "fopen_w path fs =
     (if \<not> f_may_write fs path then None
      else
        (case f_node fs path of
           None \<Rightarrow> Some (fs\<lparr>f_node := (f_node fs)(path \<mapsto> Regular [])\<rparr>)
         | Some (Regular _) \<Rightarrow> Some (fs\<lparr>f_node := (f_node fs)(path \<mapsto> Regular [])\<rparr>)
         | Some (Directory _ _) \<Rightarrow> None
         | Some (Special _ _) \<Rightarrow> Some fs))"

definition fopen_a :: "cstring \<Rightarrow> files \<Rightarrow> files option" where
  "fopen_a path fs =
     (if \<not> f_may_write fs path then None
      else
        (case f_node fs path of
           None \<Rightarrow> Some (fs\<lparr>f_node := (f_node fs)(path \<mapsto> Regular [])\<rparr>)
         | Some (Regular _) \<Rightarrow> Some fs
         | Some (Directory _ _) \<Rightarrow> None
         | Some (Special _ _) \<Rightarrow> Some fs))"

text \<open>Writing to an open stream, up to the flush.\<close>

definition stream_write :: "cstring \<Rightarrow> byte list \<Rightarrow> files \<Rightarrow> files" where
  "stream_write path bs fs =
     (case f_node fs path of
        Some (Regular old) \<Rightarrow>
          fs\<lparr>f_node := (f_node fs)(path \<mapsto> Regular (old @ take (f_space fs) bs)),
             f_space := f_space fs - length bs\<rparr>
      | _ \<Rightarrow> fs)"

text \<open>\<^verbatim>\<open>fwrite(bs, 1, n, f)\<close>: the model's stream has no buffer of its own, so the count is what the device takes.\<close>

definition fwrite :: "cstring \<Rightarrow> byte list \<Rightarrow> files \<Rightarrow> nat \<times> files" where
  "fwrite path bs fs =
     (case f_node fs path of Some (Regular _) \<Rightarrow> min (length bs) (f_space fs) | _ \<Rightarrow> length bs, stream_write path bs fs)"

text \<open>\<^verbatim>\<open>fgets(buf, size, f)\<close>: what is stored before the NUL, and the rest of the stream.\<close>

definition fgets :: "nat \<Rightarrow> byte list \<Rightarrow> (byte list \<times> byte list) option" where
  "fgets sz bs =
     (if bs = [] then None
      else
        let k = min (Suc (length (takeWhile (\<lambda>c. c \<noteq> LF) bs))) (sz - 1)
        in Some (take k bs, drop k bs))"

text \<open>\<^verbatim>\<open>strncpy(dst, src, n)\<close> pads with NUL.\<close>

definition strncpy :: "byte list \<Rightarrow> cstring \<Rightarrow> nat \<Rightarrow> byte list" where
  "strncpy dst src n = block_write dst 0 (take n src @ replicate (n - length src) NUL)"

lemma fgets_shorter: "1 < sz \<Longrightarrow> fgets sz bs = Some (l, rest) \<Longrightarrow> length rest < length bs"
  by (auto simp: fgets_def Let_def split: if_splits)

lemma fgets_fits: "0 < sz \<Longrightarrow> fgets sz bs = Some (l, rest) \<Longrightarrow> length l < sz"
  by (auto simp: fgets_def Let_def split: if_splits)

lemma fgets_line:
  assumes "LF \<notin> set l" "Suc (length l) < sz"
  shows "fgets sz (l @ LF # rest) = Some (l @ [LF], rest)"
proof -
  have "takeWhile (\<lambda>c. c \<noteq> LF) (l @ LF # rest) = l" using assms(1) by (induction l) auto
  then show ?thesis using assms(2) by (simp add: fgets_def Let_def)
qed

lemma fgets_last:
  assumes "LF \<notin> set l" "Suc (length l) < sz" "l \<noteq> []"
  shows "fgets sz l = Some (l, [])"
proof -
  have tw: "takeWhile (\<lambda>c. c \<noteq> LF) l = l" using assms(1) by (auto simp: takeWhile_eq_all_conv)
  show ?thesis using assms(2,3) by (simp add: fgets_def Let_def tw)
qed

end
