(* ===== verification/Calendar.thy ===== *)
theory Calendar imports Time_Utils begin

text \<open>
  The calendar behind \<^verbatim>\<open>utils/src/time_utils.c\<close>: \<^verbatim>\<open>struct tm\<close> (without the day of the week and of the
  year, which the sources never read), the C library's \<^verbatim>\<open>gmtime\<close>, and the library's own \<^verbatim>\<open>timegm\<close> with
  every signed operation checked for overflow. The facts relate both to the day numbers of the
  proleptic Gregorian calendar.
\<close>

section \<open>The calendar\<close>

record tm =
  tm_sec :: int
  tm_min :: int
  tm_hour :: int
  tm_mday :: int
  tm_mon :: int
  tm_year :: int
  tm_isdst :: int

definition zero_tm :: tm where
  "zero_tm = \<lparr>tm_sec = 0, tm_min = 0, tm_hour = 0, tm_mday = 0, tm_mon = 0, tm_year = 0, tm_isdst = 0\<rparr>"

definition leap_year :: "int \<Rightarrow> bool" where
  "leap_year y \<longleftrightarrow> 4 dvd y \<and> \<not> 100 dvd y \<or> 400 dvd y"

definition year_days :: "int \<Rightarrow> int" where
  "year_days y = (if leap_year y then 366 else 365)"

definition month_lengths :: "int \<Rightarrow> int list" where
  "month_lengths y = [31, if leap_year y then 29 else 28, 31, 30, 31, 30, 31, 31, 30, 31, 30, 31]"

text \<open>The standard library's \<^verbatim>\<open>gmtime\<close>: the year that contains a day, counted from the first day of
  \<open>y\<close>, then the month.\<close>

function year_walk :: "int \<Rightarrow> int \<Rightarrow> int \<times> int" where
  "year_walk y d =
     (if d < 0 then year_walk (y - 1) (d + year_days (y - 1))
      else if d < year_days y then (y, d)
      else year_walk (y + 1) (d - year_days y))"
  by pat_completeness auto
termination
  by (relation "measure (\<lambda>(y, d). nat (if d < 0 then 1000 - d else d))") (auto simp: year_days_def split: if_splits)

declare year_walk.simps [simp del]

fun month_split :: "int list \<Rightarrow> int \<Rightarrow> int \<times> int" where
  "month_split [] d = (0, d)"
| "month_split (l # ls) d =
     (if d < l then (0, d) else (case month_split ls (d - l) of (m, r) \<Rightarrow> (m + 1, r)))"

definition gm_fields :: "int \<Rightarrow> tm" where
  "gm_fields t =
     (case year_walk 1970 (t div 86400) of (y, yd) \<Rightarrow>
      (case month_split (month_lengths y) yd of (m, md) \<Rightarrow>
         \<lparr>tm_sec = t mod 60, tm_min = t div 60 mod 60, tm_hour = t div 3600 mod 24, tm_mday = md + 1,
           tm_mon = m, tm_year = y - 1900, tm_isdst = 0\<rparr>))"

definition gmtime :: "int \<Rightarrow> tm option" where
  "gmtime t = (let tm = gm_fields t in
     if INT_MIN \<le> tm_year tm \<and> tm_year tm \<le> INT_MAX then Some tm else None)"

section \<open>timegm\<close>

text \<open>Signed arithmetic of width 32: a result that does not fit is undefined behaviour.\<close>

definition i32 :: "int \<Rightarrow> int res" where
  "i32 x = (if INT_MIN \<le> x \<and> x \<le> INT_MAX then Inr x else Inl SignedOverflow)"

fun month_loop :: "int list \<Rightarrow> nat \<Rightarrow> int \<Rightarrow> int res" where
  "month_loop ls 0 days = Inr days"
| "month_loop [] (Suc k) days = Inl OutOfBounds"
| "month_loop (l # ls) (Suc k) days = res_bind (i32 (days + l)) (month_loop ls k)"

definition days_in_month :: "int list" where
  "days_in_month = [31, 28, 31, 30, 31, 30, 31, 31, 30, 31, 30, 31]"

text \<open>The days before the year, with the division of C.\<close>

definition year_start :: "int \<Rightarrow> int res" where
  "year_start year =
     res_bind (i32 (year - 1970)) (\<lambda>a. res_bind (i32 (a * 365)) (\<lambda>d0.
     res_bind (i32 (year - 1969)) (\<lambda>b. res_bind (i32 (d0 + c_div b 4)) (\<lambda>d1.
     res_bind (i32 (year - 1901)) (\<lambda>c. res_bind (i32 (d1 - c_div c 100)) (\<lambda>d2.
     res_bind (i32 (year - 1601)) (\<lambda>e. i32 (d2 + c_div e 400))))))))"

definition to_seconds :: "int \<Rightarrow> int \<Rightarrow> int \<Rightarrow> int \<Rightarrow> int res" where
  "to_seconds days hour minute second =
     res_bind (i32 (days * 24)) (\<lambda>a. res_bind (i32 (a + hour)) (\<lambda>b.
     res_bind (i32 (b * 60)) (\<lambda>c. res_bind (i32 (c + minute)) (\<lambda>d.
     res_bind (i32 (d * 60)) (\<lambda>e. i32 (e + second))))))"

definition timegm :: "tm \<Rightarrow> int res" where
  "timegm t =
     res_bind (i32 (tm_year t + 1900)) (\<lambda>year.
     res_bind (i32 (tm_mday t - 1)) (\<lambda>day.
     res_bind (year_start year) (\<lambda>days0.
     res_bind (month_loop days_in_month (nat (tm_mon t)) days0) (\<lambda>days1.
     res_bind
       (if tm_mon t > 1 \<and> (c_mod year 4 = 0 \<and> c_mod year 100 \<noteq> 0 \<or> c_mod year 400 = 0)
        then i32 (days1 + 1) else Inr days1) (\<lambda>days2.
     res_bind (i32 (days2 + day)) (\<lambda>days.
     to_seconds days (tm_hour t) (tm_min t) (tm_sec t)))))))"

section \<open>Facts: the calendar\<close>

definition day_number :: "int \<Rightarrow> int" where
  "day_number y = (y - 1970) * 365 + (y - 1969) div 4 - (y - 1901) div 100 + (y - 1601) div 400"

lemma div_step:
  fixes a k :: int assumes "0 < k"
  shows "(a + 1) div k = a div k + (if k dvd a + 1 then 1 else 0)"
proof (cases "a mod k + 1 = k")
  case True
  then have "a + 1 = k * (a div k + 1)" using mult_div_mod_eq [of k a] unfolding distrib_left by linarith
  then show ?thesis using assms by simp
next
  case False
  then have r: "a + 1 = k * (a div k) + (a mod k + 1)" "0 \<le> a mod k + 1" "a mod k + 1 < k"
    using False assms pos_mod_bound [OF assms, of a] pos_mod_sign [OF assms, of a] by (simp_all add: add_nonneg_nonneg)
  then have "(a + 1) div k = a div k" "(a + 1) mod k = a mod k + 1"
    using int_div_pos_eq [OF r] int_mod_pos_eq [OF r] by simp_all
  moreover have "0 < a mod k + 1" using assms by (simp add: add_nonneg_pos)
  ultimately show ?thesis by (simp add: dvd_eq_mod_eq_0)
qed

lemma day_number_step: "day_number (y + 1) = day_number y + year_days y"
proof -
  have d: "4 dvd y - 1968 \<longleftrightarrow> 4 dvd y" "100 dvd y - 1900 \<longleftrightarrow> 100 dvd y" "400 dvd y - 1600 \<longleftrightarrow> 400 dvd y"
    by (simp_all add: dvd_diff_left_iff)
  have "(y - 1968) div 4 = (y - 1969) div 4 + (if 4 dvd y then 1 else 0)"
      "(y - 1900) div 100 = (y - 1901) div 100 + (if 100 dvd y then 1 else 0)"
      "(y - 1600) div 400 = (y - 1601) div 400 + (if 400 dvd y then 1 else 0)"
    using div_step [of 4 "y - 1969"] div_step [of 100 "y - 1901"] div_step [of 400 "y - 1601"] d by simp_all
  moreover have "400 dvd y \<Longrightarrow> 100 dvd y" "100 dvd y \<Longrightarrow> 4 dvd y"
    using dvd_trans [of 100 400 y] dvd_trans [of 4 100 y] by simp_all
  ultimately show ?thesis by (auto simp: day_number_def year_days_def leap_year_def)
qed

lemma day_number_1970: "day_number 1970 = 0"
  by (simp add: day_number_def)

lemma year_days_pos: "365 \<le> year_days y" "year_days y \<le> 366"
  by (simp_all add: year_days_def)

lemma day_number_mono:
  assumes "y < z" shows "day_number y + year_days y \<le> day_number z"
  using assms
proof (induction rule: int_gr_induct)
  case base
  then show ?case by (simp add: day_number_step)
next
  case (step z)
  then show ?case using day_number_step [of z] year_days_pos [of z] by simp
qed

lemma day_number_unique:
  assumes "day_number y + r = day_number z + q" "0 \<le> r" "r < year_days y" "0 \<le> q" "q < year_days z"
  shows "y = z \<and> r = q"
  using assms day_number_mono [of y z] day_number_mono [of z y] by (cases y z rule: linorder_cases) auto

lemma year_walk_law:
  "year_walk y d = (z, r) \<Longrightarrow> day_number z + r = day_number y + d \<and> 0 \<le> r \<and> r < year_days z"
proof (induction y d rule: year_walk.induct)
  case (1 y d)
  have "day_number y = day_number (y - 1) + year_days (y - 1)" using day_number_step [of "y - 1"] by simp
  then show ?case
    using 1 day_number_step [of y] by (subst (asm) year_walk.simps) (fastforce split: if_splits)
qed

lemma year_walk_eq:
  assumes "0 \<le> r" "r < year_days y"
  shows "year_walk 1970 (day_number y + r) = (y, r)"
proof -
  obtain z q where z: "year_walk 1970 (day_number y + r) = (z, q)" by (cases "year_walk 1970 (day_number y + r)")
  then have "day_number z + q = day_number y + r" "0 \<le> q" "q < year_days z"
    using year_walk_law [OF z] by (auto simp: day_number_1970)
  with assms show ?thesis using z day_number_unique [of z q y r] by simp
qed

text \<open>The days of the year before a month.\<close>

definition month_start :: "int \<Rightarrow> int \<Rightarrow> int" where
  "month_start y m = sum_list (take (nat m) (month_lengths y))"

lemma month_split_law:
  assumes "month_split ls d = (m, r)" "0 \<le> d" "d < sum_list ls" "list_all (\<lambda>l. 0 < l) ls"
  shows "0 \<le> m \<and> m < int (length ls) \<and> d = sum_list (take (nat m) ls) + r \<and> 0 \<le> r \<and> r < ls ! nat m"
  using assms
proof (induction ls arbitrary: d m)
  case (Cons l ls)
  show ?case
  proof (cases "d < l")
    case True
    then show ?thesis using Cons.prems by auto
  next
    case False
    obtain k q where k: "month_split ls (d - l) = (k, q)" by (cases "month_split ls (d - l)")
    then have "0 \<le> k \<and> k < int (length ls) \<and> d - l = sum_list (take (nat k) ls) + q \<and> 0 \<le> q \<and> q < ls ! nat k"
      using Cons.IH [of "d - l" k] Cons.prems False by (cases "m") (auto split: prod.splits)
    then show ?thesis using Cons.prems k False by (auto simp: nat_add_distrib)
  qed
qed simp

lemma month_split_eq:
  assumes "0 \<le> m" "m < int (length ls)" "0 \<le> r" "r < ls ! nat m" "list_all (\<lambda>l. 0 < l) ls"
  shows "month_split ls (sum_list (take (nat m) ls) + r) = (m, r)"
  using assms
proof (induction ls arbitrary: m)
  case (Cons l ls)
  show ?case
  proof (cases "m = 0")
    case False
    then have m: "nat m = Suc (nat (m - 1))" "0 \<le> m - 1" using Cons.prems by auto
    have "0 \<le> sum_list (take (nat (m - 1)) ls)"
      using Cons.prems(5) by (intro sum_list_nonneg) (auto simp: list_all_iff dest!: in_set_takeD order_less_imp_le)
    then show ?thesis using Cons.IH [of "m - 1"] Cons.prems m by simp
  qed (use Cons.prems in simp)
qed simp

lemma month_lengths_facts:
  "length (month_lengths y) = 12" "sum_list (month_lengths y) = year_days y" "list_all (\<lambda>l. 0 < l) (month_lengths y)"
  by (simp_all add: month_lengths_def year_days_def)

text \<open>A broken-down time of the proleptic Gregorian calendar.\<close>

definition valid_tm :: "tm \<Rightarrow> bool" where
  "valid_tm t \<longleftrightarrow> 0 \<le> tm_sec t \<and> tm_sec t < 60 \<and> 0 \<le> tm_min t \<and> tm_min t < 60 \<and> 0 \<le> tm_hour t \<and> tm_hour t < 24 \<and>
     0 \<le> tm_mon t \<and> tm_mon t < 12 \<and>
     1 \<le> tm_mday t \<and> tm_mday t \<le> month_lengths (tm_year t + 1900) ! nat (tm_mon t)"

text \<open>Its distance from 1970-01-01T00:00:00Z in seconds.\<close>

definition tm_days :: "tm \<Rightarrow> int" where
  "tm_days t = day_number (tm_year t + 1900) + month_start (tm_year t + 1900) (tm_mon t) + (tm_mday t - 1)"

definition tm_seconds :: "tm \<Rightarrow> int" where
  "tm_seconds t = ((tm_days t * 24 + tm_hour t) * 60 + tm_min t) * 60 + tm_sec t"

lemma day_in_year:
  assumes "0 \<le> m" "m < 12" "0 \<le> r" "r < month_lengths y ! nat m"
  shows "0 \<le> month_start y m + r" "month_start y m + r < year_days y"
proof -
  have "nat m \<in> {0..<12}" using assms by auto
  then have "nat m \<in> set [0..<12]" by simp
  then show "0 \<le> month_start y m + r" "month_start y m + r < year_days y"
    using assms by (auto simp: month_start_def month_lengths_def year_days_def upt_rec split: if_splits)
qed

lemma clock_div: "t div 3600 = t div 60 div 60" "t div 86400 = t div 60 div 60 div 24" for t :: int
  using zdiv_zmult2_eq [of 60 t 60] zdiv_zmult2_eq [of 24 t 3600] by simp_all

lemma clock_fields:
  fixes d h m s :: int
  assumes "0 \<le> s" "s < 60" "0 \<le> m" "m < 60" "0 \<le> h" "h < 24"
  shows "(((d * 24 + h) * 60 + m) * 60 + s) div 86400 = d" "(((d * 24 + h) * 60 + m) * 60 + s) mod 60 = s"
    "(((d * 24 + h) * 60 + m) * 60 + s) div 60 mod 60 = m" "(((d * 24 + h) * 60 + m) * 60 + s) div 3600 mod 24 = h"
proof -
  have e: "(x * k + r) div k = x" "(x * k + r) mod k = r" if "0 \<le> r" "r < k" for x k r :: int
    using that by simp_all
  note s = e [OF assms(1,2), of "(d * 24 + h) * 60 + m"] and m = e [OF assms(3,4), of "d * 24 + h"]
    and h = e [OF assms(5,6), of d]
  show "(((d * 24 + h) * 60 + m) * 60 + s) div 86400 = d" "(((d * 24 + h) * 60 + m) * 60 + s) mod 60 = s"
    "(((d * 24 + h) * 60 + m) * 60 + s) div 60 mod 60 = m" "(((d * 24 + h) * 60 + m) * 60 + s) div 3600 mod 24 = h"
    unfolding clock_div s m h by (rule refl)+
qed

lemma gm_fields_law: "valid_tm (gm_fields t)" "tm_seconds (gm_fields t) = t"
proof -
  obtain y yd where y: "year_walk 1970 (t div 86400) = (y, yd)" by (cases "year_walk 1970 (t div 86400)")
  obtain m md where m: "month_split (month_lengths y) yd = (m, md)" by (cases "month_split (month_lengths y) yd")
  have yl: "day_number y + yd = t div 86400" "0 \<le> yd" "yd < year_days y"
    using year_walk_law [OF y] by (auto simp: day_number_1970)
  have ml: "0 \<le> m" "m < 12" "yd = month_start y m + md" "0 \<le> md" "md < month_lengths y ! nat m"
    using month_split_law [OF m yl(2)] yl(3) month_lengths_facts by (auto simp: month_start_def)
  have f: "gm_fields t = \<lparr>tm_sec = t mod 60, tm_min = t div 60 mod 60, tm_hour = t div 3600 mod 24, tm_mday = md + 1,
           tm_mon = m, tm_year = y - 1900, tm_isdst = 0\<rparr>"
    using y m by (simp add: gm_fields_def)
  show "valid_tm (gm_fields t)" using ml by (simp add: f valid_tm_def)
  have "((t div 86400 * 24 + t div 3600 mod 24) * 60 + t div 60 mod 60) * 60 + t mod 60 = t" by (simp add: clock_div)
  then show "tm_seconds (gm_fields t) = t" using yl(1) ml(3) by (simp add: f tm_seconds_def tm_days_def)
qed

lemma gm_fields_eq:
  assumes "valid_tm t" "tm_isdst t = 0"
  shows "gm_fields (tm_seconds t) = t"
proof -
  let ?y = "tm_year t + 1900" and ?d = "month_start (tm_year t + 1900) (tm_mon t) + (tm_mday t - 1)"
  have v: "0 \<le> tm_sec t" "tm_sec t < 60" "0 \<le> tm_min t" "tm_min t < 60" "0 \<le> tm_hour t" "tm_hour t < 24"
      "0 \<le> tm_mon t" "tm_mon t < 12" "0 \<le> tm_mday t - 1" "tm_mday t - 1 < month_lengths ?y ! nat (tm_mon t)"
    using assms(1) by (auto simp: valid_tm_def)
  note r = day_in_year [OF v(7-10)]
  have dd: "tm_days t = day_number ?y + ?d" by (simp add: tm_days_def)
  have parts: "tm_seconds t div 86400 = day_number ?y + ?d" "tm_seconds t mod 60 = tm_sec t"
      "tm_seconds t div 60 mod 60 = tm_min t" "tm_seconds t div 3600 mod 24 = tm_hour t"
    unfolding tm_seconds_def dd by (rule clock_fields [OF v(1-6)])+
  have "year_walk 1970 (day_number ?y + ?d) = (?y, ?d)" by (rule year_walk_eq [OF r])
  moreover have "month_split (month_lengths ?y) ?d = (tm_mon t, tm_mday t - 1)"
    unfolding month_start_def by (rule month_split_eq) (use v month_lengths_facts in auto)
  ultimately show ?thesis using assms(2) by (simp add: gm_fields_def parts)
qed

section \<open>Facts: timegm\<close>

lemma i32_simps [simp]:
  "- (2 ^ 31) \<le> x \<Longrightarrow> x \<le> 2 ^ 31 - 1 \<Longrightarrow> i32 x = Inr x" "2 ^ 31 - 1 < x \<Longrightarrow> i32 x = Inl SignedOverflow"
  by (simp_all add: i32_def INT_MIN_def INT_MAX_def)

lemma year_start_ok:
  assumes "1970 \<le> y" "y \<le> 9999"
  shows "year_start y = Inr (day_number y)" "0 \<le> day_number y" "day_number y < 3000000"
proof -
  have d: "0 \<le> (y - 1969) div 4" "(y - 1969) div 4 \<le> 2100" "0 \<le> (y - 1901) div 100" "(y - 1901) div 100 \<le> 90"
      "0 \<le> (y - 1601) div 400" "(y - 1601) div 400 \<le> 30"
    using assms zdiv_mono1 [of "y - 1969" 8030 4] zdiv_mono1 [of "y - 1901" 8098 100] zdiv_mono1 [of "y - 1601" 8398 400]
    by (simp_all add: pos_imp_zdiv_nonneg_iff)
  show "year_start y = Inr (day_number y)" "0 \<le> day_number y" "day_number y < 3000000"
    using assms d by (simp_all add: year_start_def day_number_def c_div_nonneg)
qed

lemma month_loop_sum:
  assumes "list_all (\<lambda>l. 0 < l) ls" "k \<le> length ls" "0 \<le> d" "d + sum_list ls < 2 ^ 31"
  shows "month_loop ls k d = Inr (d + sum_list (take k ls))"
  using assms
proof (induction ls k d rule: month_loop.induct)
  case (3 l ls k d)
  have "0 \<le> sum_list ls" using "3.prems"(1) by (intro sum_list_nonneg) (auto simp: list_all_iff less_imp_le)
  then have "i32 (d + l) = Inr (d + l)" using "3.prems" by (intro i32_simps(1)) auto
  then show ?case using "3.IH" [of "d + l"] "3.prems" by (simp add: add.assoc)
qed simp_all

lemma month_start_leap:
  "month_start y m = sum_list (take (nat m) days_in_month) + (if 1 < m \<and> leap_year y then 1 else 0)"
proof -
  show ?thesis
  proof (cases "1 < m")
    case True
    then have "nat m = Suc (Suc (nat (m - 2)))" by simp
    then show ?thesis using True by (simp add: month_start_def month_lengths_def days_in_month_def)
  next
    case False
    then have "m \<le> 0 \<or> m = 1" by auto
    then show ?thesis by (auto simp: month_start_def month_lengths_def days_in_month_def)
  qed
qed

lemma to_seconds_law:
  assumes "0 \<le> days" "days < 10 ^ 7" "-100 \<le> h" "h \<le> 100" "0 \<le> m" "m < 60" "0 \<le> s" "s < 60"
  shows "to_seconds days h m s =
    (let x = ((days * 24 + h) * 60 + m) * 60 + s in if x < 2 ^ 31 then Inr x else Inl SignedOverflow)"
proof -
  let ?a = "days * 24" let ?b = "?a + h" let ?c = "?b * 60" let ?d = "?c + m" let ?e = "?d * 60"
  have "i32 ?a = Inr ?a" "i32 ?b = Inr ?b" using assms by simp_all
  moreover have "i32 ?c = (if ?c < 2 ^ 31 then Inr ?c else Inl SignedOverflow)" using assms by simp
  moreover have "i32 ?d = (if ?d < 2 ^ 31 then Inr ?d else Inl SignedOverflow)" if "?c < 2 ^ 31" using assms that by simp
  moreover have "i32 ?e = (if ?e < 2 ^ 31 then Inr ?e else Inl SignedOverflow)" if "?d < 2 ^ 31" using assms that by simp
  moreover have "i32 (?e + s) = (if ?e + s < 2 ^ 31 then Inr (?e + s) else Inl SignedOverflow)" if "?e < 2 ^ 31"
    using assms that by simp
  ultimately show ?thesis
    using assms unfolding to_seconds_def Let_def by (auto split: if_splits)
qed

lemma c_mod_leap:
  "0 \<le> y \<Longrightarrow> (c_mod y 4 = 0 \<and> c_mod y 100 \<noteq> 0 \<or> c_mod y 400 = 0) = leap_year y"
  by (simp add: c_mod_nonneg leap_year_def dvd_eq_mod_eq_0)

lemma timegm_days:
  assumes "1970 \<le> tm_year t + 1900" "tm_year t + 1900 \<le> 9999" "0 \<le> tm_mon t" "tm_mon t < 12"
    and "1 \<le> tm_mday t" "tm_mday t \<le> 99"
  shows "timegm t = to_seconds (tm_days t) (tm_hour t) (tm_min t) (tm_sec t)" "0 \<le> tm_days t" "tm_days t < 10 ^ 7"
proof -
  let ?y = "tm_year t + 1900" and ?s = "sum_list (take (nat (tm_mon t)) days_in_month)"
  note ys = year_start_ok [OF assms(1,2)]
  have tot: "sum_list days_in_month = 365" "list_all (\<lambda>l. 0 < l) days_in_month" "length days_in_month = 12"
    by (simp_all add: days_in_month_def)
  have ml: "month_loop days_in_month (nat (tm_mon t)) (day_number ?y) = Inr (day_number ?y + ?s)"
    using ys assms(4) tot by (intro month_loop_sum) auto
  have "?s \<le> ?s + sum_list (drop (nat (tm_mon t)) days_in_month)" "0 \<le> ?s"
    using tot(2) by (auto simp: list_all_iff less_imp_le intro!: sum_list_nonneg dest!: in_set_dropD in_set_takeD)
  moreover have "?s + sum_list (drop (nat (tm_mon t)) days_in_month) = 365"
    by (metis append_take_drop_id sum_list_append tot(1))
  ultimately have s: "0 \<le> ?s" "?s \<le> 365" by auto
  have md: "tm_days t = day_number ?y + ?s + (if 1 < tm_mon t \<and> leap_year ?y then 1 else 0) + (tm_mday t - 1)"
    by (simp add: tm_days_def month_start_leap)
  have cm: "(c_mod ?y 4 = 0 \<and> c_mod ?y 100 \<noteq> 0 \<or> c_mod ?y 400 = 0) = leap_year ?y" using assms(1) by (intro c_mod_leap) simp
  show "0 \<le> tm_days t" "tm_days t < 10 ^ 7" using ys s assms md by (auto split: if_splits)
  have i: "i32 ?y = Inr ?y" "i32 (tm_mday t - 1) = Inr (tm_mday t - 1)" using assms by simp_all
  show "timegm t = to_seconds (tm_days t) (tm_hour t) (tm_min t) (tm_sec t)"
    unfolding timegm_def i res_bind_simps ys(1) ml cm using ys s assms
    by (cases "1 < tm_mon t \<and> leap_year ?y") (auto simp: md)
qed

lemma timegm_law:
  assumes "valid_tm t" "1970 \<le> tm_year t + 1900" "tm_year t + 1900 \<le> 9999"
  shows "timegm t = (if tm_seconds t < 2 ^ 31 then Inr (tm_seconds t) else Inl SignedOverflow)"
proof -
  have v: "0 \<le> tm_mon t" "tm_mon t < 12" "1 \<le> tm_mday t" "tm_mday t \<le> month_lengths (tm_year t + 1900) ! nat (tm_mon t)"
      "0 \<le> tm_sec t" "tm_sec t < 60" "0 \<le> tm_min t" "tm_min t < 60" "0 \<le> tm_hour t" "tm_hour t < 24"
    using assms(1) by (auto simp: valid_tm_def)
  have "list_all (\<lambda>l. l \<le> 31) (month_lengths (tm_year t + 1900))" by (simp add: month_lengths_def)
  moreover have "nat (tm_mon t) < length (month_lengths (tm_year t + 1900))"
    using v(1,2) by (simp add: month_lengths_facts(1) nat_less_iff)
  ultimately have "month_lengths (tm_year t + 1900) ! nat (tm_mon t) \<le> 31" by (simp only: list_all_length)
  then have "tm_mday t \<le> 99" using v(4) by simp
  note td = timegm_days [OF assms(2,3) v(1-3) this]
  show ?thesis
    using td to_seconds_law [of "tm_days t" "tm_hour t" "tm_min t" "tm_sec t"] v by (simp add: tm_seconds_def Let_def)
qed

end
