(* ===== verification/Iso_Time.thy ===== *)
theory Iso_Time imports Calendar begin

text \<open>
  The date functions of \<^verbatim>\<open>utils/src/time_utils.c\<close>: printing and reading ISO 8601 dates with
  \<^verbatim>\<open>snprintf\<close> and \<^verbatim>\<open>sscanf\<close>, the rounded current time, and the functions that depend on the local time
  zone, which is a parameter.
\<close>

section \<open>Printing and scanning (stdio.h)\<close>

text \<open>\<^verbatim>\<open>printf\<close>'s \<^verbatim>\<open>%0wd\<close>: padded with zeros to width \<open>w\<close>, the sign counted.\<close>

definition pad_int :: "nat \<Rightarrow> int \<Rightarrow> cstring" where
  "pad_int w n =
     (let sign = (if n < 0 then ''-'' else []); ds = dec_str (nat \<bar>n\<bar>) in
      sign @ replicate (w - length sign - length ds) (CHR ''0'') @ ds)"

text \<open>\<^verbatim>\<open>scanf\<close>'s \<^verbatim>\<open>%wd\<close>: blanks are skipped, the sign counts for the width. \<open>None\<close>: no number there.\<close>

definition scan_int :: "nat \<Rightarrow> cstring \<Rightarrow> (int \<times> cstring) option" where
  "scan_int w s =
     (let s1 = dropWhile isspace s;
          signed = (s1 \<noteq> [] \<and> (hd s1 = CHR ''-'' \<or> hd s1 = CHR ''+''));
          s2 = (if signed then tl s1 else s1);
          ds = takeWhile isdigit (take (if signed then w - 1 else w) s2) in
      if ds = [] then None
      else Some (if signed \<and> hd s1 = CHR ''-'' then - dec_value ds else dec_value ds, drop (length ds) s2))"

definition scan_lit :: "char \<Rightarrow> cstring \<Rightarrow> cstring option" where
  "scan_lit c s = (if s \<noteq> [] \<and> hd s = c then Some (tl s) else None)"

definition scan_char :: "cstring \<Rightarrow> (char \<times> cstring) option" where
  "scan_char s = (if s = [] then None else Some (hd s, tl s))"

section \<open>Dates as text\<close>

text \<open>The common part \<^verbatim>\<open>%04d-%02d-%02dT%02d:%02d\<close>: year, month, day, hour, minute and the rest.\<close>

definition scan_minute :: "cstring \<Rightarrow> (int \<times> int \<times> int \<times> int \<times> int \<times> cstring) option" where
  "scan_minute s =
     Option.bind (scan_int 4 s) (\<lambda>(year, s). Option.bind (scan_lit (CHR ''-'') s) (\<lambda>s.
     Option.bind (scan_int 2 s) (\<lambda>(month, s). Option.bind (scan_lit (CHR ''-'') s) (\<lambda>s.
     Option.bind (scan_int 2 s) (\<lambda>(day, s). Option.bind (scan_lit (CHR ''T'') s) (\<lambda>s.
     Option.bind (scan_int 2 s) (\<lambda>(hour, s). Option.bind (scan_lit (CHR '':'') s) (\<lambda>s.
     Option.bind (scan_int 2 s) (\<lambda>(minute, s). Some (year, month, day, hour, minute, s))))))))))"

definition scan_zone :: "cstring \<Rightarrow> (char \<times> int \<times> int) option" where
  "scan_zone s =
     Option.bind (scan_char s) (\<lambda>(dir, s). Option.bind (scan_int 2 s) (\<lambda>(utc_hour, s).
     Option.bind (scan_lit (CHR '':'') s) (\<lambda>s. Option.bind (scan_int 2 s) (\<lambda>(utc_min, s).
       Some (dir, utc_hour, utc_min)))))"

definition scan_full :: "cstring \<Rightarrow> (int \<times> int \<times> int \<times> int \<times> int \<times> int \<times> char \<times> int \<times> int) option" where
  "scan_full s =
     Option.bind (scan_minute s) (\<lambda>(year, month, day, hour, minute, s).
     Option.bind (scan_lit (CHR '':'') s) (\<lambda>s. Option.bind (scan_int 2 s) (\<lambda>(sec, s).
     Option.bind (scan_zone s) (\<lambda>(dir, utc_hour, utc_min).
       Some (year, month, day, hour, minute, sec, dir, utc_hour, utc_min)))))"

definition parse_iso_full_datetime_string_to_epoch :: "cstring option \<Rightarrow> int res" where
  "parse_iso_full_datetime_string_to_epoch str =
     (case str of
        None \<Rightarrow> Inl NullDeref
      | Some s \<Rightarrow>
          (case scan_full s of
             None \<Rightarrow> Inr (-1)
           | Some (year, month, day, hour, minute, sec, dir, utc_hour, utc_min) \<Rightarrow>
               if dir \<noteq> CHR ''+'' \<and> dir \<noteq> CHR ''-'' then Inr (-1)
               else timegm \<lparr>tm_sec = sec, tm_min = minute,
                      tm_hour = (if dir = CHR ''+'' then hour - utc_hour else hour + utc_hour),
                      tm_mday = day, tm_mon = month - 1, tm_year = year - 1900, tm_isdst = -1\<rparr>))"

definition parse_iso_datetime_string_to_epoch :: "cstring option \<Rightarrow> int res" where
  "parse_iso_datetime_string_to_epoch str =
     (case str of
        None \<Rightarrow> Inl NullDeref
      | Some s \<Rightarrow>
          (case scan_minute s of
             None \<Rightarrow> Inr (-1)
           | Some (year, month, day, hour, minute, _) \<Rightarrow>
               timegm \<lparr>tm_sec = 0, tm_min = minute, tm_hour = hour, tm_mday = day, tm_mon = month - 1,
                 tm_year = year - 1900, tm_isdst = -1\<rparr>))"

definition iso_day :: "tm \<Rightarrow> cstring" where
  "iso_day t = pad_int 4 (tm_year t + 1900) @ ''-'' @ pad_int 2 (tm_mon t + 1) @ ''-'' @ pad_int 2 (tm_mday t)"

definition iso_minute :: "tm \<Rightarrow> cstring" where
  "iso_minute t = iso_day t @ ''T'' @ pad_int 2 (tm_hour t) @ '':'' @ pad_int 2 (tm_min t)"

definition iso_zone :: "int \<Rightarrow> cstring" where
  "iso_zone h = (if h < 0 then ''-'' else ''+'') @ pad_int 2 h @ '':'' @ pad_int 2 0"

definition parse_epoch_to_iso_full_datetime_string ::
  "int option \<Rightarrow> int \<Rightarrow> alloc \<Rightarrow> (cstring option \<times> alloc) res" where
  "parse_epoch_to_iso_full_datetime_string epoch offset_hours a =
     (case epoch of
        None \<Rightarrow> Inl NullDeref
      | Some e \<Rightarrow>
          (case gmtime e of
             None \<Rightarrow> Inr (strdup ''Invalid datetime'' a)
           | Some t \<Rightarrow>
               if offset_hours > 12 \<or> offset_hours < -12 then Inr (strdup ''Invalid UTC offset'' a)
               else
                 Inr (strdup (take 25 (iso_minute t @ '':'' @ pad_int 2 (tm_sec t) @ iso_zone offset_hours)) a)))"

definition parse_epoch_to_iso_datetime_string :: "int option \<Rightarrow> alloc \<Rightarrow> (cstring option \<times> alloc) res" where
  "parse_epoch_to_iso_datetime_string epoch a =
     (case epoch of
        None \<Rightarrow> Inl NullDeref
      | Some e \<Rightarrow>
          (case gmtime e of
             None \<Rightarrow> Inr (strdup ''Invalid datetime'' a)
           | Some t \<Rightarrow> Inr (strdup (take 16 (iso_minute t)) a)))"

definition parse_epoch_to_iso_short_datetime_string :: "int option \<Rightarrow> alloc \<Rightarrow> (cstring option \<times> alloc) res" where
  "parse_epoch_to_iso_short_datetime_string epoch a =
     (case epoch of
        None \<Rightarrow> Inl NullDeref
      | Some e \<Rightarrow>
          (case gmtime e of
             None \<Rightarrow> Inr (strdup ''Invalid datetime'' a)
           | Some t \<Rightarrow> Inr (strdup (take 10 (iso_day t)) a)))"

section \<open>The current time\<close>

text \<open>The local time zone is a parameter: \<^verbatim>\<open>localtime_r\<close> and \<^verbatim>\<open>mktime\<close> of the C library.\<close>

record timezone =
  tz_localtime :: "int \<Rightarrow> tm"
  tz_mktime :: "tm \<Rightarrow> int"

definition utc_offset_hours :: "timezone \<Rightarrow> world \<Rightarrow> int res" where
  "utc_offset_hours tz w =
     (case gmtime (w_time w) of
        None \<Rightarrow> Inl NullDeref
      | Some utc \<Rightarrow> Inr (c_int (c_div (w_time w - tz_mktime tz (utc\<lparr>tm_isdst := -1\<rparr>)) 3600)))"

definition time_is_at_or_after_hour :: "timezone \<Rightarrow> int \<Rightarrow> world \<Rightarrow> bool" where
  "time_is_at_or_after_hour tz hour w =
     (let local = tz_localtime tz (w_time w) in
      tm_hour local > hour \<or> tm_hour local = hour \<and> tm_min local \<ge> 0)"

definition epoch_now_day :: "world \<Rightarrow> int res" where
  "epoch_now_day w =
     (case gmtime (w_time w) of
        None \<Rightarrow> Inl NullDeref
      | Some today \<Rightarrow> timegm (today\<lparr>tm_hour := 0, tm_min := 0, tm_sec := 0\<rparr>))"

definition epoch_now_hour :: "world \<Rightarrow> int res" where
  "epoch_now_hour w =
     (case gmtime (w_time w) of
        None \<Rightarrow> Inl NullDeref
      | Some today \<Rightarrow> timegm (today\<lparr>tm_min := 0, tm_sec := 0\<rparr>))"

definition epoch_now_min :: "world \<Rightarrow> int res" where
  "epoch_now_min w =
     (case gmtime (w_time w) of
        None \<Rightarrow> Inl NullDeref
      | Some today \<Rightarrow> timegm (today\<lparr>tm_sec := 0\<rparr>))"

definition epoch_now_day_utc :: "world \<Rightarrow> int res" where
  "epoch_now_day_utc w =
     (case gmtime (w_time w) of
        None \<Rightarrow> Inl Uninitialised
      | Some today \<Rightarrow> timegm (today\<lparr>tm_hour := 0, tm_min := 0, tm_sec := 0\<rparr>))"

text \<open>\<^verbatim>\<open>strftime(out, n, "%Y-%m-%d", tm)\<close>: the text if it fits with its NUL.\<close>

definition strftime_day :: "nat \<Rightarrow> tm \<Rightarrow> cstring option" where
  "strftime_day n t =
     (let s = pad_int 1 (tm_year t + 1900) @ ''-'' @ pad_int 2 (tm_mon t + 1) @ ''-'' @ pad_int 2 (tm_mday t) in
      if length s < n then Some s else None)"

text \<open>The code, and what the buffer holds afterwards (\<open>None\<close>: unspecified, or untouched).\<close>

definition epoch_to_utc_date_string :: "int \<Rightarrow> nat option \<Rightarrow> int \<times> cstring option" where
  "epoch_to_utc_date_string ts out =
     (case out of
        None \<Rightarrow> (-1, None)
      | Some out_sz \<Rightarrow>
          if out_sz < 11 then (-1, None)
          else
            (case gmtime ts of
               None \<Rightarrow> (-1, None)
             | Some t \<Rightarrow>
                 (case strftime_day out_sz t of
                    None \<Rightarrow> (-1, None)
                  | Some s \<Rightarrow> (if length s \<noteq> 10 then -1 else 0, Some s))))"

section \<open>Facts: printing and scanning\<close>

lemma dec_value_zeros: "dec_value (replicate k (CHR ''0'') @ ds) = dec_value ds"
proof -
  have "foldl (\<lambda>n c. 10 * n + digit_val c) 0 (replicate k (CHR ''0'')) = 0"
    by (induction k) (simp_all add: digit_val_def char_code_def)
  then show ?thesis by (simp add: dec_value_def)
qed

lemma pad_int_nonneg:
  assumes "0 \<le> n" "n < 10 ^ w" "0 < w"
  shows "length (pad_int w n) = w" "list_all isdigit (pad_int w n)" "dec_value (pad_int w n) = n"
proof -
  obtain k where k: "w = Suc k" using assms(3) by (cases w) auto
  have "nat n < 10 ^ w" using assms(1,2) by (simp add: nat_less_iff)
  then have l: "length (dec_str (nat n)) \<le> w" using dec_str_length [of "nat n" k] k by simp
  have z: "isdigit (CHR ''0'')" by (simp add: isdigit_def char_code_def)
  show "length (pad_int w n) = w" using assms(1) l by (simp add: pad_int_def Let_def)
  show "list_all isdigit (pad_int w n)" using assms(1) z dec_str_digits [of "nat n"] by (auto simp: pad_int_def Let_def list_all_iff)
  show "dec_value (pad_int w n) = n" using assms(1) by (simp add: pad_int_def Let_def dec_value_zeros)
qed

lemma scan_pad:
  assumes "0 \<le> n" "n < 10 ^ w" "0 < w"
  shows "scan_int w (pad_int w n @ rest) = Some (n, rest)"
proof -
  note p = pad_int_nonneg [OF assms]
  have ne: "pad_int w n \<noteq> []" using p(1) assms(3) by auto
  then have d: "isdigit (hd (pad_int w n))" using p(2) by (cases "pad_int w n") auto
  have dw: "dropWhile isspace (pad_int w n @ rest) = pad_int w n @ rest"
    using ne isdigit_not_special [OF d] by (cases "pad_int w n") auto
  have tw: "takeWhile isdigit (pad_int w n) = pad_int w n"
    using p(1,2) by (simp add: list_all_iff takeWhile_eq_all_conv)
  show ?thesis using p(1,3) ne isdigit_not_special [OF d] by (simp add: scan_int_def Let_def dw tw)
qed

lemma scan_lit_Cons [simp]: "scan_lit c (c # s) = Some s"
  by (simp add: scan_lit_def)

text \<open>Dates of the years 0 to 9999 are read back.\<close>

definition printable_tm :: "tm \<Rightarrow> bool" where
  "printable_tm t \<longleftrightarrow> valid_tm t \<and> 0 \<le> tm_year t + 1900 \<and> tm_year t + 1900 \<le> 9999"

lemma printable_bounds:
  assumes "printable_tm t"
  shows "0 \<le> tm_mon t + 1" "tm_mon t + 1 < 10 ^ 2" "0 \<le> tm_mday t" "tm_mday t < 10 ^ 2" "0 \<le> tm_hour t" "tm_hour t < 10 ^ 2"
    "0 \<le> tm_min t" "tm_min t < 10 ^ 2" "0 \<le> tm_sec t" "tm_sec t < 10 ^ 2" "0 \<le> tm_year t + 1900" "tm_year t + 1900 < 10 ^ 4"
proof -
  have "list_all (\<lambda>l. l \<le> 31) (month_lengths (tm_year t + 1900))" by (simp add: month_lengths_def)
  moreover have "nat (tm_mon t) < length (month_lengths (tm_year t + 1900))"
    using assms by (simp add: month_lengths_facts(1) nat_less_iff printable_tm_def valid_tm_def)
  ultimately have "month_lengths (tm_year t + 1900) ! nat (tm_mon t) \<le> 31" by (simp only: list_all_length)
  then show "tm_mday t < 10 ^ 2" using assms by (simp add: printable_tm_def valid_tm_def)
qed (use assms in \<open>auto simp: printable_tm_def valid_tm_def\<close>)

lemma scan_iso_minute:
  assumes "printable_tm t"
  shows "scan_minute (iso_minute t @ rest) =
     Some (tm_year t + 1900, tm_mon t + 1, tm_mday t, tm_hour t, tm_min t, rest)"
  unfolding scan_minute_def iso_minute_def iso_day_def
  using printable_bounds [OF assms] by (simp add: scan_pad)

lemma iso_lengths:
  assumes "printable_tm t" shows "length (iso_minute t) = 16" "length (iso_day t) = 10"
  using printable_bounds [OF assms] by (simp_all add: iso_minute_def iso_day_def pad_int_nonneg)

lemma gmtime_printable:
  assumes "0 \<le> t" "t < 253402300800"
  shows "gmtime t = Some (gm_fields t)" "printable_tm (gm_fields t)" "1970 \<le> tm_year (gm_fields t) + 1900"
proof -
  let ?y = "tm_year (gm_fields t) + 1900"
  let ?d = "month_start ?y (tm_mon (gm_fields t)) + (tm_mday (gm_fields t) - 1)"
  note v = gm_fields_law [of t]
  have d: "0 \<le> ?d" "?d < year_days ?y" using v(1) day_in_year [of "tm_mon (gm_fields t)" "tm_mday (gm_fields t) - 1" ?y]
    by (auto simp: valid_tm_def)
  have c: "0 \<le> tm_sec (gm_fields t)" "tm_sec (gm_fields t) < 60" "0 \<le> tm_min (gm_fields t)" "tm_min (gm_fields t) < 60"
      "0 \<le> tm_hour (gm_fields t)" "tm_hour (gm_fields t) < 24" using v(1) by (auto simp: valid_tm_def)
  have "t div 86400 = tm_days (gm_fields t)"
    using clock_fields(1) [OF c, of "tm_days (gm_fields t)"] v(2) by (simp only: tm_seconds_def)
  moreover have "0 \<le> t div 86400" "t div 86400 < 2932897"
    using assms by (simp_all add: pos_imp_zdiv_nonneg_iff div_less_iff_less_mult)
  ultimately have n: "0 \<le> day_number ?y + ?d" "day_number ?y + ?d < 2932897" by (simp_all add: tm_days_def)
  have "1970 \<le> ?y" using day_number_mono [of ?y 1970] n(1) d(2) day_number_1970 by (cases "?y < 1970") auto
  moreover have "day_number 10000 = 2932897" by (simp add: day_number_def)
  then have "?y \<le> 9999" using day_number_mono [of 9999 ?y] day_number_step [of 9999] n(2) d(1) by (cases "?y \<le> 9999") auto
  ultimately show "1970 \<le> ?y" "printable_tm (gm_fields t)" "gmtime t = Some (gm_fields t)"
    using v(1) by (auto simp: printable_tm_def gmtime_def INT_MIN_def INT_MAX_def Let_def)
qed

section \<open>Properties of the calendar functions\<close>

lemma day_number_sum: "1970 \<le> y \<Longrightarrow> day_number y = (\<Sum>i\<in>{1970..<y}. year_days i)"
proof (induction rule: int_ge_induct)
  case base
  then show ?case by (simp add: day_number_1970)
next
  case (step y)
  then have "{1970..<y + 1} = insert y {1970..<y}" by auto
  then show ?case using step by (simp add: day_number_step)
qed

text \<open>C36: \<^verbatim>\<open>timegm\<close> against the calendar. For every valid date and time of the years 1970 to 9999 the result
  is the number of seconds counted year by year and month by month, as long as it fits 32 bits; from
  2038-01-19T03:14:08Z on the int arithmetic overflows.\<close>

theorem timegm_exact:
  assumes "valid_tm t" "1970 \<le> tm_year t + 1900" "tm_year t + 1900 \<le> 9999"
    and "days = (\<Sum>i\<in>{1970..<tm_year t + 1900}. year_days i) +
      sum_list (take (nat (tm_mon t)) (month_lengths (tm_year t + 1900))) + (tm_mday t - 1)"
    and "secs = 86400 * days + 3600 * tm_hour t + 60 * tm_min t + tm_sec t"
  shows "timegm t = (if secs < 2 ^ 31 then Inr secs else Inl SignedOverflow)"
proof -
  have "tm_days t = days" using assms(2,4) by (simp add: tm_days_def month_start_def day_number_sum)
  then have "tm_seconds t = secs" by (simp add: tm_seconds_def assms(5))
  then show ?thesis using timegm_law [OF assms(1-3)] by simp
qed

theorem timegm_exact_witness:
  "timegm \<lparr>tm_sec = 1, tm_min = 2, tm_hour = 3, tm_mday = 1, tm_mon = 2, tm_year = 72, tm_isdst = 0\<rparr> =
     Inr (86400 * (365 + 365 + 31 + 29) + 3600 * 3 + 60 * 2 + 1)"
proof -
  have "{1970..<1972} = {1970, 1971 :: int}" by auto
  then have "(\<Sum>i\<in>{1970..<1972}. year_days i) = 730" by (simp add: year_days_def leap_year_def)
  then show ?thesis
    using timegm_exact [of "\<lparr>tm_sec = 1, tm_min = 2, tm_hour = 3, tm_mday = 1, tm_mon = 2, tm_year = 72, tm_isdst = 0\<rparr>",
        OF _ _ _ refl refl]
    by (simp add: valid_tm_def month_lengths_def leap_year_def)
qed

text \<open>C37: \<^verbatim>\<open>timegm\<close> inverts \<^verbatim>\<open>gmtime\<close>: for every time from 1970 to 2038-01-19T03:14:07Z breaking it down and
  putting it together again gives the same number, later times of the four-digit years overflow; and
  conversely the fields of every valid date it accepts are what \<^verbatim>\<open>gmtime\<close> returns for the result.\<close>

theorem timegm_gmtime_inverse:
  assumes "0 \<le> t" "t < 253402300800"
  shows "(\<exists>f. gmtime t = Some f \<and> timegm f = (if t < 2 ^ 31 then Inr t else Inl SignedOverflow)) \<and>
     (\<forall>f. valid_tm f \<and> tm_isdst f = 0 \<and> 1970 \<le> tm_year f + 1900 \<and> tm_year f + 1900 \<le> 9999 \<and> timegm f = Inr t \<longrightarrow>
        gmtime t = Some f)"
proof -
  note g = gmtime_printable [OF assms]
  have "timegm (gm_fields t) = (if t < 2 ^ 31 then Inr t else Inl SignedOverflow)"
    using timegm_law [of "gm_fields t"] gm_fields_law [of t] g by (simp add: printable_tm_def)
  moreover have "gmtime t = Some f"
    if "valid_tm f" "tm_isdst f = 0" "1970 \<le> tm_year f + 1900" "tm_year f + 1900 \<le> 9999" "timegm f = Inr t" for f
    using timegm_law [OF that(1,3,4)] gm_fields_eq [OF that(1,2)] that(5) g(1) by (simp split: if_splits)
  ultimately show ?thesis using g(1) by blast
qed

theorem timegm_gmtime_inverse_witness:
  "(\<exists>f. gmtime 1700000000 = Some f \<and> timegm f = Inr 1700000000) \<and>
   (\<exists>f. gmtime 2147483648 = Some f \<and> timegm f = Inl SignedOverflow)"
  using timegm_gmtime_inverse [of 1700000000] timegm_gmtime_inverse [of 2147483648] by auto

text \<open>A time printed with \<^verbatim>\<open>parse_epoch_to_iso_datetime_string\<close> and read again with
  \<^verbatim>\<open>parse_iso_datetime_string_to_epoch\<close> comes back rounded down to the minute, for every time from 1970 to
  January 2038.\<close>

theorem iso_datetime_roundtrip:
  assumes "0 \<le> t" "t < 2 ^ 31"
  shows "\<exists>s. parse_epoch_to_iso_datetime_string (Some t) [] = Inr (Some s, []) \<and> length s = 16 \<and>
     parse_iso_datetime_string_to_epoch (Some s) = Inr (t - t mod 60)"
proof -
  let ?f = "gm_fields t" let ?g = "\<lparr>tm_sec = 0, tm_min = tm_min ?f, tm_hour = tm_hour ?f, tm_mday = tm_mday ?f,
     tm_mon = tm_mon ?f, tm_year = tm_year ?f, tm_isdst = -1\<rparr>"
  have "t < 253402300800" using assms(2) by simp
  note g = gmtime_printable [OF assms(1) this]
  have p: "parse_epoch_to_iso_datetime_string (Some t) [] = Inr (Some (iso_minute ?f), [])"
    using g iso_lengths(1) [OF g(2)] by (simp add: parse_epoch_to_iso_datetime_string_def)
  have "valid_tm ?g" "tm_seconds ?g = tm_seconds ?f - tm_sec ?f"
    using g(2) by (auto simp: printable_tm_def valid_tm_def tm_seconds_def tm_days_def)
  moreover have "tm_sec ?f = t mod 60" by (simp add: gm_fields_def split: prod.splits)
  ultimately have "timegm ?g = Inr (t - t mod 60)"
    using timegm_law [of ?g] g gm_fields_law(2) [of t] assms(2) by (simp add: printable_tm_def)
  moreover have "parse_iso_datetime_string_to_epoch (Some (iso_minute ?f)) = timegm ?g"
    using scan_iso_minute [OF g(2), of "[]"] by (simp add: parse_iso_datetime_string_to_epoch_def)
  ultimately show ?thesis using p iso_lengths(1) [OF g(2)] by auto
qed

theorem iso_datetime_roundtrip_witness:
  "parse_epoch_to_iso_datetime_string (Some 951782461) [] = Inr (Some ''2000-02-29T00:01'', []) \<and>
   parse_iso_datetime_string_to_epoch (Some ''2000-02-29T00:01'') = Inr 951782460"
proof -
  have e: "parse_epoch_to_iso_datetime_string (Some 951782461) [] = Inr (Some ''2000-02-29T00:01'', [])" by code_simp
  then show ?thesis using iso_datetime_roundtrip [of 951782461] by auto
qed

lemma zone_scanned:
  assumes "-12 \<le> h" "h \<le> 12"
  shows "scan_zone (take 6 (iso_zone h)) = (if h \<le> -10 then None else Some (if h < 0 then CHR ''-'' else CHR ''+'', h, 0))"
    "length (take 6 (iso_zone h)) = 6"
proof -
  have "list_all (\<lambda>h. scan_zone (take 6 (iso_zone h)) =
      (if h \<le> -10 then None else Some (if h < 0 then CHR ''-'' else CHR ''+'', h, 0))) [-12..12]"
    "list_all (\<lambda>h. length (take 6 (iso_zone h)) = 6) [-12..12]" by code_simp+
  moreover have "h \<in> set [-12..12]" using assms by (simp only: set_upto atLeastAtMost_iff)
  ultimately show "scan_zone (take 6 (iso_zone h)) =
      (if h \<le> -10 then None else Some (if h < 0 then CHR ''-'' else CHR ''+'', h, 0))" "length (take 6 (iso_zone h)) = 6"
    unfolding list_all_iff by blast+
qed

lemma iso_full_read_back:
  assumes "0 \<le> t" "t < 2 ^ 31" "-12 \<le> h" "h \<le> 12"
  shows "\<exists>s. parse_epoch_to_iso_full_datetime_string (Some t) h [] = Inr (Some s, []) \<and> length s = 25 \<and>
     parse_iso_full_datetime_string_to_epoch (Some s) =
       (if h \<le> -10 then Inr (-1) else Inr (t - 3600 * \<bar>h\<bar>))"
proof -
  let ?f = "gm_fields t"
  let ?z = "take 6 (iso_zone h)"
  let ?s = "iso_minute ?f @ '':'' @ pad_int 2 (tm_sec ?f) @ ?z"
  have "t < 253402300800" using assms(2) by simp
  note g = gmtime_printable [OF assms(1) this]
  note b = printable_bounds [OF g(2)]
  have l: "length (iso_minute ?f @ '':'' @ pad_int 2 (tm_sec ?f)) = 19"
    using iso_lengths(1) [OF g(2)] b by (simp add: pad_int_nonneg)
  have "take 25 (iso_minute ?f @ '':'' @ pad_int 2 (tm_sec ?f) @ iso_zone h) = ?s"
    using take_append [of 25 "iso_minute ?f @ '':'' @ pad_int 2 (tm_sec ?f)" "iso_zone h"] l by simp
  then have p: "parse_epoch_to_iso_full_datetime_string (Some t) h [] = Inr (Some ?s, [])"
    using g assms by (simp add: parse_epoch_to_iso_full_datetime_string_def)
  note z = zone_scanned [OF assms(3,4)]
  have sc: "scan_full ?s = (if h \<le> -10 then None else
      Some (tm_year ?f + 1900, tm_mon ?f + 1, tm_mday ?f, tm_hour ?f, tm_min ?f, tm_sec ?f,
            if h < 0 then CHR ''-'' else CHR ''+'', h, 0))"
    using scan_iso_minute [OF g(2), of "'':'' @ pad_int 2 (tm_sec ?f) @ ?z"] b z(1)
    by (simp add: scan_full_def scan_pad)
  let ?g = "\<lparr>tm_sec = tm_sec ?f, tm_min = tm_min ?f, tm_hour = tm_hour ?f - \<bar>h\<bar>, tm_mday = tm_mday ?f,
     tm_mon = tm_mon ?f, tm_year = tm_year ?f, tm_isdst = -1\<rparr>"
  have "parse_iso_full_datetime_string_to_epoch (Some ?s) = (if h \<le> -10 then Inr (-1) else timegm ?g)"
    unfolding parse_iso_full_datetime_string_to_epoch_def option.case sc by simp
  moreover have "timegm ?g = Inr (t - 3600 * \<bar>h\<bar>)"
  proof -
    have y: "1970 \<le> tm_year ?g + 1900" "tm_year ?g + 1900 \<le> 9999" "0 \<le> tm_mon ?g" "tm_mon ?g < 12"
        "1 \<le> tm_mday ?g" "tm_mday ?g \<le> 99"
      using g b by (simp_all add: printable_tm_def valid_tm_def)
    have "tm_days ?g = tm_days ?f" by (simp add: tm_days_def)
    moreover have "((tm_days ?f * 24 + tm_hour ?f) * 60 + tm_min ?f) * 60 + tm_sec ?f = t"
      using gm_fields_law(2) [of t] by (simp only: tm_seconds_def)
    ultimately show ?thesis
      using timegm_days [OF y] to_seconds_law [of "tm_days ?f" "tm_hour ?f - \<bar>h\<bar>" "tm_min ?f" "tm_sec ?f"] b assms g(2)
      by (simp add: Let_def algebra_simps printable_tm_def valid_tm_def)
  qed
  moreover have "length ?s = 25" using l z(2) by simp
  ultimately show ?thesis using p by auto
qed

text \<open>C38: The full format, from 1970 to January 2038 and for every offset. An offset of more than twelve hours is refused with a
  message instead of a time. Otherwise 25 characters are printed, and the time \<open>t\<close> is read back as \<open>t - 3600 * |h|\<close>:
  the hour is printed in UTC but marked with the offset \<open>h\<close>, so reading subtracts it, and for a negative offset, which is
  printed with two signs, its absolute value; from -10 hours on the text is cut by the 26-byte buffer and reading it gives -1. Only
  the offset 0 is a round trip.\<close>

theorem iso_full_roundtrip:
  assumes "0 \<le> t" "t < 2 ^ 31"
  shows "if h < -12 \<or> 12 < h
     then parse_epoch_to_iso_full_datetime_string (Some t) h [] = Inr (Some ''Invalid UTC offset'', [])
     else \<exists>s. parse_epoch_to_iso_full_datetime_string (Some t) h [] = Inr (Some s, []) \<and> length s = 25 \<and>
       parse_iso_full_datetime_string_to_epoch (Some s) = (if h \<le> -10 then Inr (-1) else Inr (t - 3600 * \<bar>h\<bar>))"
proof (cases "h < -12 \<or> 12 < h")
  case True
  have "t < 253402300800" using assms(2) by simp
  then show ?thesis
    using True gmtime_printable(1) [OF assms(1)] by (auto simp: parse_epoch_to_iso_full_datetime_string_def strdup_def)
next
  case False
  then show ?thesis using iso_full_read_back [OF assms, of h] by simp
qed

theorem iso_full_roundtrip_witness:
  "parse_epoch_to_iso_full_datetime_string (Some 951782461) (-5) [] = Inr (Some ''2000-02-29T00:01:01--5:00'', []) \<and>
   parse_iso_full_datetime_string_to_epoch (Some ''2000-02-29T00:01:01--5:00'') = Inr (951782461 - 3600 * 5)"
proof -
  have e: "parse_epoch_to_iso_full_datetime_string (Some 951782461) (-5) [] = Inr (Some ''2000-02-29T00:01:01--5:00'', [])"
    by code_simp
  then show ?thesis using iso_full_roundtrip [of 951782461 "-5"] by auto
qed

text \<open>The rounded current time: from 1970 to January 2038 \<^verbatim>\<open>epoch_now_day\<close>, \<^verbatim>\<open>epoch_now_hour\<close>,
  \<^verbatim>\<open>epoch_now_min\<close> and \<^verbatim>\<open>epoch_now_day_utc\<close> return the current time rounded down to the day, the hour and
  the minute.\<close>

lemma epoch_now_rounds:
  assumes "0 \<le> w_time w" "w_time w < 2 ^ 31"
  shows "epoch_now_day w = Inr (w_time w - w_time w mod 86400) \<and>
     epoch_now_hour w = Inr (w_time w - w_time w mod 3600) \<and>
     epoch_now_min w = Inr (w_time w - w_time w mod 60) \<and> epoch_now_day_utc w = epoch_now_day w"
proof -
  let ?t = "w_time w" let ?f = "gm_fields ?t"
  have "?t < 253402300800" using assms(2) by simp
  note g = gmtime_printable [OF assms(1) this]
  have f: "tm_sec ?f = ?t mod 60" "tm_min ?f = ?t div 60 mod 60" "tm_hour ?f = ?t div 3600 mod 24"
    by (simp_all add: gm_fields_def split: prod.splits)
  have t: "((tm_days ?f * 24 + tm_hour ?f) * 60 + tm_min ?f) * 60 + tm_sec ?f = ?t"
    using gm_fields_law(2) [of ?t] by (simp only: tm_seconds_def)
  have r: "timegm (?f\<lparr>tm_hour := h, tm_min := m, tm_sec := s\<rparr>) = Inr (((tm_days ?f * 24 + h) * 60 + m) * 60 + s)"
    if "0 \<le> h" "h \<le> tm_hour ?f" "0 \<le> m" "m \<le> tm_min ?f" "0 \<le> s" "s \<le> tm_sec ?f" for h m s
  proof -
    let ?g = "?f\<lparr>tm_hour := h, tm_min := m, tm_sec := s\<rparr>"
    have "valid_tm ?g" "tm_seconds ?g = ((tm_days ?f * 24 + h) * 60 + m) * 60 + s"
      using that g(2) by (auto simp: printable_tm_def valid_tm_def tm_seconds_def tm_days_def)
    then show ?thesis using timegm_law [of ?g] that g t assms(2) by (simp add: printable_tm_def)
  qed
  have m: "?t mod 3600 = tm_min ?f * 60 + tm_sec ?f" "?t mod 86400 = (tm_hour ?f * 60 + tm_min ?f) * 60 + tm_sec ?f"
    unfolding f using zmod_zmult2_eq [of 60 ?t 60] zmod_zmult2_eq [of 24 ?t 3600] by (simp_all add: clock_div algebra_simps)
  have z: "0 \<le> tm_hour ?f" "0 \<le> tm_min ?f" "0 \<le> tm_sec ?f" using g(2) by (simp_all add: printable_tm_def valid_tm_def)
  show ?thesis
    using g(1) r [of 0 0 0] r [of "tm_hour ?f" 0 0] r [of "tm_hour ?f" "tm_min ?f" 0] z t m f(1)
    by (simp add: epoch_now_day_def epoch_now_hour_def epoch_now_min_def epoch_now_day_utc_def)
qed

lemma epoch_now_rounds_witness:
  "epoch_now_day ((world0 0)\<lparr>w_time := 951782461\<rparr>) = Inr 951782400 \<and>
   epoch_now_hour ((world0 0)\<lparr>w_time := 951782461\<rparr>) = Inr 951782400 \<and>
   epoch_now_min ((world0 0)\<lparr>w_time := 951782461\<rparr>) = Inr 951782460"
  using epoch_now_rounds [of "(world0 0)\<lparr>w_time := 951782461\<rparr>"] by simp

end
