(* ===== verification/File_Logging.thy ===== *)
theory File_Logging imports Files Iso_Time
begin

text \<open>
  \<^verbatim>\<open>utils/src/file_logging.c\<close>: log lines on the standard streams and, while it is open, in the log file
  (the global \<^verbatim>\<open>g_log_file\<close>). What \<^verbatim>\<open>vfprintf\<close> makes of the caller's format and arguments is an argument of
  the model, as is the local time zone. \<open>ls_lost\<close> counts streams whose only pointer has been overwritten.
\<close>

datatype LogLevel = LOG_LEVEL_INFO | LOG_LEVEL_WARN | LOG_LEVEL_ERROR | LOG_LEVEL_OTHER nat

record log_sys =
  g_log_file :: "cstring option"
  ls_files :: files
  ls_stdout :: "byte list"
  ls_stderr :: "byte list"
  ls_lost :: nat

definition level_to_string :: "LogLevel \<Rightarrow> cstring" where
  "level_to_string level =
     (case level of
        LOG_LEVEL_INFO \<Rightarrow> ''INFO''
      | LOG_LEVEL_WARN \<Rightarrow> ''WARN''
      | LOG_LEVEL_ERROR \<Rightarrow> ''ERROR''
      | LOG_LEVEL_OTHER _ \<Rightarrow> ''UNKNOWN'')"

text \<open>\<^verbatim>\<open>strftime\<close> leaves the array unspecified when the text does not fit.\<close>

definition get_timestamp :: "timezone \<Rightarrow> int \<Rightarrow> nat \<Rightarrow> cstring res" where
  "get_timestamp tz now out_size =
     (let t = tz_localtime tz now;
          s = pad_int 1 (tm_year t + 1900) @ ''-'' @ pad_int 2 (tm_mon t + 1) @ ''-'' @ pad_int 2 (tm_mday t) @ '' '' @
              pad_int 2 (tm_hour t) @ '':'' @ pad_int 2 (tm_min t) @ '':'' @ pad_int 2 (tm_sec t) in
      if length s < out_size then Inr s else Inl Uninitialised)"

definition log_init :: "cstring option \<Rightarrow> log_sys \<Rightarrow> int \<times> log_sys" where
  "log_init filepath s =
     (case filepath of
        None \<Rightarrow> (-1, s)
      | Some path \<Rightarrow>
          (let s1 = s\<lparr>ls_lost := ls_lost s + (if g_log_file s = None then 0 else 1)\<rparr> in
           case fopen_a path (ls_files s) of
             None \<Rightarrow> (-2, s1\<lparr>g_log_file := None\<rparr>)
           | Some fs \<Rightarrow> (0, s1\<lparr>g_log_file := Some path, ls_files := fs\<rparr>)))"

definition log_close :: "log_sys \<Rightarrow> log_sys" where
  "log_close s = (if g_log_file s \<noteq> None then s\<lparr>g_log_file := None\<rparr> else s)"

record log_event =
  le_time :: int
  le_level :: LogLevel
  le_file :: cstring
  le_line :: int
  le_func :: cstring
  le_msg :: cstring

text \<open>The text \<^verbatim>\<open>log_write\<close> puts out, after the time stamp.\<close>

definition log_text :: "cstring \<Rightarrow> log_event \<Rightarrow> byte list" where
  "log_text ts e = ts @ '' ['' @ level_to_string (le_level e) @ ''] '' @ le_file e @ '':'' @ pad_int 1 (le_line e) @
     '' ('' @ le_func e @ ''): '' @ le_msg e @ [LF]"

definition log_write :: "timezone \<Rightarrow> log_event \<Rightarrow> log_sys \<Rightarrow> log_sys res" where
  "log_write tz e s =
     res_bind (get_timestamp tz (le_time e) 32) (\<lambda>ts.
     let line = log_text ts e;
         s1 = (if le_level e = LOG_LEVEL_ERROR then s\<lparr>ls_stderr := ls_stderr s @ line\<rparr>
               else s\<lparr>ls_stdout := ls_stdout s @ line\<rparr>) in
     Inr (case g_log_file s1 of
            None \<Rightarrow> s1
          | Some path \<Rightarrow> s1\<lparr>ls_files := stream_write path line (ls_files s1)\<rparr>))"

primrec log_all :: "timezone \<Rightarrow> log_event list \<Rightarrow> log_sys \<Rightarrow> log_sys res" where
  "log_all tz [] s = Inr s"
| "log_all tz (e # es) s = res_bind (log_write tz e s) (log_all tz es)"

section \<open>Facts\<close>

definition log_line :: "timezone \<Rightarrow> log_event \<Rightarrow> byte list" where
  "log_line tz e = (case get_timestamp tz (le_time e) 32 of Inl _ \<Rightarrow> [] | Inr ts \<Rightarrow> log_text ts e)"

definition to_stderr :: "log_event \<Rightarrow> bool" where
  "to_stderr e \<longleftrightarrow> le_level e = LOG_LEVEL_ERROR"

text \<open>Four-digit years always fit.\<close>

lemma get_timestamp_fits:
  assumes "printable_tm (tz_localtime tz now)"
  shows "\<exists>ts. get_timestamp tz now 32 = Inr ts"
proof -
  let ?t = "tz_localtime tz now"
  note b = printable_bounds [OF assms]
  have "nat (tm_year ?t + 1900) < 10 ^ Suc 3" using b by (simp add: nat_less_iff)
  then have "length (dec_str (nat (tm_year ?t + 1900))) \<le> 4" using dec_str_length [of _ 3] by fastforce
  then have "length (pad_int 1 (tm_year ?t + 1900)) \<le> 4" using b by (auto simp: pad_int_def Let_def)
  moreover have "length (pad_int 2 n) = 2" if "0 \<le> n" "n \<le> 99" for n using that by (intro pad_int_nonneg(1)) auto
  ultimately show ?thesis using b by (simp add: get_timestamp_def Let_def)
qed

lemma log_all_law:
  assumes "list_all (\<lambda>e. printable_tm (tz_localtime tz (le_time e))) es" "g_log_file s = Some path"
    and "f_node (ls_files s) path = Some (Regular old)" "length (concat (map (log_line tz) es)) \<le> f_space (ls_files s)"
  shows "\<exists>s'. log_all tz es s = Inr s' \<and> g_log_file s' = Some path \<and>
     f_node (ls_files s') = (f_node (ls_files s))(path \<mapsto> Regular (old @ concat (map (log_line tz) es))) \<and>
     ls_stdout s' = ls_stdout s @ concat (map (log_line tz) (filter (\<lambda>e. \<not> to_stderr e) es)) \<and>
     ls_stderr s' = ls_stderr s @ concat (map (log_line tz) (filter to_stderr es))"
  using assms
proof (induction es arbitrary: s old)
  case Nil
  then have "(f_node (ls_files s))(path \<mapsto> Regular old) = f_node (ls_files s)" by auto
  then show ?case using Nil by simp
next
  case (Cons e es)
  obtain ts where ts: "get_timestamp tz (le_time e) 32 = Inr ts" using get_timestamp_fits Cons.prems(1) by fastforce
  let ?l = "log_text ts e"
  have l: "log_line tz e = ?l" by (simp add: log_line_def ts)
  let ?fs = "(ls_files s)\<lparr>f_node := (f_node (ls_files s))(path \<mapsto> Regular (old @ ?l)), f_space := f_space (ls_files s) - length ?l\<rparr>"
  let ?s = "(if to_stderr e then s\<lparr>ls_stderr := ls_stderr s @ ?l\<rparr> else s\<lparr>ls_stdout := ls_stdout s @ ?l\<rparr>)\<lparr>ls_files := ?fs\<rparr>"
  have w: "log_write tz e s = Inr ?s"
    using Cons.prems(2-4) l by (auto simp: log_write_def ts Let_def to_stderr_def stream_write_def)
  have s: "g_log_file ?s = Some path" "ls_files ?s = ?fs" using Cons.prems(2) by simp_all
  have "list_all (\<lambda>e. printable_tm (tz_localtime tz (le_time e))) es" using Cons.prems(1) by simp
  moreover have "f_node (ls_files ?s) path = Some (Regular (old @ ?l))" by (simp add: s)
  moreover have "length (concat (map (log_line tz) es)) \<le> f_space (ls_files ?s)" using Cons.prems(4) l by (simp add: s)
  ultimately obtain s' where "log_all tz es ?s = Inr s'" "g_log_file s' = Some path"
      "f_node (ls_files s') = (f_node (ls_files ?s))(path \<mapsto> Regular ((old @ ?l) @ concat (map (log_line tz) es)))"
      "ls_stdout s' = ls_stdout ?s @ concat (map (log_line tz) (filter (\<lambda>e. \<not> to_stderr e) es))"
      "ls_stderr s' = ls_stderr ?s @ concat (map (log_line tz) (filter to_stderr es))"
    using Cons.IH [of ?s "old @ ?l", OF _ s(1)] by blast
  then show ?case using w l by (simp add: s) (simp add: fun_eq_iff)
qed

text \<open>C34: Logging. After \<^verbatim>\<open>log_init\<close> has opened a log file, any sequence of \<^verbatim>\<open>log_write\<close> calls appends exactly its
  lines, in order, to what the file held before; errors go to the standard error stream as well and all
  other lines to the standard output, in order; no other file changes. After \<^verbatim>\<open>log_close\<close> nothing more is
  written to the file.\<close>

theorem log_lines_exact:
  assumes "log_init (Some path) s = (0, s1)" "f_node (ls_files s) path = (if new then None else Some (Regular old))"
    and "list_all (\<lambda>e. printable_tm (tz_localtime tz (le_time e))) (es @ fs)"
    and "length (concat (map (log_line tz) es)) \<le> f_space (ls_files s)"
  shows "\<exists>s2 s3. log_all tz es s1 = Inr s2 \<and>
     f_node (ls_files s2) = (f_node (ls_files s))(path \<mapsto> Regular ((if new then [] else old) @ concat (map (log_line tz) es))) \<and>
     ls_stdout s2 = ls_stdout s @ concat (map (log_line tz) (filter (\<lambda>e. \<not> to_stderr e) es)) \<and>
     ls_stderr s2 = ls_stderr s @ concat (map (log_line tz) (filter to_stderr es)) \<and>
     log_all tz fs (log_close s2) = Inr s3 \<and> ls_files s3 = ls_files s2"
proof -
  have i: "g_log_file s1 = Some path" "f_node (ls_files s1) path = Some (Regular (if new then [] else old))"
      "f_space (ls_files s1) = f_space (ls_files s)" "ls_stdout s1 = ls_stdout s" "ls_stderr s1 = ls_stderr s"
      "\<And>x. (f_node (ls_files s1))(path \<mapsto> x) = (f_node (ls_files s))(path \<mapsto> x)"
    using assms(1,2) by (auto simp: log_init_def fopen_a_def Let_def split: option.splits if_splits)
  have "list_all (\<lambda>e. printable_tm (tz_localtime tz (le_time e))) es" using assms(3) by simp
  from log_all_law [OF this i(1,2)] obtain s2 where s2: "log_all tz es s1 = Inr s2"
      "f_node (ls_files s2) = (f_node (ls_files s))(path \<mapsto> Regular ((if new then [] else old) @ concat (map (log_line tz) es)))"
      "ls_stdout s2 = ls_stdout s @ concat (map (log_line tz) (filter (\<lambda>e. \<not> to_stderr e) es))"
      "ls_stderr s2 = ls_stderr s @ concat (map (log_line tz) (filter to_stderr es))"
    using assms(4) i(3-6) by auto
  have closed: "\<exists>s'. log_all tz fs t = Inr s' \<and> ls_files s' = ls_files t" if "g_log_file t = None" for t
    using assms(3) that
  proof (induction fs arbitrary: t)
    case (Cons e fs)
    obtain ts where "get_timestamp tz (le_time e) 32 = Inr ts" using get_timestamp_fits Cons.prems(1) by fastforce
    then obtain t' where "log_write tz e t = Inr t'" "g_log_file t' = None" "ls_files t' = ls_files t"
      using Cons.prems(2) by (auto simp: log_write_def Let_def)
    then show ?case using Cons.IH [of t'] Cons.prems by auto
  qed simp
  have "g_log_file (log_close s2) = None" "ls_files (log_close s2) = ls_files s2" by (simp_all add: log_close_def)
  then show ?thesis using s2 closed [of "log_close s2"] by auto
qed

definition log_example :: log_sys where
  "log_example = \<lparr>g_log_file = None, ls_files = files0 Map.empty, ls_stdout = [], ls_stderr = [], ls_lost = 0\<rparr>"

definition utc :: timezone where
  "utc = \<lparr>tz_localtime = gm_fields, tz_mktime = tm_seconds\<rparr>"

definition event_example :: log_event where
  "event_example = \<lparr>le_time = 0, le_level = LOG_LEVEL_ERROR, le_file = ''m.c'', le_line = 7, le_func = ''f'', le_msg = ''no''\<rparr>"

theorem log_lines_exact_witness:
  "\<exists>s1 s2. log_init (Some ''l'') log_example = (0, s1) \<and> log_all utc [event_example] s1 = Inr s2 \<and>
     f_node (ls_files s2) ''l'' = Some (Regular (''1970-01-01 00:00:00 [ERROR] m.c:7 (f): no'' @ [LF]))"
proof -
  define s1 where "s1 = log_example\<lparr>g_log_file := Some ''l'', ls_files := files0 [''l'' \<mapsto> Regular []]\<rparr>"
  have i: "log_init (Some ''l'') log_example = (0, s1)"
    by (simp add: log_init_def log_example_def fopen_a_def files0_def s1_def Let_def)
  have l: "log_line utc event_example = ''1970-01-01 00:00:00 [ERROR] m.c:7 (f): no'' @ [LF]" by code_simp
  have "printable_tm (tz_localtime utc 0)" by code_simp
  then show ?thesis
    using log_lines_exact [OF i, of True "[]" utc "[event_example]" "[]"] i l
    by (auto simp: log_example_def files0_def event_example_def)
qed

end
