(* ===== verification/Demo.thy ===== *)
theory Demo imports HTTP_Tasks File_Logging
begin

text \<open>
  The demonstration program \<^verbatim>\<open>manual_http_simple_filelog.c\<close>: it fetches a page through the blocking interface and
  through the scheduler, over HTTP and HTTPS, and writes the bodies to files and a report to a log file.

  An open stream is the path of its file. The state (\<open>demo\<close>) is the system of the sockets and the clock, and the
  files with the state of the logger. The client that \<^verbatim>\<open>run_nonblocking\<close> allocates is the only one in the
  heap of clients; \<open>DEMO_CLIENT\<close> is its address, \<open>DEMO_CONTEXT\<close> that of its \<^verbatim>\<open>NBContext\<close>,
  \<open>DEMO_OUT\<close> that of \<^verbatim>\<open>response_out_dummy\<close>. The success callback runs
  inside of \<^verbatim>\<open>scheduler_work\<close>: the model applies it to what the call has handed out when the call returns. The
  messages on the standard streams leave no trace; what the logger prints there is in its state.
\<close>

section \<open>The program\<close>

record demo =
  dm_log :: log_sys
  dm_world :: world

definition DEMO_CLIENT :: nat where "DEMO_CLIENT = 1"

definition DEMO_CONTEXT :: nat where "DEMO_CONTEXT = 2"

definition DEMO_OUT :: nat where "DEMO_OUT = 3"

definition default_url :: cstring where "default_url = ''http://www.google.com''"

definition default_tls_url :: cstring where
  "default_tls_url = ''https://api.open-meteo.com/v1/'' @ ''forecast?latitude=59.3293&longitude=18.0686&current=temperature_2m''"

definition write_blob_to_file :: "cstring \<Rightarrow> byte list option \<Rightarrow> nat \<Rightarrow> files \<Rightarrow> (int \<times> files) res" where
  "write_blob_to_file path data len fs =
     (case fopen_w path fs of
        None \<Rightarrow> Inr (-1, fs)
      | Some fs1 \<Rightarrow>
          (case data of
             None \<Rightarrow> Inr (0, fs1)
           | Some bs \<Rightarrow>
               if len = 0 then Inr (0, fs1)
               else if length bs < len then Inl OutOfBounds
               else
                 (case fwrite path (take len bs) fs1 of (wr, fs2) \<Rightarrow>
                    if wr \<noteq> len then Inr (-1, fs2) else Inr (0, fs2))))"

definition open_log :: "cstring \<Rightarrow> files \<Rightarrow> files option" where
  "open_log path fs = fopen_w path fs"

text \<open>\<^verbatim>\<open>fprintf(logf, ...)\<close> and the flush.\<close>

definition put :: "cstring \<Rightarrow> byte list \<Rightarrow> demo \<Rightarrow> demo" where
  "put logf text d = d\<lparr>dm_log := (dm_log d)\<lparr>ls_files := stream_write logf text (ls_files (dm_log d))\<rparr>\<rparr>"

definition set_files :: "files \<Rightarrow> demo \<Rightarrow> demo" where
  "set_files fs d = d\<lparr>dm_log := (dm_log d)\<lparr>ls_files := fs\<rparr>\<rparr>"

definition save :: "cstring \<Rightarrow> byte list option \<Rightarrow> nat \<Rightarrow> demo \<Rightarrow> demo out" where
  "save path data len d =
     (case write_blob_to_file path data len (ls_files (dm_log d)) of
        Inl f \<Rightarrow> fault f
      | Inr (_, fs) \<Rightarrow> ret (set_files fs d))"

definition run_blocking :: "'s mbedtls \<Rightarrow> cstring \<Rightarrow> int \<Rightarrow> cstring \<Rightarrow> cstring \<Rightarrow> demo \<Rightarrow> (int \<times> demo) out" where
  "run_blocking mb url timeout_ms out_path logf d =
     (let d0 = put logf (LF # ''=== BLOCKING ==='' @ [LF]) d in
      out_bind (http_blocking_get mb (Some url) (Some empty_data) timeout_ms (dm_world d0)) (\<lambda>(rc, out, w1).
        (let d1 = put logf (''blocking rc = '' @ pad_int 1 rc @ [LF]) (d0\<lparr>dm_world := w1\<rparr>) in
         if rc \<noteq> 0 then ret (rc, d1)
         else
           (case out of
              None \<Rightarrow> fault NullDeref
            | Some o1 \<Rightarrow>
                (let d2 = put logf (''blocking bytes = '' @ pad_int 1 (hd_size o1) @ [LF]) d1 in
                 if hd_addr o1 \<noteq> None \<and> hd_size o1 > 0
                 then out_bind (save out_path (hd_addr o1) (nat (hd_size o1)) d2)
                        (\<lambda>d3. ret (rc, put logf (''blocking wrote: '' @ out_path @ [LF]) d3))
                 else ret (rc, put logf (''blocking: no body captured'' @ [LF]) d2))))))"

record NBContext =
  nb_done :: bool
  nb_response :: "byte list option"

text \<open>The success callback; \<open>resp\<close> is the block \<^verbatim>\<open>*resp_ptr\<close> points at, the body and its NUL.\<close>

definition on_success :: "cstring \<Rightarrow> byte list option \<Rightarrow> NBContext \<times> demo \<Rightarrow> NBContext \<times> demo" where
  "on_success logf resp s =
     ((if resp \<noteq> None then (fst s)\<lparr>nb_response := resp, nb_done := True\<rparr> else (fst s)\<lparr>nb_done := True\<rparr>),
      put logf (''nonblocking: SUCCESS callback fired'' @ [LF]) (snd s))"

text \<open>The loop: a task count of zero and the timeout are tested before the pass.\<close>

partial_function (option) nb_loop ::
  "'s mbedtls \<Rightarrow> int \<Rightarrow> int \<Rightarrow> cstring \<Rightarrow> NBContext \<Rightarrow> 's clients \<Rightarrow> demo \<Rightarrow> (NBContext \<times> 's clients \<times> demo) out" where
  "nb_loop mb timeout_ms start logf nb h d =
     (if nb_done nb then ret (nb, h, d)
      else
        (case SystemMonotonicMS (dm_world d) of (now, w) \<Rightarrow>
           if scheduler_get_task_count w = 0
           then ret (nb, h, put logf (''nonblocking: scheduler has no tasks (client likely disposed/error)'' @ [LF])
                  (d\<lparr>dm_world := w\<rparr>))
           else if timeout_ms > 0 \<and> c_size (now - start) > timeout_ms
           then ret (nb, h, put logf (''nonblocking: TIMEOUT after '' @ pad_int 1 timeout_ms @ '' ms'' @ [LF])
                  (d\<lparr>dm_world := w\<rparr>))
           else
             (case scheduler_work (client_callbacks mb) now (h, w) of
                None \<Rightarrow> None
              | Some (Inl f) \<Rightarrow> fault f
              | Some (Inr (h', w')) \<Rightarrow>
                  (case fold (\<lambda>e. on_success logf (Some (snd e @ [NUL]))) (drop (length (w_delivered w)) (w_delivered w'))
                          (nb, d\<lparr>dm_world := w'\<rparr>) of
                     (nb', d') \<Rightarrow> nb_loop mb timeout_ms start logf nb' h' d'))))"

declare nb_loop.simps [code]

text \<open>What follows the loop.\<close>

definition nb_report :: "cstring \<Rightarrow> cstring \<Rightarrow> NBContext \<Rightarrow> demo \<Rightarrow> (int \<times> demo) out" where
  "nb_report out_path logf nb d =
     out_bind
       (case nb_response nb of
          None \<Rightarrow> ret (put logf (''nonblocking: no response captured'' @ [LF]) d)
        | Some resp \<Rightarrow>
            if NUL \<notin> set resp then fault OutOfBounds
            else
              (let len = length (c_str resp) in
               out_bind (save out_path (Some resp) len (put logf (''nonblocking bytes = '' @ dec_str len @ [LF]) d))
                 (\<lambda>d1. ret (put logf (''nonblocking wrote: '' @ out_path @ [LF]) d1))))
       (\<lambda>d1. ret (0, d1\<lparr>dm_world := scheduler_dispose (dm_world d1)\<rparr>))"

definition run_nonblocking :: "'s mbedtls \<Rightarrow> cstring \<Rightarrow> int \<Rightarrow> cstring \<Rightarrow> cstring \<Rightarrow> demo \<Rightarrow> (int \<times> demo) out" where
  "run_nonblocking mb url timeout_ms out_path logf d =
     (let d0 = put logf (LF # ''=== NONBLOCKING ==='' @ [LF]) d;
          w0 = snd (scheduler_init (dm_world d0)) in
      case w_malloc w0 of (ok, w1) \<Rightarrow>
        if \<not> ok
        then ret (-1, (put logf (''nonblocking: calloc client failed'' @ [LF]) d0)\<lparr>dm_world := scheduler_dispose w1\<rparr>)
        else
          (case http_client_initiate DEMO_CLIENT (Some (zero_client mb)) (Some url) HTTP_GET True DEMO_CONTEXT (Some DEMO_OUT) w1 of
             (rc, c, w2) \<Rightarrow>
               if rc \<noteq> 0
               then ret (rc, (put logf (''nonblocking: init failed rc='' @ pad_int 1 rc @ [LF]) d0)
                           \<lparr>dm_world := scheduler_dispose w2\<rparr>)
               else
                 (case SystemMonotonicMS w2 of (start, w3) \<Rightarrow>
                    out_bind
                      (nb_loop mb timeout_ms start logf \<lparr>nb_done = False, nb_response = None\<rparr>
                         ((\<lambda>_. None)(DEMO_CLIENT := c)) (d0\<lparr>dm_world := w3\<rparr>))
                      (\<lambda>(nb, h, d1). nb_report out_path logf nb d1))))"

definition atoi :: "cstring \<Rightarrow> int" where
  "atoi s = c_int (fst (strtol10 s))"

text \<open>\<^verbatim>\<open>snprintf\<close> into \<^verbatim>\<open>char[512]\<close>.\<close>

definition path_of :: "cstring \<Rightarrow> cstring \<Rightarrow> cstring" where
  "path_of prefix suffix = take 511 (prefix @ suffix)"

text \<open>\<open>file\<close> is \<^verbatim>\<open>__FILE__\<close>; \<open>args\<close> are the arguments after the name of the program.\<close>

definition main :: "'s mbedtls \<Rightarrow> timezone \<Rightarrow> cstring \<Rightarrow> cstring list \<Rightarrow> demo \<Rightarrow> (int \<times> demo) out" where
  "main mb tz file args d =
     (case global_tls_ca_init mb (dm_world d) of (globalres, w1) \<Rightarrow>
      case log_init (Some ''test.log'') (dm_log d) of (r, l1) \<Rightarrow>
      case log_write tz \<lparr>le_time = w_time w1, le_level = LOG_LEVEL_INFO, le_file = file, le_line = 261, le_func = ''main'',
              le_msg = ''Starting program...''\<rparr> l1 of
        Inl f \<Rightarrow> fault f
      | Inr l2 \<Rightarrow>
          (let timeout_ms = (if args \<noteq> [] then atoi (args ! 0) else 10000);
               prefix = (if 2 \<le> length args then args ! 1 else ''http_out'');
               logf = path_of prefix ''.log'';
               l3 = log_close l2 in
           case open_log logf (ls_files l3) of
             None \<Rightarrow> ret (2, \<lparr>dm_log = l3, dm_world = w1\<rparr>)
           | Some fs \<Rightarrow>
               (let d1 = put logf (''Manual HTTP/TLS test'' @ [LF] @ ''Timeout = '' @ pad_int 1 timeout_ms @ '' ms'' @ [LF] @
                           ''Prefix  = '' @ prefix @ [LF]) \<lparr>dm_log = l3\<lparr>ls_files := fs\<rparr>, dm_world = w1\<rparr>;
                    d2 = put logf (LF # ''===== HTTP (TCP) ====='' @ [LF]) d1 in
                out_bind (run_blocking mb default_url timeout_ms (path_of prefix ''_http_blocking.bin'') logf d2) (\<lambda>(_, d3).
                out_bind (run_nonblocking mb default_url timeout_ms (path_of prefix ''_http_nonblocking.bin'') logf d3) (\<lambda>(_, d4).
                out_bind (run_blocking mb default_tls_url timeout_ms (path_of prefix ''_https_blocking.bin'') logf
                    (put logf (LF # ''===== HTTPS (TLS) ====='' @ [LF]) d4)) (\<lambda>(_, d5).
                out_bind (run_nonblocking mb default_tls_url timeout_ms (path_of prefix ''_https_nonblocking.bin'') logf d5)
                  (\<lambda>(_, d6). ret (0, d6))))))))"

section \<open>Files and the log\<close>

abbreviation dm_files :: "demo \<Rightarrow> files" where "dm_files d \<equiv> ls_files (dm_log d)"

lemma put_world [simp]: "dm_world (put logf text d) = dm_world d"
  by (simp add: put_def)

text \<open>A file that can be written: \<open>room\<close> bytes are left on the device.\<close>

definition writable :: "cstring \<Rightarrow> nat \<Rightarrow> demo \<Rightarrow> bool" where
  "writable path room d \<longleftrightarrow> f_may_write (dm_files d) path \<and> room \<le> f_space (dm_files d) \<and>
     (f_node (dm_files d) path = None \<or> (\<exists>bs. f_node (dm_files d) path = Some (Regular bs)))"

lemma put_files:
  assumes "path \<noteq> logf"
  shows "f_node (dm_files (put logf msg d)) path = f_node (dm_files d) path"
    "writable path (room + length msg) d \<Longrightarrow> writable path room (put logf msg d)"
  using assms by (auto simp: put_def stream_write_def writable_def split: option.splits fnode.splits)

lemma writable_world [simp]: "writable path room (d\<lparr>dm_world := w\<rparr>) = writable path room d"
  by (simp add: writable_def)

lemma save_writes:
  assumes "writable path room d" "len \<le> length bs" "len \<le> room"
  shows "\<exists>d'. save path (Some bs) len d = ret d' \<and> f_node (dm_files d') path = Some (Regular (take len bs)) \<and> dm_world d' = dm_world d"
  using assms
  by (auto simp: save_def write_blob_to_file_def fopen_w_def fwrite_def stream_write_def set_files_def writable_def
      split: option.splits fnode.splits)

section \<open>The loop over the scheduler\<close>

definition clock_ms :: "int \<times> int \<Rightarrow> int" where
  "clock_ms t = c_size (c_size (c_size (fst t) * 1000) + c_div (snd t) 1000000)"

lemma clock_read:
  assumes "w_clock w \<noteq> []"
  shows "fst (SystemMonotonicMS w) = clock_ms (hd (w_clock w))"
    "w_clock (snd (SystemMonotonicMS w)) = (if tl (w_clock w) = [] then w_clock w else tl (w_clock w))"
  using assms by (auto simp: SystemMonotonicMS_def sys_clock_gettime_def clock_ms_def split: list.splits)

text \<open>Before and after every pass: the client goes on, has failed and is about to be disposed of, is gone, or has
  handed its response out. \<open>D\<close> is what had been handed out before.\<close>

definition nb_inv where
  "nb_inv u p v code phrase hs payload body old n i D nb h w \<longleftrightarrow>
     (\<exists>c. h DEMO_CLIENT = Some c \<and> hc_context c = DEMO_CONTEXT \<and>
       (if nb_done nb
        then nb_response nb = Some (body @ [NUL]) \<and> w_delivered w = D @ [(DEMO_CONTEXT, body)] \<and>
          (\<exists>fd. w_out w fd = old fd @ get_text p)
        else nb_response nb = None \<and> w_delivered w = D \<and>
          (w_sched w = replicate n idle_task \<or>
           w_sched w = one_task n i DEMO_CLIENT \<and> hc_task c = Some i \<and>
             (task_inv u p v code phrase hs payload body old c w \<or>
              hc_state c = HTTP_CLIENT_DISPOSING \<and> req_kept c \<and> \<not> tr_use_tls (hc_transport c)))))"

lemma task_inv_kept: "task_inv u p v code phrase hs payload body old c w \<Longrightarrow> req_kept c \<and> \<not> tr_use_tls (hc_transport c)"
  by (auto simp: task_inv_def exch_core_def conn_start_def req_kept_def split: if_splits)

lemma nb_pass_error:
  assumes "hc_state c = HTTP_CLIENT_ERROR"
  shows "http_client_taskwork mb (Some c) t w = ret (Some (c\<lparr>hc_state := HTTP_CLIENT_DISPOSING\<rparr>), snd (SystemMonotonicMS w))"
  using assms by (simp add: http_client_taskwork_def case_prod_beta)

lemma nb_pass_dispose:
  assumes "hc_state c = HTTP_CLIENT_DISPOSING" "req_kept c" "\<not> tr_use_tls (hc_transport c)" "hc_task c = Some i"
    and "w_sched w = one_task n i a" "i < n"
  obtains c' w' where "http_client_taskwork mb (Some c) t w = ret (Some c', w')" "hc_context c' = hc_context c"
    "w_sched w' = replicate n idle_task" "w_delivered w' = w_delivered w" "clock_runs w w'"
proof -
  let ?w = "snd (SystemMonotonicMS w)"
  have d: "\<exists>x. http_parser_dispose (hc_req c) (hc_resp c) = ret x"
  proof (cases "hc_req c")
    case None
    then show ?thesis by (cases "hc_resp c") (simp_all add: http_parser_dispose_def)
  qed (use assms(2) in \<open>simp add: req_kept_def dispose_req_wf\<close>)
  let ?v = "scheduler_destroy_task (Some i) ?w"
  have v: "w_sched ?v = replicate n idle_task" "w_delivered ?v = w_delivered w" "w_clock ?v = w_clock ?w"
    using assms(5,6) by (simp_all add: destroy_task_simp one_task_def)
      (metis idle_task_def list_update_id nth_replicate)
  obtain t' w1 where t: "transport_dispose mb (Some (hc_transport c)) ?v = (t', w1)"
    by (cases "transport_dispose mb (Some (hc_transport c)) ?v")
  then have w1: "w_sched w1 = w_sched ?v" "w_delivered w1 = w_delivered ?v" "w_clock w1 = w_clock ?v"
    using assms(3) by (auto simp: transport_dispose_def tcp_client_dispose_def sys_close_def Let_def split: prod.splits if_splits)
  have "\<exists>c'. http_client_taskwork mb (Some c) t w = ret (Some c', w1) \<and> hc_context c' = hc_context c"
    using assms(1,4) d t by (auto simp: http_client_taskwork_def http_client_dispose_def Let_def case_prod_beta)
  moreover have "clock_runs w w1" using w1(3) v(3) clock_runs_read [of w] by (simp add: clock_runs_def)
  ultimately show thesis using that w1(1,2) v(1,2) by auto
qed

text \<open>One pass over the live task.\<close>

lemma nb_round:
  assumes "nb_inv u p v code phrase hs payload body old n i D nb h w" "\<not> nb_done nb" "w_sched w = one_task n i DEMO_CLIENT" "i < n"
    and "w_sched w \<noteq> replicate n idle_task" "agreed u p v code phrase hs payload body"
  shows "\<exists>h' w'. scheduler_work (client_callbacks mb) t (h, w) = ret (h', w') \<and> clock_runs w w' \<and>
     (w_delivered w' = w_delivered w \<and> nb_inv u p v code phrase hs payload body old n i D nb h' w' \<or>
      w_delivered w' = w_delivered w @ [(DEMO_CONTEXT, body)] \<and>
        nb_inv u p v code phrase hs payload body old n i D \<lparr>nb_done = True, nb_response = Some (body @ [NUL])\<rparr> h' w')"
proof -
  let ?w = "snd (SystemMonotonicMS w)"
  obtain c where c: "h DEMO_CLIENT = Some c" "hc_context c = DEMO_CONTEXT" "nb_response nb = None" "w_delivered w = D" "hc_task c = Some i"
      "task_inv u p v code phrase hs payload body old c w \<or>
       hc_state c = HTTP_CLIENT_DISPOSING \<and> req_kept c \<and> \<not> tr_use_tls (hc_transport c)"
    using assms(1,2,5) by (auto simp: nb_inv_def)
  have pass: "\<exists>w2. scheduler_work (client_callbacks mb) t (h, w) = ret (h(DEMO_CLIENT \<mapsto> c'), w2) \<and> clock_runs w w2 \<and>
      w_sched w2 = w_sched w' \<and> w_in w2 = w_in w' \<and> w_out w2 = w_out w' \<and> w_alloc w2 = w_alloc w' \<and> w_delivered w2 = w_delivered w'"
    if "http_client_taskwork mb (Some c) t ?w = ret (Some c', w')" "clock_runs ?w w'"
      "w_sched w' = one_task n i DEMO_CLIENT \<or> w_sched w' = replicate n idle_task" for c' w'
    by (rule one_pass [where h = h, OF assms(3,4) c(1) that(1,3)]) (use clock_runs_trans [OF clock_runs_trans [OF clock_runs_read that(2)]] in blast)
  consider (dispose) "hc_state c = HTTP_CLIENT_DISPOSING" "req_kept c" "\<not> tr_use_tls (hc_transport c)"
    | (error) "task_inv u p v code phrase hs payload body old c w" "hc_state c = HTTP_CLIENT_ERROR"
    | (call) "task_inv u p v code phrase hs payload body old c w" "hc_state c \<notin> {HTTP_CLIENT_ERROR, HTTP_CLIENT_DISPOSING}"
    using c(6) task_inv_kept [of u p v code phrase hs payload body old c w] by auto
  then show ?thesis
  proof cases
    case dispose
    have "w_sched ?w = one_task n i DEMO_CLIENT" using assms(3) by simp
    then obtain c' w' where r: "http_client_taskwork mb (Some c) t ?w = ret (Some c', w')" "hc_context c' = hc_context c"
        "w_sched w' = replicate n idle_task" "w_delivered w' = w_delivered ?w" "clock_runs ?w w'"
      using nb_pass_dispose [OF dispose c(5) _ assms(4)] by blast
    then obtain w2 where "scheduler_work (client_callbacks mb) t (h, w) = ret (h(DEMO_CLIENT \<mapsto> c'), w2)" "clock_runs w w2"
        "w_sched w2 = w_sched w'" "w_delivered w2 = w_delivered w'" using pass by blast
    then show ?thesis using r(2-4) c(2-4) assms(2) by (auto simp: nb_inv_def)
  next
    case error
    have r: "http_client_taskwork mb (Some c) t ?w = ret (Some (c\<lparr>hc_state := HTTP_CLIENT_DISPOSING\<rparr>), snd (SystemMonotonicMS ?w))"
      by (rule nb_pass_error [OF error(2)])
    obtain w2 where "scheduler_work (client_callbacks mb) t (h, w) = ret (h(DEMO_CLIENT \<mapsto> c\<lparr>hc_state := HTTP_CLIENT_DISPOSING\<rparr>), w2)"
        "clock_runs w w2" "w_sched w2 = w_sched w" "w_delivered w2 = w_delivered w"
      using pass [OF r clock_runs_read] assms(3) by auto
    then show ?thesis
      using c(2-5) assms(2,3) task_inv_kept [OF error(1)] by (auto simp: nb_inv_def req_kept_def)
  next
    case call
    obtain c' w' where r: "http_client_taskwork mb (Some c) t ?w = ret (Some c', w')"
        "task_ends u p v code phrase hs payload body old c ?w c' w'"
      using task_call [OF task_inv_clock [OF call(1)] assms(6) call(2), of mb t] by blast
    then have e: "hc_task c' = Some i" "hc_context c' = DEMO_CONTEXT" "w_sched w' = one_task n i DEMO_CLIENT" "clock_runs ?w w'"
      using c(2,5) assms(3) by (simp_all add: task_ends_def)
    obtain w2 where p: "scheduler_work (client_callbacks mb) t (h, w) = ret (h(DEMO_CLIENT \<mapsto> c'), w2)" "clock_runs w w2"
        "w_sched w2 = w_sched w'" "w_in w2 = w_in w'" "w_out w2 = w_out w'" "w_alloc w2 = w_alloc w'" "w_delivered w2 = w_delivered w'"
      using pass [OF r(1) e(4)] e(3) by blast
    show ?thesis
    proof (cases "hc_state c' = HTTP_CLIENT_DISPOSING")
      case True
      then show ?thesis using r(2) p c(2,4) e(2) by (auto simp: task_ends_def nb_inv_def)
    next
      case False
      then have "task_inv u p v code phrase hs payload body old c' w2" "w_delivered w' = w_delivered w"
        using r(2) task_inv_frame [OF p(4,6,5), where c = c'] by (simp_all add: task_ends_def)
      then show ?thesis using p c(3,4) e(1-3) assms(2) by (auto simp: nb_inv_def)
    qed
  qed
qed

lemma clock_runs_last: "clock_runs w w' \<Longrightarrow> w_clock w \<noteq> [] \<Longrightarrow> w_clock w' \<noteq> [] \<and> last (w_clock w') = last (w_clock w) \<and>
    length (w_clock w') \<le> length (w_clock w)"
  by (auto simp: clock_runs_def)

text \<open>A round of the loop that leaves it, and one that goes on.\<close>

lemma nb_exit:
  assumes "\<not> nb_done nb" "0 < t" "t < 2 ^ 31"
    and "scheduler_get_task_count (snd (SystemMonotonicMS (dm_world d))) = 0 \<or> c_size (fst (SystemMonotonicMS (dm_world d)) - start) > t"
  obtains msg where "nb_loop mb t start logf nb h d = ret (nb, h, put logf msg (d\<lparr>dm_world := snd (SystemMonotonicMS (dm_world d))\<rparr>))"
    "length msg \<le> 100"
proof -
  have "nat t < 10 ^ Suc 9" using assms(2,3) by simp
  then have "length (pad_int 1 t) \<le> 10" using dec_str_length [of "nat t" 9] assms(2) by (simp add: pad_int_def Let_def)
  then show thesis
    using assms that [of "''nonblocking: scheduler has no tasks (client likely disposed/error)'' @ [LF]"]
      that [of "''nonblocking: TIMEOUT after '' @ pad_int 1 t @ '' ms'' @ [LF]"]
    by (cases "scheduler_get_task_count (snd (SystemMonotonicMS (dm_world d))) = 0")
      (simp_all add: nb_loop.simps [of mb t start logf nb h d] case_prod_beta)
qed

lemma nb_go_on:
  assumes "\<not> nb_done nb" "scheduler_get_task_count (snd (SystemMonotonicMS (dm_world d))) \<noteq> 0"
    and "\<not> c_size (fst (SystemMonotonicMS (dm_world d)) - start) > t" "agreed u p v code phrase hs payload body" "i < n" "path \<noteq> logf"
    and "nb_inv u p v code phrase hs payload body old n i D nb h (snd (SystemMonotonicMS (dm_world d)))" "writable path (room + 100) d"
  obtains nb' h' d' where "nb_loop mb t start logf nb h d = nb_loop mb t start logf nb' h' d'"
    "clock_runs (snd (SystemMonotonicMS (dm_world d))) (dm_world d')"
    "nb_inv u p v code phrase hs payload body old n i D nb' h' (dm_world d')"
    "writable path (if nb_done nb' then room else room + 100) d'" "f_node (dm_files d') path = f_node (dm_files d) path"
proof -
  let ?w = "snd (SystemMonotonicMS (dm_world d))" and ?now = "fst (SystemMonotonicMS (dm_world d))"
  let ?inv = "nb_inv u p v code phrase hs payload body old n i D"
  have ne: "w_sched ?w \<noteq> replicate n idle_task"
    using assms(2) by (auto simp: task_count_live live_tasks_def idle_task_def task_live_def)
  then have "w_sched ?w = one_task n i DEMO_CLIENT" using assms(1,7) by (auto simp: nb_inv_def)
  then obtain h' w' where r: "scheduler_work (client_callbacks mb) ?now (h, ?w) = ret (h', w')" "clock_runs ?w w'"
      "w_delivered w' = w_delivered ?w \<and> ?inv nb h' w' \<or>
       w_delivered w' = w_delivered ?w @ [(DEMO_CONTEXT, body)] \<and> ?inv \<lparr>nb_done = True, nb_response = Some (body @ [NUL])\<rparr> h' w'"
    using nb_round [OF assms(7,1) _ assms(5) ne assms(4), of mb ?now] by blast
  have e: "nb_loop mb t start logf nb h d =
      (case fold (\<lambda>e. on_success logf (Some (snd e @ [NUL]))) (drop (length (w_delivered ?w)) (w_delivered w')) (nb, d\<lparr>dm_world := w'\<rparr>) of
         (nb', d') \<Rightarrow> nb_loop mb t start logf nb' h' d')"
    using assms(1-3) r(1) by (simp add: nb_loop.simps [of mb t start logf nb h d] case_prod_beta)
  from r(3) show thesis
  proof (elim disjE conjE)
    assume "w_delivered w' = w_delivered ?w" "?inv nb h' w'"
    then show thesis using that [of nb h' "d\<lparr>dm_world := w'\<rparr>"] e r(2) assms(1,8) by simp
  next
    let ?nb = "\<lparr>nb_done = True, nb_response = Some (body @ [NUL])\<rparr>"
    let ?msg = "''nonblocking: SUCCESS callback fired'' @ [LF]"
    assume a: "w_delivered w' = w_delivered ?w @ [(DEMO_CONTEXT, body)]" "?inv ?nb h' w'"
    have "nb_loop mb t start logf nb h d = nb_loop mb t start logf ?nb h' (put logf ?msg (d\<lparr>dm_world := w'\<rparr>))"
      using e a(1) by (cases nb) (simp add: on_success_def)
    moreover have "writable path (room + length ?msg) (d\<lparr>dm_world := w'\<rparr>)" using assms(8) by (auto simp: writable_def)
    ultimately show thesis
      using that [of ?nb h' "put logf ?msg (d\<lparr>dm_world := w'\<rparr>)"] a(2) r(2) put_files [OF assms(6), where msg = ?msg and d = "d\<lparr>dm_world := w'\<rparr>"]
      by simp
  qed
qed

text \<open>Every round reads the clock, so the loop ends when the clock is past the timeout at the latest.\<close>

lemma nb_loop_ends:
  assumes "agreed u p v code phrase hs payload body" "i < n" "0 < t" "t < 2 ^ 31" "path \<noteq> logf"
    and "nb_inv u p v code phrase hs payload body old n i D nb h (dm_world d)"
    and "w_clock (dm_world d) \<noteq> []" "c_size (clock_ms (last (w_clock (dm_world d))) - start) > t"
    and "writable path (if nb_done nb then room else room + 100) d"
  shows "\<exists>nb' h' d'. nb_loop mb t start logf nb h d = ret (nb', h', d') \<and>
     nb_inv u p v code phrase hs payload body old n i D nb' h' (dm_world d') \<and>
     writable path room d' \<and> f_node (dm_files d') path = f_node (dm_files d) path"
  using assms(6-9)
proof (induction "length (w_clock (dm_world d))" arbitrary: nb h d rule: less_induct)
  case less
  let ?w = "snd (SystemMonotonicMS (dm_world d))" and ?now = "fst (SystemMonotonicMS (dm_world d))"
  show ?case
  proof (cases "nb_done nb")
    case True
    then show ?thesis using less.prems by (simp add: nb_loop.simps [of mb t start logf nb h d])
  next
    case False
    have I: "nb_inv u p v code phrase hs payload body old n i D nb h ?w"
      using less.prems(1) False task_inv_clock by (fastforce simp: nb_inv_def)
    have room: "writable path (room + 100) d" using less.prems(4) False by simp
    show ?thesis
    proof (cases "scheduler_get_task_count ?w = 0 \<or> c_size (?now - start) > t")
      case True
      obtain msg where m: "nb_loop mb t start logf nb h d = ret (nb, h, put logf msg (d\<lparr>dm_world := ?w\<rparr>))" "length msg \<le> 100"
        using nb_exit [OF False assms(3,4) True] by blast
      have "writable path (room + length msg) (d\<lparr>dm_world := ?w\<rparr>)" using room m(2) by (auto simp: writable_def)
      then show ?thesis using m(1) I put_files [OF assms(5), where msg = msg and d = "d\<lparr>dm_world := ?w\<rparr>"] by simp
    next
      case go: False
      then obtain nb' h' d' where r: "nb_loop mb t start logf nb h d = nb_loop mb t start logf nb' h' d'" "clock_runs ?w (dm_world d')"
          "nb_inv u p v code phrase hs payload body old n i D nb' h' (dm_world d')"
          "writable path (if nb_done nb' then room else room + 100) d'" "f_node (dm_files d') path = f_node (dm_files d) path"
        using nb_go_on [OF False _ _ assms(1,2,5) I room, of t start mb] by blast
      let ?cl = "w_clock (dm_world d)"
      have "tl ?cl \<noteq> []"
      proof
        assume "tl ?cl = []"
        then have "last ?cl = hd ?cl" using less.prems(2) by (cases ?cl) auto
        then show False using go less.prems(2,3) clock_read(1) [of "dm_world d"] by simp
      qed
      then have wc: "w_clock ?w \<noteq> []" "last (w_clock ?w) = last ?cl" "length (w_clock ?w) < length ?cl"
        using clock_read(2) [of "dm_world d"] less.prems(2) by (simp_all add: last_tl)
      show ?thesis
        using less.hyps [of d' nb' h'] r clock_runs_last [OF r(2) wc(1)] wc less.prems(3) by simp
    qed
  qed
qed

section \<open>A page fetched through the scheduler\<close>

text \<open>The client as \<^verbatim>\<open>http_client_initiate\<close> leaves it, with the first slot of an empty table.\<close>

lemma initiate_inv:
  assumes "w_alloc w = []" "w_sched w = replicate n idle_task" "0 < n" "served v code phrase hs payload w" "1 < length (w_clock w)"
  obtains c w' where "http_client_initiate DEMO_CLIENT (Some (zero_client mb)) (Some u) HTTP_GET True DEMO_CONTEXT (Some DEMO_OUT) w = (0, Some c, w')"
    "task_inv u p v code phrase hs payload body (w_out w) c w'" "hc_task c = Some 0" "hc_context c = DEMO_CONTEXT"
    "w_sched w' = one_task n 0 DEMO_CLIENT" "w_delivered w' = w_delivered w" "w_clock w' = tl (w_clock w)"
proof -
  have m: "w_malloc w = (True, w)" using assms(1) by (simp add: w_malloc_def)
  have f: "find (\<lambda>i. task_free (w_sched w ! i)) [0..<length (w_sched w)] = Some 0"
    using assms(2,3) by (simp add: find_upt_Some_iff)
  let ?w = "w\<lparr>w_sched := one_task n 0 DEMO_CLIENT\<rparr>"
  have t: "scheduler_create_task (Some DEMO_CLIENT) (Some HTTP_TASKWORK) w = (Some 0, ?w)"
    using f assms(2) by (simp add: scheduler_create_task_def one_task_def)
  have s: "strdup_ptr (Some u) (w_alloc ?w) = (Some u, [])" "?w\<lparr>w_alloc := []\<rparr> = ?w"
    using assms(1) by (simp_all add: strdup_ptr_def strdup_def)
  obtain now w' where clk: "SystemMonotonicMS ?w = (now, w')" by (cases "SystemMonotonicMS ?w")
  note w' = monotonic_frame [of ?w, unfolded clk snd_conv]
  have cl: "w_clock w' = tl (w_clock w)"
    using clock_read(2) [of ?w, unfolded clk snd_conv] assms(5) by (cases "w_clock w") auto
  let ?c = "(zero_client mb)\<lparr>hc_task := Some 0, hc_on_success := True,
       hc_resp := Some zero_response, hc_req := Some zero_request,
       hc_URL := Some u, hc_state := HTTP_CLIENT_CONNECTING,
       hc_request_length := 0, hc_bytes_sent := 0, hc_retries := 0,
       hc_next_retry_at := now, hc_url_parts := zero_url,
       hc_response_out := Some DEMO_OUT, hc_context := DEMO_CONTEXT,
       hc_timeout_ms := 0, hc_decoded_body := None, hc_decoded_body_len := 0,
       hc_recv_buf := empty_data, hc_blocking_out := None,
       hc_blocking_mode := False, hc_content_length := 0,
       hc_chunk_remaining := 0, hc_chunked := -1\<rparr>"
  have "http_client_initiate DEMO_CLIENT (Some (zero_client mb)) (Some u) HTTP_GET True DEMO_CONTEXT (Some DEMO_OUT) w = (0, Some ?c, w')"
    using m t s clk by (simp add: http_client_initiate_def Let_def)
  moreover have "served v code phrase hs payload w'" using assms(4) served_frame [of w' w] w'(3) by simp
  then have "task_inv u p v code phrase hs payload body (w_out w) ?c w'"
    using w' assms(1) by (simp add: task_inv_def conn_start_def zero_client_def zero_transport_def fresh_body_def zero_request_def
        req_wf_def request_body_def)
  ultimately show thesis using that w'(1,2) cl by simp
qed

lemma report_writes:
  assumes "out_path \<noteq> logf" "writable out_path (room + 40) d" "length body \<le> room" "length body < 2 ^ 31"
  shows "\<exists>d'. nb_report out_path logf \<lparr>nb_done = True, nb_response = Some (body @ [NUL])\<rparr> d = ret (0, d') \<and>
     f_node (dm_files d') out_path = Some (Regular (c_str body)) \<and> w_delivered (dm_world d') = w_delivered (dm_world d) \<and>
     w_out (dm_world d') = w_out (dm_world d)"
proof -
  have c: "c_str (body @ [NUL]) = c_str body" by (simp add: c_str_def takeWhile_tail)
  let ?len = "length (c_str body)"
  have l: "?len \<le> length body" by (simp add: c_str_def length_takeWhile_le)
  have "?len < 10 ^ Suc 9" using l assms(4) by simp
  then have "length (dec_str ?len) \<le> 10" using dec_str_length [of ?len 9] by simp
  then have "writable out_path (room + length (''nonblocking bytes = '' @ dec_str ?len @ [LF])) d"
    using assms(2) by (auto simp: writable_def)
  note w = put_files(2) [OF assms(1) this]
  obtain d1 where "save out_path (Some (body @ [NUL])) ?len (put logf (''nonblocking bytes = '' @ dec_str ?len @ [LF]) d) = ret d1"
      "f_node (dm_files d1) out_path = Some (Regular (take ?len (body @ [NUL])))" "dm_world d1 = dm_world d"
    using save_writes [OF w, of ?len "body @ [NUL]"] l assms(3) by auto
  moreover have "take ?len (body @ [NUL]) = c_str body" using l by (simp add: c_str_def takeWhile_eq_take [symmetric])
  ultimately show ?thesis
    using c put_files(1) [OF assms(1), of "''nonblocking wrote: '' @ out_path @ [LF]" d1]
    by (simp add: nb_report_def Let_def scheduler_dispose_def)
qed

text \<open>From the call to the report: the loop has ended in one of the final states of its invariant.\<close>

lemma nonblocking_loop:
  fixes mb :: "'s mbedtls"
  assumes "agreed u p v code phrase hs payload body" "served v code phrase hs payload (dm_world d)" "w_alloc (dm_world d) = []"
    and "w_sched (dm_world d) \<noteq> []" "0 < t" "t < 2 ^ 31" "2 < length (w_clock (dm_world d))"
    and "c_size (clock_ms (last (w_clock (dm_world d))) - clock_ms (w_clock (dm_world d) ! 1)) > t"
    and "out_path \<noteq> logf" "writable out_path (length body + 200) d"
  obtains nb' h' d1 where "run_nonblocking mb u t out_path logf d = nb_report out_path logf nb' d1"
    "nb_inv u p v code phrase hs payload body (w_out (dm_world d)) (length (w_sched (dm_world d))) 0 (w_delivered (dm_world d)) nb'
       (h' :: 's clients) (dm_world d1)"
    "writable out_path (length body + 40) d1" "f_node (dm_files d1) out_path = f_node (dm_files d) out_path"
proof -
  let ?msg = "LF # ''=== NONBLOCKING ==='' @ [LF]"
  let ?n = "length (w_sched (dm_world d))" and ?cl = "w_clock (dm_world d)"
  let ?d0 = "put logf ?msg d"
  define w0 where "w0 = snd (scheduler_init (dm_world d))"
  have w0: "w_alloc w0 = []" "w_sched w0 = replicate ?n idle_task" "served v code phrase hs payload w0" "1 < length (w_clock w0)"
      "w_out w0 = w_out (dm_world d)" "w_delivered w0 = w_delivered (dm_world d)" "w_clock w0 = ?cl"
    using assms(2,3,7) served_frame [of w0 "dm_world d"] by (simp_all add: w0_def scheduler_init_def)
  have n: "0 < ?n" using assms(4) by simp
  obtain c w2 where i: "http_client_initiate DEMO_CLIENT (Some (zero_client mb)) (Some u) HTTP_GET True DEMO_CONTEXT (Some DEMO_OUT) w0 = (0, Some c, w2)"
    "task_inv u p v code phrase hs payload body (w_out w0) c w2" "hc_task c = Some 0" "hc_context c = DEMO_CONTEXT"
    "w_sched w2 = one_task ?n 0 DEMO_CLIENT" "w_delivered w2 = w_delivered w0" "w_clock w2 = tl (w_clock w0)"
    using initiate_inv [OF w0(1,2) n w0(3,4)] by metis
  obtain start w3 where clk: "SystemMonotonicMS w2 = (start, w3)" by (cases "SystemMonotonicMS w2")
  note w3 = monotonic_frame [of w2, unfolded clk snd_conv]
  have cl: "start = clock_ms (?cl ! 1)" "w_clock w3 = tl (tl ?cl)" "tl (tl ?cl) \<noteq> []" "last (tl (tl ?cl)) = last ?cl"
    using clock_read [of w2, unfolded clk fst_conv snd_conv] i(7) w0(7) assms(7)
    by (cases ?cl rule: remdups_adj.cases; auto simp: hd_conv_nth nth_tl last_tl)+
  let ?nb = "\<lparr>nb_done = False, nb_response = None\<rparr>" and ?h = "(\<lambda>_. None)(DEMO_CLIENT := Some c)"
  let ?inv = "nb_inv u p v code phrase hs payload body (w_out w0) ?n 0 (w_delivered w0)"
  have I: "?inv ?nb ?h w3"
    using i(2-6) w3 task_inv_frame [OF w3(3,6,4) i(2)] by (simp add: nb_inv_def)
  have wr: "writable out_path ((length body + 40) + 100) (?d0\<lparr>dm_world := w3\<rparr>)"
    using put_files(2) [OF assms(9), of "length body + 140" ?msg d] assms(10) by (auto simp: writable_def)
  obtain nb' h' d1 where l: "nb_loop mb t start logf ?nb ?h (?d0\<lparr>dm_world := w3\<rparr>) = ret (nb', h', d1)" "?inv nb' h' (dm_world d1)"
      "writable out_path (length body + 40) d1" "f_node (dm_files d1) out_path = f_node (dm_files d) out_path"
    using nb_loop_ends [OF assms(1) n assms(5,6,9), of "w_out w0" "w_delivered w0" ?nb ?h "?d0\<lparr>dm_world := w3\<rparr>" start "length body + 40" mb]
      I cl wr assms(8) put_files(1) [OF assms(9), of ?msg d] by auto
  have run: "run_nonblocking mb u t out_path logf d = nb_report out_path logf nb' d1"
  proof -
    have "w_malloc w0 = (True, w0)" using w0(1) by (simp add: w_malloc_def)
    then show ?thesis using i(1) clk l(1) by (simp add: run_nonblocking_def Let_def w0_def [symmetric])
  qed
  show thesis using that [OF run] l(2-4) w0(5,6) by simp
qed

text \<open>C2: a page fetched through the scheduler, as the demonstration program does it: for a URL of plain HTTP, with memory,
  a server that answers with a response that announces its body (cut in any way), and a clock that ends up past the
  timeout, \<^verbatim>\<open>run_nonblocking\<close> returns 0 without a fault, whatever the sockets do. Either the success
  callback was called exactly once with exactly the body, the server was sent exactly the request, and the file holds
  the body up to its first NUL (the program takes its length with \<^verbatim>\<open>strlen\<close>); or the callback was not called and the
  file is as it was.\<close>

theorem run_nonblocking_exact:
  fixes mb :: "'s mbedtls"
  assumes "agreed u p v code phrase hs payload body" "served v code phrase hs payload (dm_world d)" "w_alloc (dm_world d) = []"
    and "w_sched (dm_world d) \<noteq> []" "0 < t" "t < 2 ^ 31" "2 < length (w_clock (dm_world d))"
    and "c_size (clock_ms (last (w_clock (dm_world d))) - clock_ms (w_clock (dm_world d) ! 1)) > t"
    and "out_path \<noteq> logf" "writable out_path (length body + 200) d"
  shows "\<exists>d'. run_nonblocking mb u t out_path logf d = ret (0, d') \<and>
     (w_delivered (dm_world d') = w_delivered (dm_world d) @ [(DEMO_CONTEXT, body)] \<and>
        f_node (dm_files d') out_path = Some (Regular (c_str body)) \<and>
        (\<exists>fd. w_out (dm_world d') fd = w_out (dm_world d) fd @ request_head ''GET'' (up_path p) (up_host p) None) \<or>
      w_delivered (dm_world d') = w_delivered (dm_world d) \<and> f_node (dm_files d') out_path = f_node (dm_files d) out_path)"
proof -
  obtain nb' and h' :: "'s clients" and d1 where l: "run_nonblocking mb u t out_path logf d = nb_report out_path logf nb' d1"
      "nb_inv u p v code phrase hs payload body (w_out (dm_world d)) (length (w_sched (dm_world d))) 0 (w_delivered (dm_world d)) nb' h' (dm_world d1)"
      "writable out_path (length body + 40) d1" "f_node (dm_files d1) out_path = f_node (dm_files d) out_path"
    using nonblocking_loop [OF assms, of mb] by metis
  show ?thesis
  proof (cases "nb_done nb'")
    case True
    then have nb: "nb' = \<lparr>nb_done = True, nb_response = Some (body @ [NUL])\<rparr>" using l(2) by (cases nb') (auto simp: nb_inv_def)
    have "length body < 2 ^ 31" using assms(1) announces_body by (auto simp: agreed_def)
    then obtain d' where "nb_report out_path logf nb' d1 = ret (0, d')" "f_node (dm_files d') out_path = Some (Regular (c_str body))"
        "w_delivered (dm_world d') = w_delivered (dm_world d1)" "w_out (dm_world d') = w_out (dm_world d1)"
      using report_writes [OF assms(9) l(3), of body] nb by auto
    then show ?thesis using l(1,2) True by (auto simp: nb_inv_def get_text_def)
  next
    case False
    then have "nb_response nb' = None" "w_delivered (dm_world d1) = w_delivered (dm_world d)" using l(2) by (auto simp: nb_inv_def)
    then show ?thesis
      using l(1,4) put_files(1) [OF assms(9), of "''nonblocking: no response captured'' @ [LF]" d1]
      by (simp add: nb_report_def scheduler_dispose_def)
  qed
qed

text \<open>The server of the blocking example, and a clock that stands still during the exchange.\<close>

definition demo_example :: demo where
  "demo_example = \<lparr>dm_log = \<lparr>g_log_file = None, ls_files = \<lparr>f_node = (\<lambda>_. None)(''log'' := Some (Regular [])),
         f_may_read = \<lambda>_. True, f_may_write = \<lambda>_. True, f_space = 300\<rparr>, ls_stdout = [],
       ls_stderr = [], ls_lost = 0\<rparr>,
     dm_world = exch_world\<lparr>w_sched := [idle_task], w_clock := replicate 60 (1, 0) @ [(100, 0)]\<rparr>\<rparr>"

theorem run_nonblocking_exact_witness:
  "\<exists>d'. run_nonblocking mb_example ''http://a.se/x'' 5000 ''out'' ''log'' demo_example = ret (0, d') \<and>
     f_node (dm_files d') ''out'' = Some (Regular ''abcde'')"
proof -
  let ?p = "\<lparr>up_scheme = ''http'', up_host = ''a.se'', up_port = ''80'', up_path = ''/x''\<rparr>"
  have u: "http_parser_url (Some ''http://a.se/x'') (Some zero_url) = (SUCCESS, Some ?p)" "scheme_uses_tls ''http'' = Some False"
    by code_simp+
  have l: "length (chunked_text [(''5'', ''abcde'')] ''0'' []) < 2 ^ 31" by (simp add: chunked_text_def chunk_text_def CRLF_def)
  have a: "agreed ''http://a.se/x'' ?p ''HTTP/1.1'' 200 ''OK'' [(''Transfer-Encoding'', ''chunked'')]
      (chunked_text [(''5'', ''abcde'')] ''0'' []) ''abcde''"
    using exch_example u l by (simp add: agreed_def served_def)
  have s: "served ''HTTP/1.1'' 200 ''OK'' [(''Transfer-Encoding'', ''chunked'')] (chunked_text [(''5'', ''abcde'')] ''0'' [])
      (dm_world demo_example)"
    using exch_example(1) served_frame [of "dm_world demo_example" exch_world] by (simp add: demo_example_def)
  have c: "c_size (clock_ms (last (w_clock (dm_world demo_example))) - clock_ms (w_clock (dm_world demo_example) ! 1)) > 5000"
    by (simp add: demo_example_def clock_ms_def c_size_id c_div_def nth_append)
  have w: "writable ''out'' (length ''abcde'' + 200) demo_example" by (simp add: writable_def demo_example_def)
  have "map_option (map_sum id (\<lambda>(_, d). length (w_delivered (dm_world d))))
      (run_nonblocking mb_example ''http://a.se/x'' 5000 ''out'' ''log'' demo_example) = Some (Inr 1)" by code_simp
  then obtain z where z: "run_nonblocking mb_example ''http://a.se/x'' 5000 ''out'' ''log'' demo_example = Some z"
      "map_sum id (\<lambda>(_, d). length (w_delivered (dm_world d))) z = Inr 1" by auto
  then obtain rc d' where d': "run_nonblocking mb_example ''http://a.se/x'' 5000 ''out'' ''log'' demo_example = ret (rc, d')"
      "length (w_delivered (dm_world d')) = 1" by (cases z) auto
  from d'(2) have n: "w_delivered (dm_world d') \<noteq> []" by auto
  have m: "w_alloc (dm_world demo_example) = []" "w_sched (dm_world demo_example) \<noteq> []" "2 < length (w_clock (dm_world demo_example))"
      "w_delivered (dm_world demo_example) = []" by code_simp+
  have r: "(0::int) < 5000" "(5000::int) < 2 ^ 31" "''out'' \<noteq> ''log''" "c_str ''abcde'' = ''abcde''" by (simp_all add: c_str_def)
  show ?thesis
    using run_nonblocking_exact [OF a s m(1,2) r(1,2) m(3) c r(3) w, of mb_example] d'(1) n m(4) r(4) by simp
qed

end
