(* ===== verification/HTTP_Safety.thy ===== *)
theory HTTP_Safety imports HTTP_Progress
begin

text \<open>
  The client of \<^verbatim>\<open>modules/src/http_client.c\<close> against a server that sends anything at all.

  \<open>client_typed\<close> is the type invariant of a client that reads a response: its buffers hold as many bytes as their size
  fields say, the numbers are in the ranges of their C types, and its lists can be released. Every unit of work keeps
  it, and none faults but for one of the causes in \<open>fault_cause\<close>: a status code without a phrase, a chunk size line
  of 48 bytes or more, and a chunk size that is negative as an \<^verbatim>\<open>int\<close>. The work is done over the contract
  \<open>byte_stream\<close> of the transport.
\<close>

section \<open>The invariant and the causes of a fault\<close>

text \<open>The values of \<^verbatim>\<open>(size_t)(int)n\<close>.\<close>

definition chunk_range :: "int \<Rightarrow> bool" where
  "chunk_range k \<longleftrightarrow> 0 \<le> k \<and> k < 2 ^ 31 \<or> 2 ^ 64 - 2 ^ 31 \<le> k \<and> k < 2 ^ 64"

definition disposable :: "'s HTTP_Client \<Rightarrow> bool" where
  "disposable c \<longleftrightarrow> (\<exists>r. hc_req c = Some r \<and> req_wf r)"

definition client_typed ::
  "('s Transport \<Rightarrow> world \<Rightarrow> bool) \<Rightarrow> ('s Transport \<Rightarrow> world \<Rightarrow> byte list) \<Rightarrow> 's HTTP_Client \<Rightarrow> world \<Rightarrow> bool" where
  "client_typed up unread c w \<longleftrightarrow>
     client_ready up unread c w \<and> length (block_bytes (hd_addr (hc_recv_buf c))) \<le> 2 ^ 31 \<and>
     0 \<le> hc_decoded_body_len c \<and>
     (0 < hc_decoded_body_len c \<longrightarrow> hc_decoded_body_len c < int (length (block_bytes (hc_decoded_body c)))) \<and>
     hc_decoded_body_len c + int (length (stream_of unread c w)) < 2 ^ 31 \<and>
     chunk_range (hc_chunk_remaining c) \<and> disposable c"

text \<open>A status line whose code, read as the client reads it, has no phrase.\<close>

definition no_phrase :: "byte list \<Rightarrow> bool" where
  "no_phrase line =
     (case strchr (c_str line) SP of
        None \<Rightarrow> False
      | Some i \<Rightarrow>
          (let rest = drop (Suc i) (c_str line) in
           case strchr rest SP of
             None \<Rightarrow> False
           | Some j \<Rightarrow>
               (case parse_string_to_int (Some (take j rest)) True of
                  Inl _ \<Rightarrow> False
                | Inr (_, v) \<Rightarrow> HttpStatus_reasonPhrase (case v of None \<Rightarrow> 0 | Some n \<Rightarrow> n) = None)))"

definition fault_cause :: "('s Transport \<Rightarrow> world \<Rightarrow> byte list) \<Rightarrow> 's HTTP_Client \<Rightarrow> world \<Rightarrow> fault \<Rightarrow> bool" where
  "fault_cause unread c w f \<longleftrightarrow>
     (case hc_state c of
        HTTP_CLIENT_READING_FIRSTLINE \<Rightarrow>
          f = NullDeref \<and> (\<exists>line rest. stream_of unread c w = line @ CRLF @ rest \<and> no_phrase line)
      | HTTP_CLIENT_DECIPHER_CHONKINESS \<Rightarrow>
          f = OutOfBounds \<and>
          (\<exists>line rest. contents (hc_recv_buf c) = line @ CRLF @ rest \<and> 48 \<le> chunk_parse_len line (length line))
      | HTTP_CLIENT_READING_BODY_CHUNKED \<Rightarrow> f = OutOfBounds \<and> 2 ^ 31 \<le> hc_chunk_remaining c
      | _ \<Rightarrow> False)"

text \<open>A unit of work keeps \<open>J\<close> or ends, and faults only for \<open>F\<close>.\<close>

definition step_safe :: "('s HTTP_Client \<Rightarrow> world \<Rightarrow> bool) \<Rightarrow> (fault \<Rightarrow> bool) \<Rightarrow> 's step \<Rightarrow> bool" where
  "step_safe J F r \<longleftrightarrow>
     (case r of
        None \<Rightarrow> False
      | Some (Inl f) \<Rightarrow> F f
      | Some (Inr (st, c, w)) \<Rightarrow>
          disposable c \<and>
          (st \<in> {HTTP_CLIENT_ERROR, HTTP_CLIENT_DISPOSING} \<or> (reading st \<or> st = HTTP_CLIENT_RETURNING) \<and> J c w))"

lemma step_safe_simps [simp]:
  "step_safe J F (fault f) = F f"
  "step_safe J F (ret (HTTP_CLIENT_ERROR, c, w)) = disposable c"
  "step_safe J F (ret (HTTP_CLIENT_DISPOSING, c, w)) = disposable c"
  "step_safe J F (ret (HTTP_CLIENT_RETURNING, c, w)) \<longleftrightarrow> disposable c \<and> J c w"
  "reading st \<Longrightarrow> step_safe J F (ret (st, c, w)) \<longleftrightarrow> disposable c \<and> J c w"
  by (auto simp: step_safe_def reading_def)

lemma step_safe_weaken: "step_safe J G r \<Longrightarrow> (\<And>f. G f \<Longrightarrow> F f) \<Longrightarrow> step_safe J F r"
  by (auto simp: step_safe_def split: option.splits sum.splits)

lemma disposable_frame [simp]:
  "disposable (c\<lparr>hc_recv_buf := d\<rparr>) = disposable c" "disposable (c\<lparr>hc_transport := t\<rparr>) = disposable c"
  "disposable (c\<lparr>hc_resp := x\<rparr>) = disposable c" "disposable (c\<lparr>hc_retries := n\<rparr>) = disposable c"
  "disposable (c\<lparr>hc_content_length := n\<rparr>) = disposable c" "disposable (c\<lparr>hc_decoded_body := b\<rparr>) = disposable c"
  "disposable (c\<lparr>hc_decoded_body_len := n\<rparr>) = disposable c" "disposable (c\<lparr>hc_chunk_remaining := n\<rparr>) = disposable c"
  "disposable (c\<lparr>hc_blocking_out := z\<rparr>) = disposable c" "disposable (c\<lparr>hc_state := st\<rparr>) = disposable c"
  by (simp_all add: disposable_def)

lemma chunk_range_cast: "chunk_range (c_size (c_int n))"
proof -
  have c: "- (2 ^ 31) \<le> c_int n" "c_int n < 2 ^ 31" by (simp_all add: c_int_def)
  show ?thesis
  proof (cases "0 \<le> c_int n")
    case False
    have "c_size (c_int n) = (c_int n + 2 ^ 64) mod 2 ^ 64" by (simp add: c_size_def)
    also have "\<dots> = c_int n + 2 ^ 64" using c False by (intro mod_pos_pos_trivial) simp_all
    finally show ?thesis using c False by (simp add: chunk_range_def)
  qed (use c in \<open>simp add: chunk_range_def c_size_id\<close>)
qed

section \<open>The parsers on arbitrary bytes\<close>

lemma parse_int_total: "length s < 2 ^ 31 \<Longrightarrow> \<exists>r v. parse_string_to_int (Some s) True = Inr (r, v)"
  by (auto simp: parse_string_to_int_def Let_def c_conv split: prod.splits)

lemma firstline_fault:
  assumes "http_parser_response_firstline (Some buf) k resp a = Inl f" "k \<le> length buf" "k < 2 ^ 31"
  shows "f = NullDeref \<and> no_phrase (take k buf)"
proof -
  have l: "length (c_str (take k buf)) < 2 ^ 31"
    using assms(3) length_takeWhile_le [of _ "take k buf"] by (simp add: c_str_def) (meson le_less_trans le_trans min.cobounded2)
  have p: "parse_string_to_int (Some (take j (drop i (c_str (take k buf))))) True \<noteq> Inl g" for i j g
  proof -
    have "length (take j (drop i (c_str (take k buf)))) \<le> length (c_str (take k buf))" by simp
    then have "length (take j (drop i (c_str (take k buf)))) < 2 ^ 31" using l by linarith
    from parse_int_total [OF this] show ?thesis by auto
  qed
  show ?thesis
    using assms(1,2) p
    by (auto simp: http_parser_response_firstline_def no_phrase_def Let_def strdup_def
        split: option.splits prod.splits if_splits sum.splits)
qed

text \<open>The values of the header list are no longer than the buffer they come from.\<close>

definition values_within :: "nat \<Rightarrow> HTTP_Key_Value linked_list \<Rightarrow> bool" where
  "values_within n l \<longleftrightarrow> (\<forall>h \<in> set (ll_items l). \<forall>v. kv_value h = Some v \<longrightarrow> length v \<le> n)"

lemma header_line_length: "header_line line = Some (k, v) \<Longrightarrow> length v \<le> length line"
proof -
  have r: "length (rstrip p s) \<le> length s" for p s using length_dropWhile_le [of p "rev s"] by (simp add: rstrip_def)
  have "length (rstrip hdr_ws (dropWhile hdr_lws (drop n line))) \<le> length line" for n
    using r [of hdr_ws "dropWhile hdr_lws (drop n line)"] length_dropWhile_le [of hdr_lws "drop n line"] by simp
  moreover assume "header_line line = Some (k, v)"
  ultimately show ?thesis by (auto simp: header_line_def split: option.splits)
qed

lemma values_within_add:
  assumes "ll_wf l" "values_within n l" "linked_list_item_add l \<lparr>kv_key = k, kv_value = Some v\<rparr> a = Inr (r, p, l', a')" "length v \<le> n"
  shows "ll_wf l'" "values_within n l'"
proof -
  have "ll_wf l' \<and> ll_items l' = ll_items l @ (if r = 0 then [\<lparr>kv_key = k, kv_value = Some v\<rparr>] else [])"
    by (rule ll.add_total [OF assms(1), of "\<lparr>kv_key = k, kv_value = Some v\<rparr>" a]) (use assms(3) in auto)
  then show "ll_wf l'" "values_within n l'" using assms(2,4) by (auto simp: values_within_def)
qed

lemma header_loop_within:
  assumes "length buf < 2 ^ 31" "buf_len \<le> length buf" "ll_wf l" "values_within (length buf) l"
    and "header_loop buf buf_len (int start) l a = ret (code, Some lo, a')"
  shows "values_within (length buf) lo"
  using assms(3-)
proof (induction "buf_len - start" arbitrary: start l a rule: less_induct)
  case less
  show ?case
  proof (cases "\<exists>e. int start < int buf_len \<and> find (crlf_at buf) [start..<buf_len - 1] = Some e \<and> e \<noteq> start")
    case False
    have "c_int (int start) = int start" if "start < buf_len" using that assms by (simp add: c_conv)
    with False have "header_loop buf buf_len (int start) l a = ret (SUCCESS, Some l, a)"
      by (subst header_loop.simps) (auto simp: Let_def c_size_def split: option.split)
    then show ?thesis using less.prems by auto
  next
    case True
    then obtain e where e: "start < buf_len" "find (crlf_at buf) [start..<buf_len - 1] = Some e" "start < e"
      by (auto simp: find_upt_Some_iff)
    then have bounds: "e + 1 < buf_len" by (auto simp: find_upt_Some_iff)
    then have ce: "c_int (int e) = int e" "c_size (int e - int start) = int (e - start)"
      using assms e(3) by (auto simp: c_conv)
    have sub: "nat (int e - int start) = e - start" by simp
    obtain k v l' a5 r p where n: "header_line (c_str (take (e - start) (drop start buf))) = Some (k, v)"
        "header_loop buf buf_len (int (e + 2)) l' a5 = ret (code, Some lo, a')"
        "\<exists>a4. linked_list_item_add l \<lparr>kv_key = Some k, kv_value = Some v\<rparr> a4 = Inr (r, p, l', a5)"
      using less.prems(3) [unfolded header_loop.simps [of buf buf_len "int start" l a]] e ce bounds assms(2)
      by (auto simp: Let_def headers_fail_def out_bind_def strdup_def add.commute sub
          split: prod.splits option.splits sum.splits if_splits) blast
    have "length v \<le> length buf"
      using header_line_length [OF n(1)] length_takeWhile_le [of "\<lambda>c. c \<noteq> NUL" "take (e - start) (drop start buf)"]
      by (simp add: c_str_def) linarith
    then show ?thesis
      using less.hyps [of "e + 2" l' a5] n(2,3) e bounds values_within_add [OF less.prems(1,2)] by force
  qed
qed

lemma headers_within:
  assumes "n \<le> length bs" "length bs < 2 ^ 31" "http_parser_headers (Some bs) n (Some lo) a = ret (code, Some l, a')"
  shows "values_within (length bs) l"
proof -
  have e: "values_within (length bs) ll_empty" by (simp add: values_within_def)
  show ?thesis
    using assms(3) header_loop_within [OF assms(2,1) ll_empty_wf e, of 0] assms(1)
    by (auto simp: http_parser_headers_def linked_list_create_simp split: if_splits prod.splits)
qed

lemma body_state_fault:
  assumes "\<And>l. hs = Some l \<Longrightarrow> ll_wf l \<and> values_within n l" "n < 2 ^ 31"
  shows "\<exists>st e. body_state hs c = ret (st, e)"
proof -
  have h: "\<exists>r v. http_parser_get_header_value hs nm True = ret (r, v) \<and> (\<forall>s. v = Some s \<longrightarrow> length s \<le> n)" for nm
  proof (cases hs)
    case (Some l)
    then have "linked_list_foreach l = ret (ll_items l)" "values_within n l" using assms(1) ll.visit_items by blast+
    then show ?thesis
      using Some by (auto simp: http_parser_get_header_value_def values_within_def find_Some_iff split: option.splits)
  qed (simp add: http_parser_get_header_value_def)
  obtain r1 te where te: "http_parser_get_header_value hs (Some ''Transfer-Encoding'') True = ret (r1, te)" using h by blast
  obtain r2 cl where cl: "http_parser_get_header_value hs (Some ''Content-Length'') True = ret (r2, cl)"
      "\<forall>s. cl = Some s \<longrightarrow> length s \<le> n" using h by blast
  then have "\<exists>r v. parse_string_to_int cl True = Inr (r, v)" if "cl \<noteq> None"
    using that parse_int_total [of "the cl"] assms(2) by force
  then show ?thesis
    unfolding body_state_def te cl(1) out_bind_simps prod.case Let_def by auto
qed

section \<open>The units of work\<close>

context byte_stream
begin

abbreviation typed where "typed \<equiv> client_typed up unread"

abbreviation safe where "safe c w \<equiv> step_safe typed (fault_cause unread c w)"

lemma typed_parts:
  assumes "typed c w"
  shows "ready c w" "disposable c" "buf_view (hc_recv_buf c) = Inr (contents (hc_recv_buf c))"
    "int (length (contents (hc_recv_buf c))) = hd_size (hc_recv_buf c)" "length (contents (hc_recv_buf c)) < 2 ^ 31"
proof -
  have r: "ready c w" "disposable c" using assms by (simp_all add: client_typed_def)
  then have b: "buf_ok (hc_recv_buf c)" by (simp add: ready_def)
  then show "buf_view (hc_recv_buf c) = Inr (contents (hc_recv_buf c))" by (rule buf_view_ok)
  show "int (length (contents (hc_recv_buf c))) = hd_size (hc_recv_buf c)" by (rule contents_length [OF b])
  show "length (contents (hc_recv_buf c)) < 2 ^ 31" using r(1) by (simp add: ready_def stream_def)
  show "ready c w" "disposable c" by (rule r)+
qed

lemma typed_frame [simp]:
  "typed (c\<lparr>hc_resp := x\<rparr>) w = typed c w" "typed (c\<lparr>hc_retries := n\<rparr>) w = typed c w"
  "typed (c\<lparr>hc_content_length := n\<rparr>) w = typed c w" "typed (c\<lparr>hc_state := st\<rparr>) w = typed c w"
  "typed c (w\<lparr>w_alloc := a\<rparr>) = typed c w"
  by (simp_all add: client_typed_def ready_def stream_def alloc_frame)

lemma typed_in: "w_in w' = w_in w \<Longrightarrow> typed c w' = typed c w"
  using ready_frame [of w' w c] stream_frame [of w' w c] by (simp add: client_typed_def)

lemma typed_consume:
  assumes "typed c w" "0 \<le> k" "k \<le> hd_size (hc_recv_buf c)"
  shows "typed (c\<lparr>hc_recv_buf := buf_consume k (hc_recv_buf c)\<rparr>) w"
proof -
  let ?d = "buf_consume k (hc_recv_buf c)"
  have b: "buf_ok (hc_recv_buf c)" using typed_parts(1) [OF assms(1)] by (simp add: ready_def)
  note q = buf_consume_ok [OF b assms(2,3)]
  have "length (block_bytes (hd_addr ?d)) \<le> length (block_bytes (hd_addr (hc_recv_buf c)))"
    by (auto simp: buf_consume_def Let_def block_bytes_def min_def)
  then show ?thesis using assms(1) q by (auto simp: client_typed_def ready_def stream_def)
qed

text \<open>A read and an append, whatever comes.\<close>

lemma read_typed:
  assumes "typed c w" "0 < len" "client_read mb len c w = (n, bs, c1, w1)"
  obtains "n \<le> 0" "typed c1 w1" "hc_recv_buf c1 = hc_recv_buf c" "hc_content_length c1 = hc_content_length c" "hc_req c1 = hc_req c"
  | r c2 w2 where "0 < n" "client_append bs c1 w1 = Inr (r, c2, w2)" "typed c2 w2" "stream c2 w2 = stream c w" "0 \<le> r"
  | r c2 w2 where "0 < n" "client_append bs c1 w1 = Inr (r, c2, w2)" "r < 0" "disposable c2"
proof (rule client_read_cases [OF typed_parts(1) [OF assms(1)] assms(2,3)])
  fix t assume "c1 = c\<lparr>hc_transport := t\<rparr>" "n < 0" "ready c1 w1" "stream c1 w1 = stream c w"
  then show thesis using that(1) assms(1) by (simp add: client_typed_def)
next
  fix t assume "c1 = c\<lparr>hc_transport := t\<rparr>" "n = 0" "ready c1 w1" "stream c1 w1 = stream c w"
  then show thesis using that(1) assms(1) by (simp add: client_typed_def)
next
  fix t assume c1: "c1 = c\<lparr>hc_transport := t\<rparr>" "0 < n" "n = int (length bs)" "up t w1"
      "stream c w = contents (hc_recv_buf c) @ bs @ unread t w1"
  have ne: "bs \<noteq> []" using c1(2,3) by auto
  obtain ok a where m: "malloc (w_alloc w1) = (ok, a)" by (cases "malloc (w_alloc w1)")
  show thesis
  proof (cases ok)
    case True
    with m have m: "malloc (w_alloc w1) = (True, a)" by simp
    from append_read [OF typed_parts(1) [OF assms(1)] c1(1,4) ne c1(5) m] obtain d where d:
        "client_append bs c1 w1 = Inr (int (length bs), c1\<lparr>hc_recv_buf := d\<rparr>, w1\<lparr>w_alloc := a\<rparr>)"
        "ready (c1\<lparr>hc_recv_buf := d\<rparr>) (w1\<lparr>w_alloc := a\<rparr>)"
        "stream (c1\<lparr>hc_recv_buf := d\<rparr>) (w1\<lparr>w_alloc := a\<rparr>) = stream c w" by blast
    have inv: "block_inv (hd_addr (hc_recv_buf c)) (hd_size (hc_recv_buf c))"
      using typed_parts(1) [OF assms(1)] by (simp add: ready_def buf_ok_def)
    have l: "length (contents (hc_recv_buf c)) + length bs < 2 ^ 31"
      using typed_parts(1) [OF assms(1)] c1(5) by (simp add: ready_def)
    obtain b n' where "buffer_append (hd_addr (hc_recv_buf c)) (hd_size (hc_recv_buf c)) (Some bs) (w_alloc w1) =
        Inr (int (length bs), Some b, n', a)" "length b = nat (hd_size (hc_recv_buf c)) + length bs + 1"
      using buffer_append_granted [OF inv ne _ m] l by auto
    then have "length (block_bytes (hd_addr d)) = nat (hd_size (hc_recv_buf c)) + length bs + 1"
      using arg_cong [OF d(1), of "\<lambda>x. case x of Inr (_, c2, _) \<Rightarrow> hc_recv_buf c2"] c1(1) by (auto simp: client_append_def block_bytes_def)
    also have "\<dots> \<le> 2 ^ 31" using l typed_parts(4) [OF assms(1)] by simp
    finally have "typed (c1\<lparr>hc_recv_buf := d\<rparr>) (w1\<lparr>w_alloc := a\<rparr>)"
      using d(2,3) assms(1) c1(1) by (simp add: client_typed_def)
    then show thesis using that(2) [OF c1(2) d(1) _ d(3)] by simp
  next
    case False
    with m show thesis
      using that(3) [OF c1(2)] client_append_refused [OF ne, of w1 a c1] typed_parts(2) [OF assms(1)] c1(1) by (simp add: err_codes)
  qed
qed

lemma fill_safe:
  assumes "typed c w" "0 < len" "reading again"
  shows "step_safe typed F (client_fill mb len again c w)"
proof -
  obtain n bs c1 w1 where r: "client_read mb len c w = (n, bs, c1, w1)" by (metis prod_cases4)
  show ?thesis
    using assms(3) typed_parts(2)
    by (rule_tac read_typed [OF assms(1,2) r]) (auto simp: client_fill_def r)
qed

text \<open>The line in front of a line end.\<close>

lemma line_at:
  assumes "http_parser_find_line_end buf (length buf) = int i" "length buf < 2 ^ 31"
  shows "i + 2 \<le> length buf" "buf = take i buf @ CRLF @ drop (i + 2) buf"
proof -
  have i: "Suc i < length buf" "crlf_at buf i" using find_line_end_iff [OF assms(2) le_refl, of i] assms(1) by simp_all
  then show "i + 2 \<le> length buf" by simp
  have "drop i buf = buf ! i # buf ! Suc i # drop (i + 2) buf" using i(1) by (simp add: Cons_nth_drop_Suc)
  then have "drop i buf = CRLF @ drop (i + 2) buf" using i(2) by (simp add: crlf_at_def CRLF_def)
  then show "buf = take i buf @ CRLF @ drop (i + 2) buf" by (metis append_take_drop_id)
qed

lemma scan_work:
  assumes "typed c w" "hc_state c = HTTP_CLIENT_READING_FIRSTLINE"
  shows "safe c w (firstline_scan c w)"
proof -
  let ?buf = "contents (hc_recv_buf c)"
  let ?e = "http_parser_find_line_end ?buf (length ?buf)"
  note p = typed_parts [OF assms(1)]
  show ?thesis
  proof (cases "?buf = [] \<or> ?e < 0 \<or> ?e = 0 \<or> ?e \<ge> 1024")
    case True
    then show ?thesis using p assms(1) by (auto simp: firstline_scan_def Let_def)
  next
    case False
    then have "0 \<le> ?e" by simp
    then obtain i where i: "?e = int i" by (rule nonneg_int_cases)
    note l = line_at [OF i p(5)]
    have "safe c w (firstline_done ?buf i c w)"
    proof (cases "http_parser_response_firstline (Some ?buf) i (hc_resp c) (w_alloc w)")
      case (Inl f)
      have "i < 2 ^ 31" "i \<le> length ?buf" using l(1) p(5) by simp_all
      then have "f = NullDeref" "no_phrase (take i ?buf)" using firstline_fault [OF Inl] by simp_all
      moreover have "stream c w = take i ?buf @ CRLF @ drop (i + 2) ?buf @ unread (hc_transport c) w"
        using l(2) by (simp add: stream_def)
      ultimately show ?thesis using Inl assms(2) by (auto simp: firstline_done_def fault_cause_def)
    next
      case (Inr x)
      obtain r resp a where x: "x = (r, resp, a)" by (cases x)
      have k: "0 \<le> int i + 2" "int i + 2 \<le> hd_size (hc_recv_buf (c\<lparr>hc_resp := resp\<rparr>))" using l(1) p(4) by simp_all
      have "typed (c\<lparr>hc_resp := resp\<rparr>) (w\<lparr>w_alloc := a\<rparr>)" using assms(1) by simp
      from typed_consume [OF this k] show ?thesis using Inr x p(2) by (simp add: firstline_done_def Let_def)
    qed
    then show ?thesis using p(3) False i by (simp add: firstline_scan_def Let_def)
  qed
qed

lemma fault_stream: "hc_state c2 = hc_state c \<Longrightarrow> hc_state c = HTTP_CLIENT_READING_FIRSTLINE \<Longrightarrow> stream c2 w2 = stream c w \<Longrightarrow>
    fault_cause unread c2 w2 f \<Longrightarrow> fault_cause unread c w f"
  by (auto simp: fault_cause_def)

lemma read_state: "client_read mb len c w = (n, bs, c1, w1) \<Longrightarrow> hc_state c1 = hc_state c"
  and append_state: "client_append bs c w = Inr (r, c2, w2) \<Longrightarrow> hc_state c2 = hc_state c"
  by (auto simp: client_read_def client_append_def split: prod.splits sum.splits)

lemma firstline_work:
  assumes "typed c w" "hc_state c = HTTP_CLIENT_READING_FIRSTLINE"
  shows "safe c w (http_client_worktask_read_firstline mb c w)"
proof -
  obtain n bs c1 w1 where r: "client_read mb 8095 c w = (n, bs, c1, w1)" by (metis prod_cases4)
  note def = http_client_worktask_read_firstline_def [of mb c w, unfolded r prod.case]
  show ?thesis
  proof (rule read_typed [OF assms(1) _ r])
    fix s c2 w2 assume a: "0 < n" "client_append bs c1 w1 = Inr (s, c2, w2)" "typed c2 w2" "stream c2 w2 = stream c w" "0 \<le> s"
    then have st: "hc_state c2 = hc_state c" using read_state [OF r] append_state by metis
    then have "safe c w (firstline_scan c2 w2)"
      using step_safe_weaken [OF scan_work [OF a(3)]] fault_stream [OF st assms(2) a(4)] assms(2) by simp
    then show ?thesis unfolding def using a by simp
  qed (use def typed_parts(2) in auto)
qed

lemma headers_done_work:
  assumes "typed c w" "k \<le> length (contents (hc_recv_buf c))"
  shows "step_safe typed F (headers_done (contents (hc_recv_buf c)) k c w)"
proof -
  let ?buf = "contents (hc_recv_buf c)"
  note p = typed_parts [OF assms(1)]
  obtain req where req: "hc_req c = Some req" "req_wf req" using p(2) by (auto simp: disposable_def)
  obtain code lo a where h: "http_parser_headers (Some ?buf) k (Some (req_headers req)) (w_alloc w) = ret (code, lo, a)"
      "headers_post code lo"
    using headers_total [OF assms(2) p(5)] by blast
  have wf: "ll_wf l \<and> values_within (length ?buf) l" if "lo = Some l" for l
    using that h headers_within [OF assms(2) p(5)] by (auto simp: headers_post_def)
  let ?c = "c\<lparr>hc_req := Some (req\<lparr>req_headers := lo\<rparr>)\<rparr>" let ?w = "w\<lparr>w_alloc := a\<rparr>"
  have d: "disposable ?c" using req(2) wf by (auto simp: disposable_def req_wf_def)
  then have t: "typed ?c ?w" using assms(1) by (simp add: client_typed_def ready_def stream_def alloc_frame)
  have k: "0 \<le> int k" "int k \<le> hd_size (hc_recv_buf ?c)" using assms(2) p(4) by simp_all
  let ?d = "?c\<lparr>hc_recv_buf := buf_consume (int k) (hc_recv_buf ?c), hc_retries := 0\<rparr>"
  have td: "typed ?d ?w" using typed_consume [OF t k] by simp
  obtain st e where b: "body_state lo ?d = ret (st, e)" using body_state_fault [OF wf p(5)] by blast
  then have "typed e ?w" using body_state_frame [OF b] td by auto
  then have "step_safe typed F (ret (st, e, ?w))" using body_state_reading [OF b] typed_parts(2) by auto
  then show ?thesis using req(1) h(1) b d by (simp add: headers_done_def Let_def)
qed

lemma headers_work:
  assumes "typed c w"
  shows "step_safe typed F (http_client_worktask_read_headers mb c w)"
proof -
  let ?buf = "contents (hc_recv_buf c)"
  let ?e = "http_parser_find_headers_end ?buf (length ?buf)"
  note p = typed_parts [OF assms]
  have le: "nat ?e + 4 \<le> length ?buf" if "0 \<le> ?e"
    by (rule headers_end_cases [OF p(5) that]) simp
  obtain n bs c1 w1 where r: "client_read mb 1023 c w = (n, bs, c1, w1)" by (metis prod_cases4)
  show ?thesis
  proof (cases "hd_size (hc_recv_buf c) > 0 \<and> ?e \<ge> 0")
    case True
    then show ?thesis using p(3) headers_done_work [OF assms le] by (simp add: http_client_worktask_read_headers_def Let_def)
  next
    case False
    note def = http_client_worktask_read_headers_def [of mb c w, unfolded p(3) sum.case Let_def if_not_P [OF False] r prod.case]
    show ?thesis
    proof (rule read_typed [OF assms _ r])
      assume a: "n \<le> 0" "typed c1 w1" "hc_recv_buf c1 = hc_recv_buf c"
      then show ?thesis
        unfolding def using headers_done_work [OF a(2), of "nat ?e + 4"] le typed_parts(2) [OF a(2)] by auto
    qed (use def typed_parts(2) in auto)
  qed
qed

lemma last_chunk_work:
  assumes "typed c w"
  shows "step_safe typed F (last_chunk mb c w)"
proof -
  let ?buf = "contents (hc_recv_buf c)"
  let ?e = "http_parser_find_headers_end ?buf (length ?buf)"
  note p = typed_parts [OF assms]
  have "typed (c\<lparr>hc_recv_buf := buf_consume (?e + 4) (hc_recv_buf c)\<rparr>) w" if "0 \<le> ?e"
    by (rule headers_end_cases [OF p(5) that]) (use typed_consume [OF assms, of "?e + 4"] p(4) in simp)
  moreover have "typed (c\<lparr>hc_recv_buf := buf_consume 2 (hc_recv_buf c)\<rparr>) w" if "2 \<le> length ?buf"
    using typed_consume [OF assms, of 2] p(4) that by simp
  ultimately show ?thesis
    using p(2,3) fill_safe [OF assms, of 1023 HTTP_CLIENT_DECIPHER_CHONKINESS F] by (simp add: last_chunk_def Let_def)
qed

lemma parse_len_line:
  assumes "i \<le> length buf"
  shows "chunk_parse_len buf i = chunk_parse_len (take i buf) (length (take i buf))"
proof -
  have "find (\<lambda>j. buf ! j = CHR '';'' \<or> buf ! j = SP \<or> buf ! j = TAB) [0..<i] =
      find (\<lambda>j. take i buf ! j = CHR '';'' \<or> take i buf ! j = SP \<or> take i buf ! j = TAB) [0..<i]"
    by (rule find_cong [OF refl]) simp
  moreover have "length (take i buf) = i" using assms by simp
  ultimately show ?thesis by (simp only: chunk_parse_len_def)
qed

lemma decipher_work:
  assumes "typed c w" "hc_state c = HTTP_CLIENT_DECIPHER_CHONKINESS"
  shows "safe c w (http_client_worktask_decipher_chonkiness mb c w)"
proof -
  let ?buf = "contents (hc_recv_buf c)"
  let ?e = "http_parser_find_line_end ?buf (length ?buf)"
  note p = typed_parts [OF assms(1)]
  show ?thesis
  proof (cases "?e < 0")
    case True
    then show ?thesis
      using p(3) fill_safe [OF assms(1), of 1023 HTTP_CLIENT_DECIPHER_CHONKINESS]
      by (simp add: http_client_worktask_decipher_chonkiness_def Let_def)
  next
    case False
    then have "0 \<le> ?e" by simp
    then obtain i where i: "?e = int i" by (rule nonneg_int_cases)
    note l = line_at [OF i p(5)]
    let ?c = "c\<lparr>hc_recv_buf := buf_consume (int i + 2) (hc_recv_buf c)\<rparr>"
    have t: "typed ?c w" using typed_consume [OF assms(1), of "int i + 2"] l(1) p(4) by simp
    then have r: "typed (?c\<lparr>hc_chunk_remaining := c_size (c_int x)\<rparr>) w" for x
      by (simp add: client_typed_def ready_def stream_def chunk_range_cast)
    have "fault_cause unread c w OutOfBounds" if "48 \<le> chunk_parse_len ?buf i"
    proof -
      have "48 \<le> chunk_parse_len (take i ?buf) (length (take i ?buf))" using that parse_len_line [of i ?buf] l(1) by simp
      then show ?thesis unfolding fault_cause_def assms(2) HTTPClientState.case using l(2) by blast
    qed
    then show ?thesis
      using p(2,3) i last_chunk_work [OF t] r by (simp add: http_client_worktask_decipher_chonkiness_def Let_def split: option.splits)
  qed
qed

lemma chunk_end_work:
  assumes "typed c w"
  shows "step_safe typed F (chunk_end mb c w)"
  using typed_parts [OF assms] fill_safe [OF assms, of 1024 HTTP_CLIENT_READING_BODY_CHUNKED F] typed_consume [OF assms, of 2]
  by (simp add: chunk_end_def)

lemma decoded_typed:
  assumes "typed c w" "0 \<le> k" "k \<le> hd_size (hc_recv_buf c)" "length b = nat (hc_decoded_body_len c + k) + 1"
  shows "typed (c\<lparr>hc_decoded_body := Some b, hc_decoded_body_len := hc_decoded_body_len c + k,
      hc_recv_buf := buf_consume k (hc_recv_buf c), hc_chunk_remaining := 0\<rparr>) w"
proof -
  let ?d = "buf_consume k (hc_recv_buf c)"
  have b: "buf_ok (hc_recv_buf c)" using typed_parts(1) [OF assms(1)] by (simp add: ready_def)
  note q = buf_consume_ok [OF b assms(2,3)]
  have t: "typed (c\<lparr>hc_recv_buf := ?d\<rparr>) w" by (rule typed_consume [OF assms(1-3)])
  have "int (length (contents ?d)) + k = int (length (contents (hc_recv_buf c)))"
    using contents_length [OF b] contents_length [OF q(1)] q(3) by simp
  then have "hc_decoded_body_len c + k + int (length (contents ?d @ unread (hc_transport c) w)) < 2 ^ 31"
    using assms(1) by (simp add: client_typed_def stream_def)
  then show ?thesis
    using t assms(1,2,4) by (auto simp: client_typed_def ready_def stream_def chunk_range_def block_bytes_def)
qed

lemma chunked_work:
  assumes "typed c w" "hc_state c = HTTP_CLIENT_READING_BODY_CHUNKED"
  shows "safe c w (http_client_worktask_read_body_chunked mb c w)"
proof (cases "hd_size (hc_recv_buf c) < c_ssize (hc_chunk_remaining c)")
  case True
  then show ?thesis
    using fill_safe [OF assms(1), of 1023 HTTP_CLIENT_READING_BODY_CHUNKED] by (simp add: http_client_worktask_read_body_chunked_def)
next
  case False
  let ?k = "hc_chunk_remaining c" and ?old = "hc_decoded_body_len c"
  let ?blk = "block_bytes (hd_addr (hc_recv_buf c))"
  note p = typed_parts [OF assms(1)]
  have T: "length ?blk \<le> 2 ^ 31" "0 \<le> ?old" "?old + hd_size (hc_recv_buf c) < 2 ^ 31" "chunk_range ?k"
      "hd_size (hc_recv_buf c) \<le> int (length ?blk)"
    using assms(1) p(4) by (auto simp: client_typed_def ready_def stream_def buf_ok_def block_inv_def)
  obtain ok w1 where m: "w_malloc w = (ok, w1)" by (cases "w_malloc w")
  then obtain a where w1: "w1 = w\<lparr>w_alloc := a\<rparr>" by (auto simp: w_malloc_def)
  show ?thesis
  proof (cases "?k < 2 ^ 31")
    case small: True
    then have k: "0 \<le> ?k" "?k \<le> hd_size (hc_recv_buf c)" using False T(4) by (auto simp: chunk_range_def c_ssize_id)
    then have n: "c_size (?old + ?k) = ?old + ?k" "c_size (?old + ?k + 1) = ?old + ?k + 1" using T(2,3) by (auto simp: c_size_id)
    define new where "new = block_realloc (nat (?old + ?k + 1)) (hc_decoded_body c)"
    have l: "length new = nat (?old + ?k) + 1" using T(2) k(1) by (simp add: new_def block_realloc_def)
    define b where "b = (block_write new (nat ?old) (take (nat ?k) ?blk))[nat (?old + ?k) := NUL]"
    have "length b = nat (?old + ?k) + 1" using l T k by (simp add: b_def block_write_def)
    from decoded_typed [OF assms(1) k this] have "typed (c\<lparr>hc_decoded_body := Some b, hc_decoded_body_len := ?old + ?k,
        hc_recv_buf := buf_consume ?k (hc_recv_buf c), hc_chunk_remaining := 0\<rparr>) w1" unfolding w1 by simp
    from chunk_end_work [OF this] show ?thesis
      using False m p(2) n l T k by (simp add: http_client_worktask_read_body_chunked_def Let_def new_def [symmetric] b_def [symmetric])
  next
    case big: False
    then have "fault_cause unread c w OutOfBounds" using assms(2) by (simp add: fault_cause_def)
    moreover have "int (length ?blk) < ?k" using big T(1,4) by (auto simp: chunk_range_def)
    ultimately show ?thesis using False m p(2) by (simp add: http_client_worktask_read_body_chunked_def Let_def)
  qed
qed

lemma body_check_work: "typed c w \<Longrightarrow> step_safe typed F (body_check c w)"
  using typed_parts(2) by (auto simp: body_check_def)

lemma known_body_work:
  assumes "typed c w"
  shows "step_safe typed F (http_client_worktask_read_body mb c w)"
proof -
  obtain n bs c1 w1 where r: "client_read mb 1023 c w = (n, bs, c1, w1)" by (metis prod_cases4)
  note def = http_client_worktask_read_body_def [of mb c w, unfolded r prod.case]
  show ?thesis
    by (rule read_typed [OF assms _ r]) (use def typed_parts(2) body_check_work in auto)
qed

lemma source_total:
  assumes "typed c w"
  shows "\<exists>src. response_source c = Inr src"
  using assms typed_parts(3) [OF assms] by (auto simp: response_source_def client_typed_def buf_view_def)

lemma returning_work:
  assumes "typed c w"
  shows "step_safe typed F (http_client_worktask_returning c w)"
proof -
  obtain src where "response_source c = Inr src" using source_total [OF assms] by blast
  moreover have "response_source (c\<lparr>hc_blocking_out := z\<rparr>) = response_source c" for z by (simp add: response_source_def)
  ultimately show ?thesis
    using typed_parts(2) [OF assms]
    by (auto simp: http_client_worktask_returning_def Let_def split: option.splits prod.splits)
qed

lemma reading_work_safe:
  assumes "typed c w" "reading (hc_state c) \<or> hc_state c = HTTP_CLIENT_RETURNING"
  shows "safe c w (state_work mb c w)"
  using assms(2) firstline_work [OF assms(1)] headers_work [OF assms(1)] decipher_work [OF assms(1)] chunked_work [OF assms(1)]
    known_body_work [OF assms(1)] returning_work [OF assms(1)]
  by (auto simp: reading_def state_work_def)

text \<open>What holds between the calls of the task.\<close>

lemma run_typed:
  assumes "task_run mb s s'" "s = (c0, w0)" "typed c0 w0" "reading (hc_state c0)"
  shows "disposable (fst s') \<and> (hc_state (fst s') \<in> {HTTP_CLIENT_ERROR, HTTP_CLIENT_DISPOSING} \<or>
     (reading (hc_state (fst s')) \<or> hc_state (fst s') = HTTP_CLIENT_RETURNING) \<and> typed (fst s') (snd s'))"
  using assms(1,2)
proof (induction rule: task_run.induct)
  case (task_refl s)
  then show ?case using assms(3,4) typed_parts(2) by simp
next
  case (task_step s c w t c' w')
  have t: "typed c w" "reading (hc_state c) \<or> hc_state c = HTTP_CLIENT_RETURNING"
    using task_step.IH task_step.prems task_step.hyps(2) by auto
  let ?w = "snd (SystemMonotonicMS w)"
  have tw: "typed c ?w" using t(1) typed_in [of ?w w c] by simp
  show ?case
  proof (rule taskwork_cases [OF task_step.hyps(3,2)])
    assume "c' = c" "w' = ?w"
    then show ?thesis using tw t(2) typed_parts(2) by simp
  next
    fix st c1 assume "state_work mb c ?w = ret (st, c1, w')" "c' = c1\<lparr>hc_state := st\<rparr>"
    then show ?thesis using reading_work_safe [OF tw t(2)] by (auto simp: step_safe_def)
  qed
qed

end

text \<open>A call of the task returns, or faults only for \<open>F\<close>.\<close>

definition call_safe :: "(fault \<Rightarrow> bool) \<Rightarrow> 'a out \<Rightarrow> bool" where
  "call_safe F r \<longleftrightarrow> (case r of None \<Rightarrow> False | Some (Inl f) \<Rightarrow> F f | Some (Inr _) \<Rightarrow> True)"

lemma dispose_returns: "disposable c \<Longrightarrow> \<exists>x. http_client_dispose mb (Some c) w = ret x"
  by (auto simp: disposable_def http_client_dispose_def Let_def dispose_req_wf split: prod.splits)

lemma call_safe_taskwork:
  assumes "disposable c" "hc_state c \<notin> {HTTP_CLIENT_ERROR, HTTP_CLIENT_DISPOSING} \<Longrightarrow>
      call_safe F (state_work mb c (snd (SystemMonotonicMS w)))"
  shows "call_safe F (http_client_taskwork mb (Some c) t w)"
proof -
  obtain now w0 where m: "SystemMonotonicMS w = (now, w0)" by (cases "SystemMonotonicMS w")
  have s: "call_safe F r \<Longrightarrow> call_safe F (set_state r)" for r
    by (auto simp: call_safe_def set_state_def out_bind_def split: option.splits sum.splits prod.splits)
  have r: "call_safe F (ret x)" for x by (simp add: call_safe_def)
  show ?thesis
    using assms m s [of "state_work mb c w0"] r dispose_returns [OF assms(1), of mb w0]
    by (cases "hc_state c") (auto simp: http_client_taskwork_def state_work_def Let_def)
qed

context byte_stream
begin

lemma call_typed:
  assumes "typed c w" "reading (hc_state c) \<or> hc_state c = HTTP_CLIENT_RETURNING"
  shows "call_safe (fault_cause unread c w) (http_client_taskwork mb (Some c) t w)"
proof (rule call_safe_taskwork [OF typed_parts(2) [OF assms(1)]])
  let ?w = "snd (SystemMonotonicMS w)"
  have "typed c ?w" using assms(1) typed_in [of ?w w c] by simp
  then have "safe c ?w (state_work mb c ?w)" using reading_work_safe assms(2) by blast
  moreover have "fault_cause unread c ?w = fault_cause unread c w" using stream_frame [of ?w w c]
    by (cases "hc_state c") (simp_all add: fault_cause_def fun_eq_iff)
  ultimately show "call_safe (fault_cause unread c w) (state_work mb c ?w)"
    by (auto simp: step_safe_def call_safe_def split: option.splits sum.splits)
qed

lemma run_safe:
  assumes "task_run mb (c, w) (c', w')" "typed c w" "reading (hc_state c)"
  shows "(hc_state c' \<in> {HTTP_CLIENT_ERROR, HTTP_CLIENT_DISPOSING} \<or> typed c' w') \<and>
     call_safe (fault_cause unread c' w') (http_client_taskwork mb (Some c') t w')"
proof (cases "hc_state c' \<in> {HTTP_CLIENT_ERROR, HTTP_CLIENT_DISPOSING}")
  case True
  then show ?thesis using run_typed [OF assms(1) refl assms(2,3)] call_safe_taskwork [of c'] by auto
next
  case False
  then show ?thesis using run_typed [OF assms(1) refl assms(2,3)] call_typed by auto
qed

end

section \<open>A hostile server\<close>

text \<open>C4: the client keeps its type invariant whatever the server sends. From the moment the request has been sent
  over a plain connection, for any bytes of the server (fewer than 2^31), any errors of the socket and any failing
  allocations, along every run of the task by the scheduler the buffers hold what their size fields say, the numbers stay
  in range and the lists can be released; and the next call returns, or faults for one of the three causes of
  \<open>fault_cause\<close>: a status line whose code has no phrase, a chunk size line of 48 bytes or more, a chunk size whose
  low 32 bits are negative.\<close>

theorem hostile_response_safe:
  assumes "client_typed plain_up plain_unread c w" "reading (hc_state c)" "task_run mb (c, w) (c', w')"
  shows "(hc_state c' \<in> {HTTP_CLIENT_ERROR, HTTP_CLIENT_DISPOSING} \<or> client_typed plain_up plain_unread c' w') \<and>
     call_safe (fault_cause plain_unread c' w') (http_client_taskwork mb (Some c') t w')"
  using plain.run_safe [OF assms(3,1,2)] .

definition hostile_client :: "nat HTTP_Client" where
  "hostile_client = (zero_client mb_example)\<lparr>hc_state := HTTP_CLIENT_READING_FIRSTLINE, hc_on_success := True,
     hc_req := Some zero_request, hc_resp := Some zero_response,
     hc_transport := (zero_transport mb_example)\<lparr>tr_tcp := zero_tcp\<lparr>tcp_fd := 3\<rparr>\<rparr>\<rparr>"

definition hostile_world :: world where
  "hostile_world = (world0 0)\<lparr>w_in := (\<lambda>_. [])(3 := [Data (''HTTP/1.1 200 OK'' @ CRLF @ ''Transfer-Encoding: chunked'' @
     CRLF @ CRLF @ replicate 48 (CHR ''0'') @ CRLF), RxEof])\<rparr>"

lemma map_sum_Inl: "map_sum id g z = Inl x \<Longrightarrow> z = Inl x"
  by (cases z) auto

text \<open>A chunk size line of 48 digits: the client is well typed and the next call writes outside of its line array.\<close>

theorem hostile_response_safe_witness:
  "\<exists>c' w'. task_run mb_example (hostile_client, hostile_world) (c', w') \<and> client_typed plain_up plain_unread c' w' \<and>
     http_client_taskwork mb_example (Some c') 0 w' = fault OutOfBounds \<and> fault_cause plain_unread c' w' OutOfBounds"
proof -
  have t: "client_typed plain_up plain_unread hostile_client hostile_world" "reading (hc_state hostile_client)"
    by (simp_all add: client_typed_def client_ready_def stream_of_def hostile_client_def hostile_world_def plain_up_def
        plain_unread_def zero_client_def zero_transport_def world0_def chunk_range_def disposable_def req_wf_def zero_request_def
        CRLF_def block_bytes_def empty_data_def contents_def block_contents_def buf_ok_def block_inv_def)
  have "map_option (\<lambda>(c, w). (hc_state c, map_option (map_sum id (\<lambda>_. ())) (http_client_taskwork mb_example (Some c) 0 w)))
      (task_iter mb_example 2 hostile_client hostile_world) = Some (HTTP_CLIENT_DECIPHER_CHONKINESS, Some (Inl OutOfBounds))" by code_simp
  then obtain c' w' where i: "task_iter mb_example 2 hostile_client hostile_world = Some (c', w')"
      "hc_state c' = HTTP_CLIENT_DECIPHER_CHONKINESS" "http_client_taskwork mb_example (Some c') 0 w' = fault OutOfBounds"
    by (auto simp: case_prod_unfold dest!: map_sum_Inl)
  have r: "task_run mb_example (hostile_client, hostile_world) (c', w')" by (rule task_iter_run [OF task_run.task_refl i(1)])
  show ?thesis
    using hostile_response_safe [OF t r, of 0] r i(2,3) by (auto simp: call_safe_def)
qed

end
