(* ===== verification/TLS_Stream.thy ===== *)
theory TLS_Stream imports HTTP_Response HTTP_Safety
begin

text \<open>
  The client over TLS (\<^verbatim>\<open>modules/src/tls_client.c\<close>, \<^verbatim>\<open>modules/src/transport.c\<close>): with what Mbed TLS documents of
  \<^verbatim>\<open>mbedtls_ssl_read\<close> the encrypted transport meets the contract \<open>byte_stream\<close>, so what is shown of the
  response over a plain connection holds over HTTPS.
\<close>

section \<open>The library\<close>

text \<open>
  \<open>live c w\<close>: the session of the TLS client \<open>c\<close> is established. \<open>pending c w\<close>: the plaintext its peer has still to
  deliver. A positive result of \<^verbatim>\<open>mbedtls_ssl_read\<close> is the number of bytes of plaintext stored, in order; any other
  result stores nothing and loses nothing; zero (end of the connection) and the peer's close notification mean that
  nothing is left. The library leaves the client's own memory and callback alone, and a session depends on nothing but
  what its peer sends.
\<close>

definition ssl_reads ::
  "'s mbedtls \<Rightarrow> ('s TLS_Client \<Rightarrow> world \<Rightarrow> bool) \<Rightarrow> ('s TLS_Client \<Rightarrow> world \<Rightarrow> byte list) \<Rightarrow> bool" where
  "ssl_reads mb live pending \<longleftrightarrow>
     (\<forall>c w len res bs s w'. live c w \<and> 0 < len \<and>
        mb_read mb (tls_bio_send mb c) (tls_bio_recv mb c) len (tls_ssl c) w = (res, bs, s, w') \<longrightarrow>
        live (c\<lparr>tls_ssl := s\<rparr>) w' \<and> w_alloc w' = w_alloc w \<and> w_delivered w' = w_delivered w \<and>
        (if 0 < res
         then res = int (length bs) \<and> length bs \<le> len \<and> pending c w = bs @ pending (c\<lparr>tls_ssl := s\<rparr>) w'
         else pending (c\<lparr>tls_ssl := s\<rparr>) w' = pending c w \<and>
           (res = 0 \<or> res = MBEDTLS_ERR_SSL_PEER_CLOSE_NOTIFY mb \<longrightarrow> pending c w = []))) \<and>
     (\<forall>c w w'. w_in w' = w_in w \<longrightarrow> live c w' = live c w \<and> pending c w' = pending c w)"

definition tls_up :: "('s TLS_Client \<Rightarrow> world \<Rightarrow> bool) \<Rightarrow> 's Transport \<Rightarrow> world \<Rightarrow> bool" where
  "tls_up live t w \<longleftrightarrow> tr_use_tls t \<and> live (tr_tls t) w"

definition tls_unread :: "('s TLS_Client \<Rightarrow> world \<Rightarrow> byte list) \<Rightarrow> 's Transport \<Rightarrow> world \<Rightarrow> byte list" where
  "tls_unread pending t w = pending (tr_tls t) w"

lemma ssl_readsD:
  assumes "ssl_reads mb live pending" "live c w" "0 < len"
    and "mb_read mb (tls_bio_send mb c) (tls_bio_recv mb c) len (tls_ssl c) w = (res, bs, s, w')"
  shows "live (c\<lparr>tls_ssl := s\<rparr>) w' \<and> w_alloc w' = w_alloc w \<and> w_delivered w' = w_delivered w \<and>
     (if 0 < res
      then res = int (length bs) \<and> length bs \<le> len \<and> pending c w = bs @ pending (c\<lparr>tls_ssl := s\<rparr>) w'
      else pending (c\<lparr>tls_ssl := s\<rparr>) w' = pending c w \<and>
        (res = 0 \<or> res = MBEDTLS_ERR_SSL_PEER_CLOSE_NOTIFY mb \<longrightarrow> pending c w = []))"
  using assms(2-4) conjunct1 [OF assms(1) [unfolded ssl_reads_def]] by blast

lemma ssl_frame: "ssl_reads mb live pending \<Longrightarrow> w_in w' = w_in w \<Longrightarrow> live c w' = live c w \<and> pending c w' = pending c w"
  unfolding ssl_reads_def by blast

lemma ssl_read_law:
  assumes "ssl_reads mb live pending" "live c w" "0 < len" "tls_client_read mb (Some c) len w = (n, bs, tls, w')"
  shows "\<exists>d. tls = Some d \<and> live d w' \<and> w_alloc w' = w_alloc w \<and> w_delivered w' = w_delivered w \<and>
     (n < 0 \<and> pending d w' = pending c w \<or> n = 0 \<and> pending c w = [] \<and> pending d w' = [] \<or>
      0 < n \<and> n = int (length bs) \<and> length bs \<le> len \<and> pending c w = bs @ pending d w')"
proof -
  obtain res bs1 s w1 where r: "mb_read mb (tls_bio_send mb c) (tls_bio_recv mb c) len (tls_ssl c) w = (res, bs1, s, w1)"
    by (metis prod_cases4)
  let ?d = "c\<lparr>tls_ssl := s\<rparr>"
  note k = ssl_readsD [OF assms(1-3) r]
  have f: "live ?d (w1\<lparr>w_errno := e\<rparr>) = live ?d w1" "pending ?d (w1\<lparr>w_errno := e\<rparr>) = pending ?d w1" for e
    using ssl_frame [OF assms(1), of "w1\<lparr>w_errno := e\<rparr>" w1 ?d] by simp_all
  show ?thesis
    using assms(4) r k f by (auto simp: tls_client_read_def Let_def split: if_splits)
qed

lemma tls_stream:
  assumes "ssl_reads mb live pending"
  shows "byte_stream mb (tls_up live) (tls_unread pending)"
proof (unfold_locales, goal_cases)
  case (1 t w len n bs t' w')
  obtain res bs1 tls w1 where r: "tls_client_read mb (Some (tr_tls t)) len w = (res, bs1, tls, w1)" by (metis prod_cases4)
  have u: "tr_use_tls t" "live (tr_tls t) w" using 1(1) by (simp_all add: tls_up_def)
  from ssl_read_law [OF assms u(2) 1(2) r] obtain d where d: "tls = Some d" "live d w1" "w_alloc w1 = w_alloc w"
      "w_delivered w1 = w_delivered w"
      "res < 0 \<and> pending d w1 = pending (tr_tls t) w \<or> res = 0 \<and> pending (tr_tls t) w = [] \<and> pending d w1 = [] \<or>
       0 < res \<and> res = int (length bs1) \<and> length bs1 \<le> len \<and> pending (tr_tls t) w = bs1 @ pending d w1" by blast
  have o: "t' = Some (t\<lparr>tr_tls := d\<rparr>)" "w' = w1" "0 \<le> res \<Longrightarrow> n = res \<and> bs = bs1" "res < 0 \<Longrightarrow> n < 0"
    using 1(3) u(1) r d(1) by (simp_all add: transport_read_def Let_def err_codes split: if_splits)
  have "tls_up live (t\<lparr>tr_tls := d\<rparr>) w'" using u(1) d(2) o(2) by (simp add: tls_up_def)
  moreover have "n < 0 \<and> tls_unread pending (t\<lparr>tr_tls := d\<rparr>) w' = tls_unread pending t w \<or>
      n = 0 \<and> tls_unread pending t w = [] \<and> tls_unread pending (t\<lparr>tr_tls := d\<rparr>) w' = [] \<or>
      0 < n \<and> n = int (length bs) \<and> length bs \<le> len \<and> tls_unread pending t w = bs @ tls_unread pending (t\<lparr>tr_tls := d\<rparr>) w'"
    using d(5) o(2-4) by (elim disjE) (auto simp: tls_unread_def)
  ultimately show ?case using o(1,2) d(3,4) by blast
next
  case (2 w' w t)
  then show ?case using ssl_frame [OF assms, of w' w "tr_tls t"] by (simp add: tls_up_def tls_unread_def)
qed

section \<open>HTTPS\<close>

text \<open>C6: a whole response over HTTPS. Given what Mbed TLS documents of \<^verbatim>\<open>mbedtls_ssl_read\<close>, a client that has sent its
  request over an established session and a server that answers with a status line of a known code, clean header fields
  and the body (not empty, chunked bodies without trailer fields) they announce, in any split into records: along every run of the
  task no call faults or hangs, nothing is handed to the callback early, and if the run ends with success then the callback was called
  exactly once, with exactly the body; a run that fails hands out nothing. Not every run succeeds: a
  split in the terminator of a chunked body makes the client fail (\<open>split_terminator\<close>). The client never takes an error
  of the library, a retry or a closed session for the end of the body.\<close>

theorem https_response_exact:
  assumes "ssl_reads mb live pending"
    and "response_begins (tls_up live) (tls_unread pending) v code phrase hs payload c w" "announces hs payload body"
    and "task_run mb (c, w) (c', w')"
  shows "w_delivered w' =
       w_delivered w @ (if hc_state c' = HTTP_CLIENT_DISPOSING then [(hc_context c, body)] else []) \<and>
     (hc_state c' \<in> {HTTP_CLIENT_ERROR, HTTP_CLIENT_DISPOSING} \<or>
      (\<forall>t. \<exists>c2 w2. http_client_taskwork mb (Some c') t w' = ret (Some c2, w2)))"
  by (rule byte_stream.run_delivers [OF tls_stream [OF assms(1)] assms(2-)])

text \<open>A hostile server over HTTPS can do no more than over a plain connection.\<close>

theorem https_hostile_safe:
  assumes "ssl_reads mb live pending" "client_typed (tls_up live) (tls_unread pending) c w" "reading (hc_state c)"
    and "task_run mb (c, w) (c', w')"
  shows "(hc_state c' \<in> {HTTP_CLIENT_ERROR, HTTP_CLIENT_DISPOSING} \<or> client_typed (tls_up live) (tls_unread pending) c' w') \<and>
     call_safe (fault_cause (tls_unread pending) c' w') (http_client_taskwork mb (Some c') t w')"
  by (rule byte_stream.run_safe [OF tls_stream [OF assms(1)] assms(4,2,3)])

text \<open>The session of the example library passes the bytes of the socket through.\<close>

definition live_example :: "nat TLS_Client \<Rightarrow> world \<Rightarrow> bool" where
  "live_example c w \<longleftrightarrow> tls_bio c = transport_bio (zero_tcp\<lparr>tcp_fd := 3\<rparr>)"

definition pending_example :: "nat TLS_Client \<Rightarrow> world \<Rightarrow> byte list" where
  "pending_example c w = rx_bytes (w_in w 3)"

lemma ssl_reads_example: "ssl_reads mb_example live_example pending_example"
proof -
  have law: "live_example (c\<lparr>tls_ssl := s\<rparr>) w' \<and> w_alloc w' = w_alloc w \<and> w_delivered w' = w_delivered w \<and>
     (if 0 < res
      then res = int (length bs) \<and> length bs \<le> len \<and> pending_example c w = bs @ pending_example (c\<lparr>tls_ssl := s\<rparr>) w'
      else pending_example (c\<lparr>tls_ssl := s\<rparr>) w' = pending_example c w \<and>
        (res = 0 \<or> res = MBEDTLS_ERR_SSL_PEER_CLOSE_NOTIFY mb_example \<longrightarrow> pending_example c w = []))"
    if a: "live_example c w" "0 < len"
      "mb_read mb_example (tls_bio_send mb_example c) (tls_bio_recv mb_example c) len (tls_ssl c) w = (res, bs, s, w')"
    for c w len res bs s w'
  proof -
    obtain n b v where r: "sys_recv 3 len w = (n, b, v)" by (metis prod_cases3)
    have e: "w' = v" "bs = b" "0 < n \<Longrightarrow> res = n" "n \<le> 0 \<Longrightarrow> res \<in> {-29312, -26880, -27648}"
      using a(1,3) r
      by (auto simp: mb_example_def live_example_def tls_bio_recv_def transport_bio_def transport_bio_recv_def
          tcp_client_read_simple_def split: if_splits)
    have f: "w_alloc v = w_alloc w" "w_delivered v = w_delivered w" using sys_recv_frame [OF r] by simp_all
    have c: "MBEDTLS_ERR_SSL_PEER_CLOSE_NOTIFY mb_example = -30848" by (simp add: mb_example_def)
    show ?thesis
      by (rule sys_recv_cases [OF r a(2)]) (use a(1) e f c in \<open>auto simp: live_example_def pending_example_def\<close>)
  qed
  have frame: "live_example c w' = live_example c w \<and> pending_example c w' = pending_example c w" if "w_in w' = w_in w" for c w w'
    using that by (simp add: live_example_def pending_example_def)
  show ?thesis
    unfolding ssl_reads_def by (intro conjI allI impI; (elim conjE)?) (use law frame in blast)+
qed

definition https_client :: "nat HTTP_Client" where
  "https_client = response_example\<lparr>hc_transport := (zero_transport mb_example)\<lparr>tr_use_tls := True,
     tr_tls := (zero_tls mb_example)\<lparr>tls_bio := transport_bio (zero_tcp\<lparr>tcp_fd := 3\<rparr>), tls_handshake_done := 1\<rparr>\<rparr>\<rparr>"

theorem https_response_exact_witness:
  "\<exists>c' w'. task_run mb_example (https_client, response_world) (c', w') \<and> w_delivered w' = [(7, ''abcde'')]"
proof -
  have b: "response_begins (tls_up live_example) (tls_unread pending_example) ''HTTP/1.1'' 200 ''OK'' [(''Content-Length'', ''5'')]
      ''abcde'' https_client response_world"
    using start_begins [OF response_example_start] response_example_length
    by (simp add: response_begins_def client_ready_def stream_of_def plain_unread_def tls_up_def tls_unread_def live_example_def
        pending_example_def https_client_def response_example_def fresh_body_def zero_transport_def zero_tcp_def)
  have "map_option (\<lambda>(c, w). hc_state c) (task_iter mb_example 9 https_client response_world) =
      Some HTTP_CLIENT_DISPOSING" by code_simp
  then obtain c' w' where i: "task_iter mb_example 9 https_client response_world = Some (c', w')"
      "hc_state c' = HTTP_CLIENT_DISPOSING" by (auto simp: case_prod_unfold)
  have r: "task_run mb_example (https_client, response_world) (c', w')"
    by (rule task_iter_run [OF task_run.task_refl i(1)])
  then show ?thesis
    using https_response_exact [OF ssl_reads_example b response_example_announces r] i(2)
    by (auto simp: response_world_def world0_def https_client_def response_example_def)
qed

end
