(* ===== verification/HTTP_Clients.thy ===== *)
theory HTTP_Clients imports HTTP_Tasks HTTP_Safety
begin

text \<open>
  Many clients at once: the scheduler (\<^verbatim>\<open>modules/src/scheduler.c\<close>) interleaves the tasks of any number of clients
  (\<^verbatim>\<open>modules/src/http_client.c\<close>), each on a connection of its own. The locale \<open>task_table\<close> of the theory \<open>Scheduler\<close> is what the scheduler asks of
  its tasks; it is interpreted here on the callback of the clients. A client changes nothing that another one depends
  on, so each of them gets its own response.
\<close>

section \<open>What a unit of work leaves alone\<close>

text \<open>Other connections and, as long as memory is granted, the heap.\<close>

definition apart :: "int \<Rightarrow> world \<Rightarrow> world \<Rightarrow> bool" where
  "apart fd w w' \<longleftrightarrow> (\<forall>f. f \<noteq> fd \<longrightarrow> w_in w' f = w_in w f) \<and> (w_alloc w = [] \<longrightarrow> w_alloc w' = [])"

definition step_apart :: "int \<Rightarrow> world \<Rightarrow> 's step \<Rightarrow> bool" where
  "step_apart fd w r \<longleftrightarrow> (\<forall>st c w'. r = ret (st, c, w') \<longrightarrow> apart fd w w')"

lemma apart_refl [simp]: "apart fd w w"
  by (simp add: apart_def)

lemma apart_trans: "apart fd w v \<Longrightarrow> apart fd v w' \<Longrightarrow> apart fd w w'"
  by (simp add: apart_def)

lemma step_apart_simps [simp]:
  "step_apart fd w (ret (st, c, w')) = apart fd w w'" "step_apart fd w (fault f)" "step_apart fd w None"
  by (simp_all add: step_apart_def)

lemma step_apart_trans: "apart fd w v \<Longrightarrow> step_apart fd v r \<Longrightarrow> step_apart fd w r"
  using apart_trans by (auto simp: step_apart_def)

lemma step_apart_if: "(b \<Longrightarrow> step_apart fd w r) \<Longrightarrow> (\<not> b \<Longrightarrow> step_apart fd w s) \<Longrightarrow> step_apart fd w (if b then r else s)"
  by simp

lemma malloc_apart: "w_malloc w = (ok, w') \<Longrightarrow> apart fd w w'"
  by (auto simp: w_malloc_def apart_def split: prod.splits)

lemma read_apart:
  assumes "\<not> tr_use_tls (hc_transport c)" "client_read mb len c w = (n, bs, c1, w1)"
  shows "c1 = c \<and> apart (tcp_fd (tr_tcp (hc_transport c))) w w1"
  using plain_read [OF assms] sys_recv_frame(2,7) [OF plain_read(2) [OF assms]] by (simp add: apart_def)

lemma append_apart: "client_append bs c w = Inr (r, c', w') \<Longrightarrow> hc_transport c' = hc_transport c \<and> apart fd w w'"
  by (auto simp: client_append_def buffer_append_def apart_def Let_def split: sum.splits prod.splits if_splits)

lemma firstline_alloc: "http_parser_response_firstline line n resp [] = Inr (r, resp', a) \<Longrightarrow> a = []"
  by (auto simp: http_parser_response_firstline_def Let_def strdup_def split: option.splits prod.splits if_splits sum.splits)

lemma item_add_alloc: "linked_list_item_add l x [] = Inr (r, p, l', a) \<Longrightarrow> a = []"
  by (auto simp: linked_list_item_add_def Let_def split: option.splits)

lemma header_loop_alloc:
  assumes "header_loop buf n start l [] = ret (code, lo, a')"
  shows "a' = []"
proof -
  have "a = [] \<longrightarrow> (\<forall>code lo a'. r = Inr (code, lo, a') \<longrightarrow> a' = [])" if "header_loop buf n start l a = Some r" for a r
  proof (rule header_loop.raw_induct [OF _ that, where P = "\<lambda>buf n start l a r. a = [] \<longrightarrow> (\<forall>code lo a'. r = Inr (code, lo, a') \<longrightarrow> a' = [])"],
      goal_cases)
    case (1 loop buf n start l a y)
    show ?case
    proof (intro impI allI)
      fix code lo a' assume "a = []" "y = Inr (code, lo, a')"
      then show "a' = []"
        using 1(2)
        by (auto simp: Let_def headers_fail_def out_bind_def strdup_def
            split: if_splits option.splits prod.splits sum.splits dest!: item_add_alloc dest: 1(1))
    qed
  qed
  then show ?thesis using assms by blast
qed

lemma headers_alloc: "http_parser_headers b n ho [] = ret (r, headers, a) \<Longrightarrow> a = []"
  using header_loop_alloc by (auto simp: http_parser_headers_def linked_list_create_def split: option.splits if_splits)

section \<open>The reading states\<close>

lemma fill_apart:
  assumes "\<not> tr_use_tls (hc_transport c)"
  shows "step_apart (tcp_fd (tr_tcp (hc_transport c))) w (client_fill mb len again c w)"
proof -
  obtain n bs c1 w1 where r: "client_read mb len c w = (n, bs, c1, w1)" by (metis prod_cases4)
  note k = read_apart [OF assms r]
  show ?thesis
    using k by (auto simp: client_fill_def r step_apart_def split: sum.splits if_splits dest: append_apart intro: apart_trans)
qed

lemma firstline_apart:
  assumes "\<not> tr_use_tls (hc_transport c)"
  shows "step_apart (tcp_fd (tr_tcp (hc_transport c))) w (http_client_worktask_read_firstline mb c w)"
proof -
  have scan: "step_apart fd v (firstline_scan d v)" for fd d v
    by (auto simp: firstline_scan_def firstline_done_def step_apart_def apart_def Let_def
        split: sum.splits if_splits prod.splits dest: firstline_alloc)
  obtain n bs c1 w1 where r: "client_read mb 8095 c w = (n, bs, c1, w1)" by (metis prod_cases4)
  note k = read_apart [OF assms r]
  show ?thesis
    using k
    by (auto simp: http_client_worktask_read_firstline_def r split: sum.splits dest!: append_apart [where fd = "tcp_fd (tr_tcp (hc_transport c))"] intro: apart_trans step_apart_trans [OF _ scan] step_apart_trans [OF apart_trans scan])
qed

lemma headers_apart:
  assumes "\<not> tr_use_tls (hc_transport c)"
  shows "step_apart (tcp_fd (tr_tcp (hc_transport c))) w (http_client_worktask_read_headers mb c w)"
proof -
  have hd: "step_apart fd v (headers_done buf k d v)" for fd buf k d v
    by (auto simp: headers_done_def step_apart_def apart_def out_bind_eq_ret Let_def
        split: option.splits if_splits prod.splits dest: headers_alloc)
  obtain n bs c1 w1 where r: "client_read mb 1023 c w = (n, bs, c1, w1)" by (metis prod_cases4)
  note k = read_apart [OF assms r]
  show ?thesis
    using k hd step_apart_trans [OF _ hd]
    by (auto simp: http_client_worktask_read_headers_def r Let_def split: sum.splits dest!: append_apart [where fd = "tcp_fd (tr_tcp (hc_transport c))"] intro: apart_trans)
qed

lemma chunks_apart:
  assumes "\<not> tr_use_tls (hc_transport c)"
  shows "step_apart (tcp_fd (tr_tcp (hc_transport c))) w (http_client_worktask_decipher_chonkiness mb c w)"
    "step_apart (tcp_fd (tr_tcp (hc_transport c))) w (http_client_worktask_read_body_chunked mb c w)"
proof -
  let ?fd = "tcp_fd (tr_tcp (hc_transport c))"
  have fill: "step_apart ?fd v (client_fill mb len again d v)" if "hc_transport d = hc_transport c" for len again d v
    using fill_apart [of d v mb len again] assms that by simp
  have "step_apart ?fd v (last_chunk mb d v)" if "hc_transport d = hc_transport c" for d v
    using fill [OF that] by (auto simp: last_chunk_def Let_def split: sum.splits)
  then show "step_apart ?fd w (http_client_worktask_decipher_chonkiness mb c w)"
    using fill by (auto simp: http_client_worktask_decipher_chonkiness_def Let_def split: sum.splits option.splits)
  have e: "step_apart ?fd v (chunk_end mb d v)" if "hc_transport d = hc_transport c" for d v
    using fill [OF that] by (auto simp: chunk_end_def Let_def split: sum.splits)
  obtain ok v where m: "w_malloc w = (ok, v)" by (cases "w_malloc w")
  note a = malloc_apart [OF m, of ?fd]
  show "step_apart ?fd w (http_client_worktask_read_body_chunked mb c w)"
    using fill a step_apart_trans [OF a e] by (auto simp: http_client_worktask_read_body_chunked_def m Let_def)
qed

lemma body_apart:
  assumes "\<not> tr_use_tls (hc_transport c)"
  shows "step_apart (tcp_fd (tr_tcp (hc_transport c))) w (http_client_worktask_read_body mb c w)"
proof -
  have bc: "step_apart fd v (body_check d v)" for fd d v by (simp add: body_check_def)
  obtain n bs c1 w1 where r: "client_read mb 1023 c w = (n, bs, c1, w1)" by (metis prod_cases4)
  note k = read_apart [OF assms r]
  show ?thesis
    using k
    by (auto simp: http_client_worktask_read_body_def r split: sum.splits dest!: append_apart [where fd = "tcp_fd (tr_tcp (hc_transport c))"] intro: apart_trans step_apart_trans [OF _ bc] step_apart_trans [OF apart_trans bc])
qed

lemma returning_apart: "step_apart fd w (http_client_worktask_returning c w)"
proof -
  obtain ok v where m: "w_malloc w = (ok, v)" by (cases "w_malloc w")
  then show ?thesis
    using malloc_apart [OF m, of fd]
    by (auto simp: http_client_worktask_returning_def Let_def apart_def split: option.splits sum.splits)
qed

lemma work_apart:
  assumes "\<not> tr_use_tls (hc_transport c)" "reading (hc_state c) \<or> hc_state c = HTTP_CLIENT_RETURNING"
  shows "step_apart (tcp_fd (tr_tcp (hc_transport c))) w (state_work mb c w)"
  using assms(2) firstline_apart [OF assms(1)] headers_apart [OF assms(1)] chunks_apart [OF assms(1)] body_apart [OF assms(1)]
    returning_apart
  by (auto simp: reading_def state_work_def)

section \<open>Clients with a response on its way\<close>

record exchange =
  ex_version :: cstring
  ex_code :: int
  ex_phrase :: cstring
  ex_headers :: "(cstring \<times> cstring) list"
  ex_payload :: "byte list"
  ex_body :: "byte list"
  ex_context :: nat

definition ex_ok :: "exchange \<Rightarrow> bool" where
  "ex_ok e \<longleftrightarrow> known_status (ex_version e) (ex_code e) (ex_phrase e) \<and> list_all clean_header (ex_headers e) \<and> ex_headers e \<noteq> [] \<and>
     announces (ex_headers e) (ex_payload e) (ex_body e) \<and> length (ex_payload e) < 2 ^ 31"

definition client_fd :: "'s HTTP_Client \<Rightarrow> int" where
  "client_fd c = tcp_fd (tr_tcp (hc_transport c))"

text \<open>What the callback of the context \<open>k\<close> was given after the first \<open>n\<close> calls of callbacks.\<close>

definition got :: "nat \<Rightarrow> nat \<Rightarrow> world \<Rightarrow> byte list list" where
  "got k n w = map snd (filter (\<lambda>d. fst d = k) (drop n (w_delivered w)))"

definition waiting :: "exchange \<Rightarrow> 's HTTP_Client \<Rightarrow> world \<Rightarrow> bool" where
  "waiting e c w \<longleftrightarrow>
     (reading (hc_state c) \<or> hc_state c = HTTP_CLIENT_RETURNING) \<and> \<not> hc_blocking_mode c \<and> hc_on_success c \<and>
     client_typed plain_up plain_unread c w \<and>
     whole_I (status_line (ex_version e) (dec_str (nat (ex_code e))) (ex_phrase e)) (ex_headers e) (ex_payload e) (ex_body e) c w"

definition client_fine :: "exchange \<Rightarrow> nat \<Rightarrow> 's HTTP_Client \<Rightarrow> world \<Rightarrow> bool" where
  "client_fine e n c w \<longleftrightarrow> hc_context c = ex_context e \<and>
     (waiting e c w \<and> got (hc_context c) n w = [] \<or>
      hc_state c \<in> {HTTP_CLIENT_ERROR, HTTP_CLIENT_DISPOSING} \<and>
        (hc_task c = None \<or> disposable c \<and> \<not> tr_use_tls (hc_transport c)) \<and> got (hc_context c) n w \<in> {[], [ex_body e]})"

text \<open>How a call changes the system.\<close>

definition call_effect :: "exchange \<Rightarrow> nat \<Rightarrow> 's HTTP_Client \<Rightarrow> world \<Rightarrow> 's HTTP_Client \<Rightarrow> world \<Rightarrow> bool" where
  "call_effect e i c w c' w' \<longleftrightarrow>
     hc_context c' = hc_context c \<and> w_alloc w' = [] \<and>
     (if hc_state c \<in> {HTTP_CLIENT_ERROR, HTTP_CLIENT_DISPOSING}
      then w_in w' = w_in w \<and> hc_state c' \<in> {HTTP_CLIENT_ERROR, HTTP_CLIENT_DISPOSING}
      else hc_transport c' = hc_transport c \<and> (\<forall>f. f \<noteq> client_fd c \<longrightarrow> w_in w' f = w_in w f)) \<and>
     (w_delivered w' = w_delivered w \<or> w_delivered w' = w_delivered w @ [(hc_context c, ex_body e)]) \<and>
     (w_sched w' = w_sched w \<and> hc_task c' = hc_task c \<or> w_sched w' = (w_sched w)[i := idle_task] \<and> hc_task c' = None)"

lemma got_simps:
  "w_delivered w' = w_delivered w \<Longrightarrow> got k n w' = got k n w"
  "w_delivered w' = w_delivered w @ [(k', b)] \<Longrightarrow> n \<le> length (w_delivered w) \<Longrightarrow>
     got k n w' = got k n w @ (if k' = k then [b] else [])"
  by (simp_all add: got_def)

lemma waiting_frame:
  assumes "w_in w' (client_fd c) = w_in w (client_fd c)" "w_alloc w' = w_alloc w" "waiting e c w"
  shows "waiting e c w'"
proof -
  have u: "plain_unread (hc_transport c) w' = plain_unread (hc_transport c) w"
    using assms(1) by (simp add: plain_unread_def client_fd_def)
  then have f: "stream_of plain_unread c w' = stream_of plain_unread c w"
      "client_ready plain_up plain_unread c w' = client_ready plain_up plain_unread c w"
    by (simp_all add: stream_of_def client_ready_def plain_up_def)
  have "response_inv plain_up plain_unread body (hc_state c) c w \<Longrightarrow> response_inv plain_up plain_unread body (hc_state c) c w'" for body
    by (cases "hc_state c") (simp_all add: response_inv_def chunk_inv_def body_inv_def f)
  then have "whole_I line hs payload body c w \<Longrightarrow> whole_I line hs payload body c w'" for line hs payload body
    using assms(2) f by (cases "hc_state c") (simp_all add: whole_I_def whole_inv_def)
  moreover have "client_typed plain_up plain_unread c w' = client_typed plain_up plain_unread c w" by (simp add: client_typed_def f)
  ultimately show ?thesis using assms(3) by (simp add: waiting_def)
qed

lemma fine_frame:
  assumes "client_fine e n c w" "got (hc_context c) n w' = got (hc_context c) n w" "w_alloc w' = w_alloc w"
    and "hc_state c \<notin> {HTTP_CLIENT_ERROR, HTTP_CLIENT_DISPOSING} \<Longrightarrow> w_in w' (client_fd c) = w_in w (client_fd c)"
  shows "client_fine e n c w'"
proof (cases "hc_state c \<in> {HTTP_CLIENT_ERROR, HTTP_CLIENT_DISPOSING}")
  case True
  then show ?thesis using assms(1,2) by (auto simp: client_fine_def waiting_def reading_def)
next
  case False
  then show ?thesis using assms waiting_frame [OF assms(4,3)] by (auto simp: client_fine_def)
qed

lemma waiting_work:
  assumes "waiting e c w" "ex_ok e" "w_alloc w = []"
  shows "\<exists>st c' w'. state_work mb c w = ret (st, c', w') \<and> call_effect e i c w (c'\<lparr>hc_state := st\<rparr>) w' \<and>
     hc_task c' = hc_task c \<and> w_sched w' = w_sched w \<and>
     (st = HTTP_CLIENT_DISPOSING \<and> disposable c' \<and> \<not> tr_use_tls (hc_transport c') \<and>
        w_delivered w' = w_delivered w @ [(hc_context c, ex_body e)] \<or>
      st = HTTP_CLIENT_ERROR \<and> disposable c' \<and> \<not> tr_use_tls (hc_transport c') \<and> w_delivered w' = w_delivered w \<or>
      waiting e (c'\<lparr>hc_state := st\<rparr>) w' \<and> w_delivered w' = w_delivered w)"
proof -
  let ?l = "status_line (ex_version e) (dec_str (nat (ex_code e))) (ex_phrase e)"
  have s: "reading (hc_state c) \<or> hc_state c = HTTP_CLIENT_RETURNING" "\<not> hc_blocking_mode c" "hc_on_success c"
      "client_typed plain_up plain_unread c w" "whole_I ?l (ex_headers e) (ex_payload e) (ex_body e) c w"
    using assms(1) by (simp_all add: waiting_def)
  then have n: "hc_state c \<notin> {HTTP_CLIENT_ERROR, HTTP_CLIENT_DISPOSING}" by (auto simp: reading_def)
  have tls: "\<not> tr_use_tls (hc_transport c)" using s(4) by (simp add: client_typed_def client_ready_def plain_up_def)
  have ex: "known_status (ex_version e) (ex_code e) (ex_phrase e)" "list_all clean_header (ex_headers e)" "ex_headers e \<noteq> []"
      "announces (ex_headers e) (ex_payload e) (ex_body e)" using assms(2) by (simp_all add: ex_ok_def)
  have b: "ex_body e \<noteq> []" "length (ex_body e) < 2 ^ 31" using announces_body [OF ex(4)] assms(2) by (simp_all add: ex_ok_def)
  obtain st c' w' where r: "state_work mb c w = ret (st, c', w')" "same_job c c'"
      "st = HTTP_CLIENT_DISPOSING \<and> w_delivered w' = w_delivered w @ [(hc_context c, ex_body e)] \<or>
       st \<noteq> HTTP_CLIENT_DISPOSING \<and> w_delivered w' = w_delivered w \<and>
        (st = HTTP_CLIENT_ERROR \<or> whole_I ?l (ex_headers e) (ex_payload e) (ex_body e) (c'\<lparr>hc_state := st\<rparr>) w')"
    using plain.whole_work [OF s(5) [unfolded whole_I_def] ex b s(2,3) n, of mb] by (auto simp: whole_I_def)
  have k: "sent_kept c w c' w'" by (rule reading_work_sent [OF r(1) tls]) (use s(1) in \<open>auto simp: reading_def\<close>)
  have a: "apart (client_fd c) w w'" using work_apart [OF tls s(1), of w mb] r(1) by (simp add: client_fd_def)
  have t: "disposable c'" "st \<in> {HTTP_CLIENT_ERROR, HTTP_CLIENT_DISPOSING} \<or>
      (reading st \<or> st = HTTP_CLIENT_RETURNING) \<and> client_typed plain_up plain_unread c' w'"
    using plain.reading_work_safe [OF s(4,1), of mb] r(1) by (simp_all add: step_safe_def)
  have e: "call_effect e i c w (c'\<lparr>hc_state := st\<rparr>) w'"
    using k a r(2,3) n assms(3) by (auto simp: call_effect_def sent_kept_def apart_def same_job_def)
  have "waiting e (c'\<lparr>hc_state := st\<rparr>) w'" if "st \<notin> {HTTP_CLIENT_ERROR, HTTP_CLIENT_DISPOSING}"
    using that t(2) r(2,3) s(2,3) by (auto simp: waiting_def same_job_def)
  then show ?thesis using r(1,3) e k t(1) tls by (auto simp: sent_kept_def)
qed

lemma dispose_effect:
  assumes "disposable c" "\<not> tr_use_tls (hc_transport c)" "hc_task c = Some i" "i < length (w_sched w)"
  obtains c' w' where "http_client_dispose mb (Some c) w = ret (Some c', w')" "hc_context c' = hc_context c" "hc_state c' = hc_state c"
    "hc_task c' = None" "w_sched w' = (w_sched w)[i := idle_task]" "w_in w' = w_in w" "w_alloc w' = w_alloc w" "w_delivered w' = w_delivered w"
proof -
  let ?v = "scheduler_destroy_task (Some i) w"
  have v: "w_sched ?v = (w_sched w)[i := idle_task]" "w_in ?v = w_in w" "w_alloc ?v = w_alloc w" "w_delivered ?v = w_delivered w"
    using assms(4) by (simp_all add: destroy_task_simp)
  obtain t' w' where t: "transport_dispose mb (Some (hc_transport c)) ?v = (t', w')" by (cases "transport_dispose mb (Some (hc_transport c)) ?v")
  then have w': "w_sched w' = w_sched ?v" "w_in w' = w_in ?v" "w_alloc w' = w_alloc ?v" "w_delivered w' = w_delivered ?v"
    using assms(2) by (auto simp: transport_dispose_def tcp_client_dispose_def sys_close_def Let_def split: prod.splits if_splits)
  obtain r where r: "hc_req c = Some r" "req_wf r" using assms(1) by (auto simp: disposable_def)
  have "\<exists>c'. http_client_dispose mb (Some c) w = ret (Some c', w') \<and> hc_context c' = hc_context c \<and> hc_state c' = hc_state c \<and> hc_task c' = None"
    using assms(3) r t by (simp add: http_client_dispose_def Let_def dispose_req_wf)
  then show thesis using that v w' by force
qed

text \<open>One call of the task of a client.\<close>

lemma client_call:
  assumes "client_fine e n c w" "ex_ok e" "w_alloc w = []" "hc_task c = Some i" "i < length (w_sched w)" "n \<le> length (w_delivered w)"
  shows "\<exists>c' w'. http_client_taskwork mb (Some c) t w = ret (Some c', w') \<and> client_fine e n c' w' \<and> call_effect e i c w c' w'"
proof -
  obtain now v where m: "SystemMonotonicMS w = (now, v)" by (cases "SystemMonotonicMS w")
  note f = monotonic_frame [of w, unfolded m snd_conv]
  have v: "w_in v = w_in w" "w_alloc v = w_alloc w" "w_sched v = w_sched w" "w_delivered v = w_delivered w" using f by simp_all
  have fv: "client_fine e n c v" by (rule fine_frame [OF assms(1)]) (use v in \<open>simp_all add: got_def\<close>)
  have lift: "call_effect e i c w c' w'" if "call_effect e i c v c' w'" for c' w'
    unfolding call_effect_def by (rule that [unfolded call_effect_def v])
  consider (go) "waiting e c v" "got (hc_context c) n v = []" | (error) "hc_state c = HTTP_CLIENT_ERROR" | (gone) "hc_state c = HTTP_CLIENT_DISPOSING"
    using fv by (auto simp: client_fine_def)
  then show ?thesis
  proof cases
    case go
    have al: "w_alloc v = []" using assms(3) v(2) by simp
    from waiting_work [OF go(1) assms(2) al, of mb i] obtain st c' w' where r: "state_work mb c v = ret (st, c', w')"
        "call_effect e i c v (c'\<lparr>hc_state := st\<rparr>) w'"
        "st = HTTP_CLIENT_DISPOSING \<and> disposable c' \<and> \<not> tr_use_tls (hc_transport c') \<and>
           w_delivered w' = w_delivered v @ [(hc_context c, ex_body e)] \<or>
         st = HTTP_CLIENT_ERROR \<and> disposable c' \<and> \<not> tr_use_tls (hc_transport c') \<and> w_delivered w' = w_delivered v \<or>
         waiting e (c'\<lparr>hc_state := st\<rparr>) w' \<and> w_delivered w' = w_delivered v" by blast
    have ctx: "hc_context c' = hc_context c" "hc_context c = ex_context e" using r(2) fv by (simp_all add: call_effect_def client_fine_def)
    have "n \<le> length (w_delivered v)" using assms(6) v(4) by simp
    then have fine: "client_fine e n (c'\<lparr>hc_state := st\<rparr>) w'"
      using r(3) go(2) ctx got_simps(1) [of w' v] got_simps(2) [of w' v "hc_context c" "ex_body e" n "hc_context c"]
      by (auto simp: client_fine_def)
    have run: "http_client_taskwork mb (Some c) t w \<in> {ret (Some c, v), set_state (state_work mb c v)}"
      using m go(1) by (cases "hc_state c") (auto simp: http_client_taskwork_def state_work_def waiting_def reading_def Let_def)
    have same: "call_effect e i c v c v"
      using al by (auto simp: call_effect_def)
    show ?thesis using run r(1) fine lift [OF r(2)] fv lift [OF same] by (auto simp: set_state_def)
  next
    case error
    then have "http_client_taskwork mb (Some c) t w = ret (Some (c\<lparr>hc_state := HTTP_CLIENT_DISPOSING\<rparr>), v)"
      using m by (simp add: http_client_taskwork_def)
    moreover have "client_fine e n (c\<lparr>hc_state := HTTP_CLIENT_DISPOSING\<rparr>) v"
      using fv error by (auto simp: client_fine_def waiting_def reading_def)
    moreover have "call_effect e i c v (c\<lparr>hc_state := HTTP_CLIENT_DISPOSING\<rparr>) v" using error assms(3) v(2) by (simp add: call_effect_def)
    ultimately show ?thesis using lift by blast
  next
    case gone
    then have d: "disposable c" "\<not> tr_use_tls (hc_transport c)" "got (hc_context c) n v \<in> {[], [ex_body e]}"
      using fv assms(4) by (auto simp: client_fine_def waiting_def reading_def)
    have i: "i < length (w_sched v)" using assms(5) v(3) by simp
    obtain c' w' where r: "http_client_dispose mb (Some c) v = ret (Some c', w')" "hc_context c' = hc_context c" "hc_state c' = hc_state c"
        "hc_task c' = None" "w_sched w' = (w_sched v)[i := idle_task]" "w_in w' = w_in v" "w_alloc w' = w_alloc v" "w_delivered w' = w_delivered v"
      by (rule dispose_effect [OF d(1,2) assms(4) i])
    have "http_client_taskwork mb (Some c) t w = ret (Some c', w')" using m gone r(1) by (simp add: http_client_taskwork_def)
    moreover have "client_fine e n c' w'" using d(3) r(2-4,8) gone fv by (simp add: client_fine_def got_def)
    moreover have "call_effect e i c v c' w'" using r(2-8) gone assms(3) v(2) by (simp add: call_effect_def)
    ultimately show ?thesis using lift by blast
  qed
qed

section \<open>The table of clients\<close>

definition client_slot :: "nat \<Rightarrow> Scheduler_Task" where
  "client_slot a = \<lparr>st_context = Some a, st_callback = Some HTTP_TASKWORK\<rparr>"

text \<open>\<open>es\<close> gives the exchange of the client at each address; \<open>n\<close> is the number of calls of callbacks before.\<close>

definition table_ok :: "(nat \<Rightarrow> exchange option) \<Rightarrow> 's clients \<Rightarrow> world \<Rightarrow> bool" where
  "table_ok es h w \<longleftrightarrow>
     (\<forall>i < length (w_sched w). w_sched w ! i = idle_task \<or>
        (\<exists>a c. w_sched w ! i = client_slot a \<and> es a \<noteq> None \<and> h a = Some c \<and> hc_task c = Some i))"

definition own_lines :: "(nat \<Rightarrow> exchange option) \<Rightarrow> 's clients \<Rightarrow> bool" where
  "own_lines es h \<longleftrightarrow>
     (\<forall>a b c d. es a \<noteq> None \<and> es b \<noteq> None \<and> a \<noteq> b \<and> h a = Some c \<and> h b = Some d \<longrightarrow>
        hc_context c \<noteq> hc_context d \<and>
        (hc_state c \<notin> {HTTP_CLIENT_ERROR, HTTP_CLIENT_DISPOSING} \<and> hc_state d \<notin> {HTTP_CLIENT_ERROR, HTTP_CLIENT_DISPOSING} \<longrightarrow>
           client_fd c \<noteq> client_fd d))"

definition own_responses :: "(nat \<Rightarrow> exchange option) \<Rightarrow> (nat \<times> byte list) list \<Rightarrow> bool" where
  "own_responses es ds \<longleftrightarrow> (\<forall>x \<in> set ds. \<exists>a e. es a = Some e \<and> x = (ex_context e, ex_body e))"

definition clients_inv :: "(nat \<Rightarrow> exchange option) \<Rightarrow> (nat \<times> byte list) list \<Rightarrow> 's clients \<Rightarrow> world \<Rightarrow> bool" where
  "clients_inv es D h w \<longleftrightarrow>
     w_alloc w = [] \<and> table_ok es h w \<and> own_lines es h \<and>
     (\<exists>new. w_delivered w = D @ new \<and> own_responses es new) \<and>
     (\<forall>a e. es a = Some e \<longrightarrow> ex_ok e \<and> (\<exists>c. h a = Some c \<and> client_fine e (length D) c w))"

lemma table_ok_call:
  assumes "table_ok es h w" "w_sched w ! i = client_slot a" "i < length (w_sched w)" "h a = Some c" "hc_task c = Some i"
    and "call_effect e i c w c' w'"
  shows "table_ok es (h(a \<mapsto> c')) w' \<and> length (w_sched w') = length (w_sched w)"
proof -
  have one: "j = i" if "j < length (w_sched w)" "w_sched w ! j = client_slot a" for j
    using assms(1) that assms(4,5) by (auto simp: table_ok_def client_slot_def idle_task_def)
  have s: "w_sched w' = w_sched w \<and> hc_task c' = hc_task c \<or> w_sched w' = (w_sched w)[i := idle_task] \<and> hc_task c' = None"
    using assms(6) by (simp add: call_effect_def)
  then have l: "length (w_sched w') = length (w_sched w)" by auto
  have "w_sched w' ! j = idle_task \<or>
      (\<exists>b d. w_sched w' ! j = client_slot b \<and> es b \<noteq> None \<and> (h(a \<mapsto> c')) b = Some d \<and> hc_task d = Some j)"
    if j: "j < length (w_sched w')" for j
  proof (cases "j = i \<and> w_sched w' = (w_sched w)[i := idle_task]")
    case True
    then show ?thesis using assms(3) by simp
  next
    case False
    then have e: "w_sched w' ! j = w_sched w ! j" "j = i \<Longrightarrow> hc_task c' = hc_task c" using s by auto
    have "j < length (w_sched w)" using j l by simp
    then consider "w_sched w ! j = idle_task" | b d where "w_sched w ! j = client_slot b" "es b \<noteq> None" "h b = Some d" "hc_task d = Some j"
      using assms(1) by (auto simp: table_ok_def)
    then show ?thesis
    proof cases
      case (2 b d)
      show ?thesis
      proof (cases "b = a")
        case True
        then have "j = i" using one 2(1) \<open>j < length (w_sched w)\<close> by simp
        then have "hc_task c' = Some j" using e(2) assms(5) by simp
        then show ?thesis using 2(1,2) e(1) True by (intro disjI2 exI [of _ a] exI [of _ c']) simp
      next
        case False
        then show ?thesis using 2 e(1) by (intro disjI2 exI [of _ b] exI [of _ d]) simp
      qed
    qed (use e in simp)
  qed
  then show ?thesis using l by (simp add: table_ok_def)
qed

lemma own_lines_call:
  assumes "own_lines es h" "h a = Some c" "call_effect e i c w c' w'"
  shows "own_lines es (h(a \<mapsto> c'))"
proof -
  have c: "hc_context c' = hc_context c"
      "hc_state c' \<notin> {HTTP_CLIENT_ERROR, HTTP_CLIENT_DISPOSING} \<Longrightarrow>
         hc_state c \<notin> {HTTP_CLIENT_ERROR, HTTP_CLIENT_DISPOSING} \<and> client_fd c' = client_fd c"
    using assms(3) by (auto simp: call_effect_def client_fd_def split: if_splits)
  show ?thesis
    unfolding own_lines_def
  proof (intro allI impI)
    fix b b' d d'
    assume h: "es b \<noteq> None \<and> es b' \<noteq> None \<and> b \<noteq> b' \<and> (h(a \<mapsto> c')) b = Some d \<and> (h(a \<mapsto> c')) b' = Some d'"
    let ?o = "\<lambda>b d. if b = a then c else d"
    have "h b = Some (?o b d)" "h b' = Some (?o b' d')" using h assms(2) by (auto split: if_splits)
    then have "hc_context (?o b d) \<noteq> hc_context (?o b' d') \<and>
        (hc_state (?o b d) \<notin> {HTTP_CLIENT_ERROR, HTTP_CLIENT_DISPOSING} \<and> hc_state (?o b' d') \<notin> {HTTP_CLIENT_ERROR, HTTP_CLIENT_DISPOSING} \<longrightarrow>
           client_fd (?o b d) \<noteq> client_fd (?o b' d'))"
      using assms(1) h unfolding own_lines_def by blast
    then show "hc_context d \<noteq> hc_context d' \<and>
        (hc_state d \<notin> {HTTP_CLIENT_ERROR, HTTP_CLIENT_DISPOSING} \<and> hc_state d' \<notin> {HTTP_CLIENT_ERROR, HTTP_CLIENT_DISPOSING} \<longrightarrow>
           client_fd d \<noteq> client_fd d')"
      using h c by (auto split: if_splits)
  qed
qed

lemma own_call:
  assumes "w_delivered w = D @ new" "own_responses es new" "es a = Some e" "hc_context c = ex_context e" "call_effect e i c w c' w'"
  shows "\<exists>new. w_delivered w' = D @ new \<and> own_responses es new"
proof -
  have "w_delivered w' = w_delivered w \<or> w_delivered w' = w_delivered w @ [(ex_context e, ex_body e)]"
    using assms(4,5) by (simp add: call_effect_def)
  then consider "w_delivered w' = D @ new" | "w_delivered w' = D @ new @ [(ex_context e, ex_body e)]" using assms(1) by auto
  then show ?thesis
  proof cases
    case 2
    have "own_responses es (new @ [(ex_context e, ex_body e)])" using assms(2,3) by (auto simp: own_responses_def)
    then show ?thesis using 2 by blast
  qed (use assms(2) in blast)
qed

lemma others_call:
  assumes "own_lines es h" "es a = Some e" "h a = Some c" "call_effect e i c w c' w'" "w_alloc w = []" "n \<le> length (w_delivered w)"
    and "es b = Some e'" "h b = Some d" "client_fine e' n d w" "b \<noteq> a"
  shows "client_fine e' n d w'"
proof (rule fine_frame [OF assms(9)])
  have u: "hc_context c \<noteq> hc_context d"
      "hc_state c \<notin> {HTTP_CLIENT_ERROR, HTTP_CLIENT_DISPOSING} \<and> hc_state d \<notin> {HTTP_CLIENT_ERROR, HTTP_CLIENT_DISPOSING} \<Longrightarrow>
         client_fd c \<noteq> client_fd d"
    using assms(1,2,3,7,8,10) unfolding own_lines_def by blast+
  show "got (hc_context d) n w' = got (hc_context d) n w"
    using assms(4,6) u(1) got_simps(1) [of w' w] got_simps(2) [of w' w "hc_context c" "ex_body e" n "hc_context d"]
    by (auto simp: call_effect_def)
  show "w_alloc w' = w_alloc w" using assms(4,5) by (simp add: call_effect_def)
  show "w_in w' (client_fd d) = w_in w (client_fd d)" if "hc_state d \<notin> {HTTP_CLIENT_ERROR, HTTP_CLIENT_DISPOSING}"
    using assms(4) u(2) that by (auto simp: call_effect_def split: if_splits)
qed

lemma table_call:
  assumes "clients_inv es D h w" "i < length (w_sched w)" "st_callback (w_sched w ! i) = Some cb"
  shows "\<exists>h' w'. client_callbacks mb cb (st_context (w_sched w ! i)) t (h, w) = ret (h', w') \<and> clients_inv es D h' w' \<and>
     length (w_sched w') = length (w_sched w) \<and> (\<forall>j. j \<noteq> i \<longrightarrow> w_sched w' ! j = w_sched w ! j)"
proof -
  let ?n = "length D"
  obtain new where I: "w_alloc w = []" "w_delivered w = D @ new" "table_ok es h w" "own_lines es h" "own_responses es new"
      "\<And>a e. es a = Some e \<Longrightarrow> ex_ok e \<and> (\<exists>c. h a = Some c \<and> client_fine e ?n c w)"
    using assms(1) by (auto simp: clients_inv_def)
  have n: "?n \<le> length (w_delivered w)" using I(2) by simp
  obtain a c e where a: "w_sched w ! i = client_slot a" "es a = Some e" "h a = Some c" "hc_task c = Some i"
    using I(3) assms(2,3) by (auto simp: table_ok_def idle_task_def)
  have f: "ex_ok e" "client_fine e ?n c w" using I(6) [OF a(2)] a(3) by auto
  then have x: "hc_context c = ex_context e" by (simp add: client_fine_def)
  obtain c' w' where r: "http_client_taskwork mb (Some c) t w = ret (Some c', w')" "client_fine e ?n c' w'" "call_effect e i c w c' w'"
    using client_call [OF f(2,1) I(1) a(4) assms(2) n, of mb t] by blast
  have "client_callbacks mb cb (st_context (w_sched w ! i)) t (h, w) = ret (h(a \<mapsto> c'), w')"
    using a(1,3) r(1) by (simp add: client_callbacks_def client_slot_def)
  moreover have "ex_ok e' \<and> (\<exists>d. (h(a \<mapsto> c')) b = Some d \<and> client_fine e' ?n d w')" if "es b = Some e'" for b e'
    using I(6) [OF that] that a(2) r(2) others_call [OF I(4) a(2,3) r(3) I(1) n that] by (cases "b = a") auto
  moreover have "w_alloc w' = []" "\<forall>j. j \<noteq> i \<longrightarrow> w_sched w' ! j = w_sched w ! j" using r(3) by (auto simp: call_effect_def)
  ultimately show ?thesis
    using table_ok_call [OF I(3) a(1) assms(2) a(3,4) r(3)] own_lines_call [OF I(4) a(3) r(3)] own_call [OF I(2,5) a(2) x r(3)]
    by (auto simp: clients_inv_def)
qed

lemma table_clock:
  assumes "clients_inv es D h w" "w_in w' = w_in w" "w_alloc w' = w_alloc w" "w_sched w' = w_sched w" "w_delivered w' = w_delivered w"
  shows "clients_inv es D h w'"
proof -
  have f: "client_fine e n c w'" if "client_fine e n c w" for e c n
    by (rule fine_frame [OF that]) (use assms in \<open>simp_all add: got_def\<close>)
  have "table_ok es h w'" using assms(1,4) by (simp add: clients_inv_def table_ok_def)
  then show ?thesis using assms f unfolding clients_inv_def by fastforce
qed

interpretation clients: task_order "client_callbacks mb" "clients_inv es D" for mb es D
proof (unfold_locales, goal_cases)
  case (1 h w i cb t)
  then show ?case using table_call [of es D h w i cb mb t] by blast
next
  case (2 h w)
  then show ?case by (rule table_clock) simp_all
next
  case (3 h w ms)
  then show ?case by (rule table_clock) (simp_all add: ms_sleep_def sys_nanosleep_def)
next
  case (4 h w i cb t h' w' j)
  then show ?case using table_call [of es D h w i cb mb t] by auto
qed

text \<open>Every client whose task is in the table is called once in a pass, in the order of the slots, also when clients before it
  dispose of themselves in the same pass.\<close>

lemma clients_called_in_order:
  assumes "clients_inv es D h w"
  shows "\<exists>h' w' met. scheduler_work (client_callbacks mb) t (h, w) = ret (h', w') \<and> length met = length (w_sched w) \<and>
     scheduler_work (logged (client_callbacks mb)) t ((h, []), w) = ret ((h', calls_of t met), w') \<and>
     (\<forall>j < length (w_sched w). task_live (w_sched w ! j) \<longrightarrow> met ! j = w_sched w ! j)"
  using clients.pass_calls [OF assms] by blast

section \<open>Many clients\<close>

text \<open>Clients that have sent their requests and wait in the table of the scheduler, each with a connection and a context of its own.\<close>

definition clients_ready :: "(nat \<Rightarrow> exchange option) \<Rightarrow> 's clients \<Rightarrow> world \<Rightarrow> bool" where
  "clients_ready es h w \<longleftrightarrow>
     w_alloc w = [] \<and> table_ok es h w \<and> own_lines es h \<and>
     (\<forall>a e. es a = Some e \<longrightarrow> ex_ok e \<and>
        (\<exists>c. h a = Some c \<and> hc_context c = ex_context e \<and> disposable c \<and> hc_chunk_remaining c = 0 \<and>
           response_start (ex_version e) (ex_code e) (ex_phrase e) (ex_headers e) (ex_payload e) c w))"

lemma start_waiting:
  assumes "response_start (ex_version e) (ex_code e) (ex_phrase e) (ex_headers e) (ex_payload e) c w" "disposable c"
    and "hc_chunk_remaining c = 0"
  shows "waiting e c w"
proof -
  note b = start_begins [OF assms(1)]
  have s: "hc_recv_buf c = empty_data" "fresh_body c" "length (stream_of plain_unread c w) < 2 ^ 31"
      "client_ready plain_up plain_unread c w"
    using assms(1) conjunct1 [OF conjunct2 [OF b [unfolded response_begins_def]]] by (auto simp: response_start_def client_ready_def)
  have "client_typed plain_up plain_unread c w"
    using s assms(2,3) by (simp add: client_typed_def fresh_body_def chunk_range_def empty_data_def block_bytes_def)
  then show ?thesis using b plain.begins_inv(1) [OF b] by (simp add: waiting_def response_begins_def whole_I_def)
qed

lemma ready_inv: "clients_ready es h w \<Longrightarrow> clients_inv es (w_delivered w) h w"
  using start_waiting by (fastforce simp: clients_ready_def clients_inv_def client_fine_def own_responses_def got_def)

lemma distinct_keys: "(\<And>x. x \<in> set xs \<Longrightarrow> length (filter (\<lambda>y. f y = f x) xs) \<le> 1) \<Longrightarrow> distinct (map f xs)"
proof (induction xs)
  case (Cons x xs)
  have "f x \<notin> f ` set xs" using Cons.prems [of x] by (auto simp: filter_empty_conv)
  moreover have "length (filter (\<lambda>z. f z = f y) xs) \<le> 1" if "y \<in> set xs" for y
    using Cons.prems [of y] that by (auto split: if_splits)
  ultimately show ?case using Cons.IH by auto
qed simp

text \<open>C3: any number of clients at once. Clients that have sent their requests over plain connections, each on its own,
  wait as tasks of the scheduler; every server answers its client with a response that announces its body,
  in any segmentation and with any interruptions. Over any number of passes of the scheduler no call faults or hangs, and
  what is handed out is the body of a client's own response, to the callback of that client, at most once for
  each: no client gets a part of a response, a response twice, or the response of another client.\<close>

theorem many_clients_exact:
  assumes "clients_ready es h w"
  shows "\<exists>h' w' new. passes (client_callbacks mb) ts (h, w) = ret (h', w') \<and> w_delivered w' = w_delivered w @ new \<and>
     (\<forall>x \<in> set new. \<exists>a e. es a = Some e \<and> x = (ex_context e, ex_body e)) \<and> distinct (map fst new)"
proof -
  obtain h' w' where p: "passes (client_callbacks mb) ts (h, w) = ret (h', w')" "clients_inv es (w_delivered w) h' w'"
    using clients.passes_keep [OF ready_inv [OF assms], of mb ts] by blast
  then obtain new where new: "w_delivered w' = w_delivered w @ new" "own_responses es new" by (auto simp: clients_inv_def)
  have "length (filter (\<lambda>y. fst y = fst x) new) \<le> 1" if x: "x \<in> set new" for x
  proof -
    obtain a e where e: "es a = Some e" "x = (ex_context e, ex_body e)" using new(2) x by (auto simp: own_responses_def)
    then obtain c where "h' a = Some c" "client_fine e (length (w_delivered w)) c w'" using p(2) unfolding clients_inv_def by blast
    then have "length (got (ex_context e) (length (w_delivered w)) w') \<le> 1" by (auto simp: client_fine_def)
    then show ?thesis using new(1) e(2) by (simp add: got_def)
  qed
  then show ?thesis using p(1) new distinct_keys [of new fst] by (auto simp: own_responses_def)
qed

definition two_exchanges :: "nat \<Rightarrow> exchange option" where
  "two_exchanges = [1 \<mapsto> \<lparr>ex_version = ''HTTP/1.1'', ex_code = 200, ex_phrase = ''OK'', ex_headers = [(''Content-Length'', ''5'')],
       ex_payload = ''abcde'', ex_body = ''abcde'', ex_context = 7\<rparr>,
     2 \<mapsto> \<lparr>ex_version = ''HTTP/1.1'', ex_code = 200, ex_phrase = ''OK'', ex_headers = [(''Content-Length'', ''5'')],
       ex_payload = ''abcde'', ex_body = ''abcde'', ex_context = 8\<rparr>]"

definition client_seven :: "nat HTTP_Client" where
  "client_seven = response_example\<lparr>hc_task := Some 0\<rparr>"

definition client_eight :: "nat HTTP_Client" where
  "client_eight = response_example\<lparr>hc_task := Some 1, hc_context := 8,
     hc_transport := (zero_transport mb_example)\<lparr>tr_tcp := zero_tcp\<lparr>tcp_fd := 4\<rparr>\<rparr>\<rparr>"

definition two_clients :: "nat clients" where
  "two_clients = [1 \<mapsto> client_seven, 2 \<mapsto> client_eight]"

definition two_world :: world where
  "two_world = response_world\<lparr>w_sched := [client_slot 1, client_slot 2, idle_task],
     w_in := (\<lambda>_. [])(3 := w_in response_world 3, 4 := w_in response_world 3)\<rparr>"

lemma two_clients_ready: "clients_ready two_exchanges two_clients two_world"
proof -
  let ?r = "response_start ''HTTP/1.1'' 200 ''OK'' [(''Content-Length'', ''5'')] ''abcde''"
  have ok: "announces [(''Content-Length'', ''5'')] ''abcde'' ''abcde''" by (rule response_example_announces)
  have r: "?r response_example response_world" by (rule response_example_start)
  have k: "known_status ''HTTP/1.1'' 200 ''OK''" "list_all clean_header [(''Content-Length'', ''5'')]"
    using r by (simp_all add: response_start_def)
  have c: "?r client_seven two_world" "?r client_eight two_world"
    using r response_example_length
    by (simp_all add: response_start_def client_seven_def client_eight_def two_world_def response_example_def fresh_body_def
        plain_unread_def zero_transport_def zero_tcp_def)
  have d: "disposable client_seven" "disposable client_eight" "hc_chunk_remaining client_seven = 0" "hc_chunk_remaining client_eight = 0"
      "hc_context client_seven = 7" "hc_context client_eight = 8" "hc_task client_seven = Some 0" "hc_task client_eight = Some 1"
      "client_fd client_seven = 3" "client_fd client_eight = 4"
    by (auto simp: client_seven_def client_eight_def response_example_def disposable_def req_wf_def zero_request_def zero_client_def
        client_fd_def)
  have t: "table_ok two_exchanges two_clients two_world"
    using d by (auto simp: table_ok_def two_world_def two_clients_def two_exchanges_def less_Suc_eq client_slot_def)
  have u: "own_lines two_exchanges two_clients"
    using d by (auto simp: own_lines_def two_exchanges_def two_clients_def split: if_splits)
  have "w_alloc two_world = []" by (simp add: two_world_def response_world_def world0_def)
  then show ?thesis
    using t u c d ok k by (auto simp: clients_ready_def two_exchanges_def two_clients_def ex_ok_def split: if_splits)
qed

theorem many_clients_exact_witness:
  "\<exists>h' w'. passes (client_callbacks mb_example) (replicate 9 0) (two_clients, two_world) = ret (h', w') \<and>
     set (w_delivered w') = {(7, ''abcde''), (8, ''abcde'')} \<and> distinct (map fst (w_delivered w'))"
proof -
  have "map_option (map_sum id (\<lambda>(h, w). w_delivered w)) (passes (client_callbacks mb_example) (replicate 9 0) (two_clients, two_world)) =
      Some (Inr [(7, ''abcde''), (8, ''abcde'')])" by code_simp
  moreover have "w_delivered two_world = []" by code_simp
  ultimately show ?thesis
    using many_clients_exact [OF two_clients_ready, of mb_example "replicate 9 0"] by auto
qed

end
