(* ===== verification/Thread_Pool.thy ===== *)
theory Thread_Pool imports Linked_List "HOL-Library.Multiset"
begin

text \<open>
  \<^verbatim>\<open>modules/src/thread_pool.c\<close>: workers that take tasks from a shared queue.

  Every access to the fields of the pool is made with its mutex held (but for the writes of
  \<^verbatim>\<open>tp_init\<close>, which no other thread can observe, and the first test of \<^verbatim>\<open>tp_dispose\<close>), so a step of the
  system is one critical section, or the part of a thread between two of them. \<open>tp_worker_enter\<close> and
  \<open>tp_worker_finish\<close> are the two critical sections of \<^verbatim>\<open>tp_worker\<close>; \<^verbatim>\<open>pthread_cond_wait\<close> gives the mutex up
  and blocks, so it ends a section, and the test of its loop starts the next. A signal
  wakes one of the threads blocked on the condition, if there is one; a broadcast wakes all of them;
  spurious wake-ups may happen at any time.

  The functions of a task are application code: their calls are recorded in \<open>ps_calls\<close>. The lists
  \<open>ps_added\<close>, \<open>ps_started\<close> and \<open>ps_finished\<close> record the tasks accepted, taken and run, in order. Once
  \<^verbatim>\<open>tp_dispose\<close> has been called on the pool, a thread that is not of the pool must not use it any more (it is being freed); a task
  that is still running may add tasks.
\<close>

section \<open>Data\<close>

type_synonym fptr = nat

record TP_Task =
  thread_func :: "fptr option"
  thread_arg :: nat
  callback_func :: "fptr option"
  callback_arg :: nat

text \<open>The items of the queue are pointers to heap copies of tasks (\<open>None\<close>: NULL).\<close>

record Thread_Pool =
  tp_queue :: "TP_Task option linked_list"
  tp_max_threads :: int
  tp_active_tasks :: int
  tp_stop :: bool

text \<open>Where a worker is: before its first lock or woken up, blocked on \<^verbatim>\<open>task_added\<close>, running a task, before
  its second lock, or returned.\<close>

datatype worker = W_Loop | W_Wait | W_Run "TP_Task option" | W_Finish | W_Exit

text \<open>A thread in \<^verbatim>\<open>tp_wait\<close>: about to test, blocked on \<^verbatim>\<open>task_finished\<close>, or returned.\<close>

datatype waiter = T_Test | T_Wait | T_Out

section \<open>Creating a pool\<close>

definition tp_new :: "int \<Rightarrow> TP_Task option linked_list \<Rightarrow> Thread_Pool" where
  "tp_new n q = \<lparr>tp_queue = q, tp_max_threads = n, tp_active_tasks = 0, tp_stop = False\<rparr>"

text \<open>\<^verbatim>\<open>tp_init\<close> returns NULL or a pool, or blocks in \<^verbatim>\<open>pthread_join\<close> on the workers it has started. The script
  says which calls of \<^verbatim>\<open>pthread_create\<close> succeed.\<close>

datatype tp_init_result = TP_Null | TP_Pool Thread_Pool | TP_Joining nat Thread_Pool

definition tp_init :: "int \<Rightarrow> bool list \<Rightarrow> alloc \<Rightarrow> tp_init_result \<times> alloc" where
  "tp_init max_threads creates a =
     (let n = (if max_threads \<le> 0 then 2 else max_threads) in
      (case malloc a of (ok, a1) \<Rightarrow>
         if \<not> ok then (TP_Null, a1)
         else
           (case malloc a1 of (ok2, a2) \<Rightarrow>
              if \<not> ok2 then (TP_Null, a2)
              else
                (case linked_list_create a2 of
                   (None, a3) \<Rightarrow> (TP_Null, a3)
                 | (Some q, a3) \<Rightarrow>
                     (case find (\<lambda>i. i < length creates \<and> \<not> creates ! i) [0..<nat n] of
                        None \<Rightarrow> (TP_Pool (tp_new n q), a3)
                      | Some i \<Rightarrow> (if i = 0 then TP_Null else TP_Joining i (tp_new n q), a3))))))"

section \<open>Critical sections\<close>

definition tp_task_add :: "Thread_Pool option \<Rightarrow> TP_Task option \<Rightarrow> alloc \<Rightarrow> (int \<times> Thread_Pool option \<times> alloc) res" where
  "tp_task_add pool task a =
     (case (pool, task) of
        (Some p, Some t) \<Rightarrow>
          if thread_func t = None then Inr (-1, pool, a)
          else
            (case malloc a of (ok, a1) \<Rightarrow>
               if \<not> ok then Inr (-10, pool, a1)
               else
                 (case linked_list_item_add (tp_queue p) (Some t) a1 of
                    Inl f \<Rightarrow> Inl f
                  | Inr (r, _, q, a2) \<Rightarrow>
                      if r \<noteq> 0 then Inr (-101, Some (p\<lparr>tp_queue := q\<rparr>), a2)
                      else Inr (0, Some (p\<lparr>tp_queue := q\<rparr>), a2)))
      | _ \<Rightarrow> Inr (-1, pool, a))"

definition tp_worker_enter :: "Thread_Pool \<Rightarrow> (worker \<times> Thread_Pool) res" where
  "tp_worker_enter p =
     (let q = tp_queue p in
      if ll_count q = 0 \<and> \<not> tp_stop p then Inr (W_Wait, p)
      else if ll_count q = 0 \<and> tp_stop p then Inr (W_Exit, p)
      else
        (case ll_head q of
           None \<Rightarrow> Inl NullDeref
         | Some h \<Rightarrow>
             (case ll_nodes q h of
                None \<Rightarrow> Inl UseAfterFree
              | Some n \<Rightarrow>
                  (case (if li_item n \<noteq> None then linked_list_item_remove q h else Inr q) of
                     Inl f \<Rightarrow> Inl f
                   | Inr q' \<Rightarrow>
                       Inr (W_Run (li_item n),
                            p\<lparr>tp_queue := q', tp_active_tasks := tp_active_tasks p + 1\<rparr>)))))"

text \<open>The calls a worker makes for its task.\<close>

definition task_calls :: "TP_Task option \<Rightarrow> (fptr option \<times> nat) list" where
  "task_calls task =
     (case task of
        None \<Rightarrow> []
      | Some t \<Rightarrow> (thread_func t, thread_arg t) #
          (if callback_func t \<noteq> None then [(callback_func t, callback_arg t)] else []))"

definition tp_worker_finish :: "Thread_Pool \<Rightarrow> Thread_Pool" where
  "tp_worker_finish p = p\<lparr>tp_active_tasks := tp_active_tasks p - 1\<rparr>"

definition tp_wait_test :: "Thread_Pool \<Rightarrow> waiter" where
  "tp_wait_test p = (if tp_active_tasks p > 0 \<or> ll_count (tp_queue p) > 0 then T_Wait else T_Out)"

text \<open>The first critical section of \<^verbatim>\<open>tp_dispose\<close>, which it enters unless \<^verbatim>\<open>stop\<close> is set already (a guard of the step below): it sets
  \<^verbatim>\<open>stop\<close> and the broadcast wakes every worker blocked on \<^verbatim>\<open>task_added\<close>. It then joins the workers.\<close>

definition tp_stop_all :: "Thread_Pool \<times> worker list \<Rightarrow> Thread_Pool \<times> worker list" where
  "tp_stop_all = (\<lambda>(p, ws). (p\<lparr>tp_stop := True\<rparr>, map (\<lambda>w. if w = W_Wait then W_Loop else w) ws))"

text \<open>The end of \<^verbatim>\<open>tp_dispose\<close>, after the joins: what is left of the queue is released.\<close>

definition tp_release :: "Thread_Pool \<Rightarrow> unit out" where
  "tp_release p =
     out_bind (linked_list_foreach (tp_queue p)) (\<lambda>_.
     out_bind (linked_list_destroy (Some (tp_queue p))) (\<lambda>_. ret ()))"

section \<open>The threads together\<close>

record tp_sys =
  ps_pool :: Thread_Pool
  ps_workers :: "worker list"
  ps_waiters :: "waiter list"
  ps_alloc :: alloc
  ps_added :: "TP_Task list"
  ps_started :: "TP_Task list"
  ps_finished :: "TP_Task list"
  ps_calls :: "(fptr option \<times> nat) list"

text \<open>\<^verbatim>\<open>pthread_cond_signal\<close>: one of the blocked threads, if any, is woken.\<close>

definition signalled :: "'t \<Rightarrow> 't \<Rightarrow> 't list \<Rightarrow> 't list \<Rightarrow> bool" where
  "signalled blocked woken xs ys \<longleftrightarrow>
     (if blocked \<in> set xs then \<exists>i < length xs. xs ! i = blocked \<and> ys = xs[i := woken] else ys = xs)"

datatype tp_label = By_Worker | By_Waiter | By_Client | Spurious

text \<open>The task a worker holds.\<close>

definition running_of :: "worker \<Rightarrow> TP_Task list" where
  "running_of w = (case w of W_Run (Some t) \<Rightarrow> [t] | _ \<Rightarrow> [])"

inductive tp_step :: "tp_label \<Rightarrow> tp_sys \<Rightarrow> tp_sys \<Rightarrow> bool" where
  worker_enter: "i < length (ps_workers s) \<Longrightarrow> ps_workers s ! i = W_Loop \<Longrightarrow>
     tp_worker_enter (ps_pool s) = Inr (st, p) \<Longrightarrow>
     tp_step By_Worker s (s\<lparr>ps_pool := p, ps_workers := (ps_workers s)[i := st],
       ps_started := ps_started s @ running_of st\<rparr>)"
| worker_run: "i < length (ps_workers s) \<Longrightarrow> ps_workers s ! i = W_Run task \<Longrightarrow>
     tp_step By_Worker s (s\<lparr>ps_workers := (ps_workers s)[i := W_Finish], ps_calls := ps_calls s @ task_calls task,
       ps_finished := ps_finished s @ (case task of Some t \<Rightarrow> [t] | None \<Rightarrow> [])\<rparr>)"
| worker_finish: "i < length (ps_workers s) \<Longrightarrow> ps_workers s ! i = W_Finish \<Longrightarrow>
     signalled T_Wait T_Test (ps_waiters s) ts \<Longrightarrow>
     tp_step By_Worker s (s\<lparr>ps_pool := tp_worker_finish (ps_pool s), ps_workers := (ps_workers s)[i := W_Loop],
       ps_waiters := ts\<rparr>)"
| task_add: "\<not> tp_stop (ps_pool s) \<or> (\<exists>u. W_Run u \<in> set (ps_workers s)) \<Longrightarrow>
     tp_task_add (Some (ps_pool s)) (Some t) (ps_alloc s) = Inr (r, Some p, a) \<Longrightarrow>
     (if r = 0 then signalled W_Wait W_Loop (ps_workers s) ws else ws = ps_workers s) \<Longrightarrow>
     tp_step By_Client s (s\<lparr>ps_pool := p, ps_alloc := a, ps_workers := ws,
       ps_added := ps_added s @ (if r = 0 then [t] else [])\<rparr>)"
| wait_call: "tp_step By_Client s (s\<lparr>ps_waiters := ps_waiters s @ [T_Test]\<rparr>)"
| wait_test: "i < length (ps_waiters s) \<Longrightarrow> ps_waiters s ! i = T_Test \<Longrightarrow>
     tp_step By_Waiter s (s\<lparr>ps_waiters := (ps_waiters s)[i := tp_wait_test (ps_pool s)]\<rparr>)"
| dispose_call: "\<not> tp_stop (ps_pool s) \<Longrightarrow> tp_stop_all (ps_pool s, ps_workers s) = (p, ws) \<Longrightarrow>
     tp_step By_Client s (s\<lparr>ps_pool := p, ps_workers := ws\<rparr>)"
| spurious_worker: "i < length (ps_workers s) \<Longrightarrow> ps_workers s ! i = W_Wait \<Longrightarrow>
     tp_step Spurious s (s\<lparr>ps_workers := (ps_workers s)[i := W_Loop]\<rparr>)"
| spurious_waiter: "i < length (ps_waiters s) \<Longrightarrow> ps_waiters s ! i = T_Wait \<Longrightarrow>
     tp_step Spurious s (s\<lparr>ps_waiters := (ps_waiters s)[i := T_Test]\<rparr>)"

inductive_cases worker_stepE: "tp_step By_Worker s s'"

inductive_cases waiter_stepE: "tp_step By_Waiter s s'"

text \<open>A pool as \<^verbatim>\<open>tp_init\<close> hands it out, its workers started.\<close>

definition tp_start :: "Thread_Pool \<Rightarrow> nat \<Rightarrow> alloc \<Rightarrow> tp_sys" where
  "tp_start p n a = \<lparr>ps_pool = p, ps_workers = replicate n W_Loop, ps_waiters = [], ps_alloc = a,
     ps_added = [], ps_started = [], ps_finished = [], ps_calls = []\<rparr>"

inductive tp_run :: "tp_label set \<Rightarrow> tp_sys \<Rightarrow> tp_sys \<Rightarrow> bool" for L where
  run_refl: "tp_run L s s"
| run_step: "tp_run L s s' \<Longrightarrow> tp_step l s' s'' \<Longrightarrow> l \<in> L \<Longrightarrow> tp_run L s s''"

section \<open>The invariant\<close>

definition busy :: "worker \<Rightarrow> bool" where
  "busy w \<longleftrightarrow> w = W_Finish \<or> (\<exists>t. w = W_Run t)"

definition running :: "worker list \<Rightarrow> TP_Task list" where
  "running ws = concat (map running_of ws)"

definition tp_inv :: "nat \<Rightarrow> tp_sys \<Rightarrow> bool" where
  "tp_inv n s \<longleftrightarrow>
     ll_wf (tp_queue (ps_pool s)) \<and> length (ps_workers s) = n \<and> W_Run None \<notin> set (ps_workers s) \<and>
     map Some (ps_added s) = map Some (ps_started s) @ ll_items (tp_queue (ps_pool s)) \<and>
     tp_active_tasks (ps_pool s) = int (length (filter busy (ps_workers s))) \<and>
     mset (ps_started s) = mset (ps_finished s) + mset (running (ps_workers s)) \<and>
     (W_Exit \<in> set (ps_workers s) \<longrightarrow> tp_stop (ps_pool s)) \<and>
     (tp_stop (ps_pool s) \<longrightarrow> W_Wait \<notin> set (ps_workers s)) \<and>
     (ll_items (tp_queue (ps_pool s)) \<noteq> [] \<longrightarrow> (\<exists>w \<in> set (ps_workers s). w \<noteq> W_Wait \<and> w \<noteq> W_Exit))"


section \<open>Facts\<close>

lemma running_of_simps [simp]:
  "running_of W_Loop = []" "running_of W_Wait = []" "running_of W_Finish = []" "running_of W_Exit = []"
  "running_of (W_Run (Some t)) = [t]" "running_of (W_Run None) = []"
  by (simp_all add: running_of_def)

lemma busy_simps [simp]:
  "\<not> busy W_Loop" "\<not> busy W_Wait" "busy W_Finish" "\<not> busy W_Exit" "busy (W_Run t)"
  by (simp_all add: busy_def)

lemma busy_update:
  "i < length ws \<Longrightarrow> length (filter busy (ws[i := w])) + (if busy (ws ! i) then 1 else 0) =
     length (filter busy ws) + (if busy w then 1 else 0)"
proof (induction ws arbitrary: i)
  case (Cons x ws)
  then show ?case by (cases i) auto
qed simp

lemma running_update:
  "i < length ws \<Longrightarrow> mset (running (ws[i := w])) + mset (running_of (ws ! i)) =
     mset (running ws) + mset (running_of w)"
proof (induction ws arbitrary: i)
  case (Cons x ws)
  then show ?case by (cases i) (auto simp: running_def)
qed simp

lemma running_wake [simp]: "running (map (\<lambda>w. if w = W_Wait then W_Loop else w) ws) = running ws"
  by (induction ws) (auto simp: running_def)

lemma busy_wake [simp]: "busy \<circ> (\<lambda>w. if w = W_Wait then W_Loop else w) = busy"
  by (rule ext) simp

lemma list_update_same_class:
  assumes "i < length ws" "running_of (ws ! i) = running_of w" "busy (ws ! i) = busy w"
  shows "mset (running (ws[i := w])) = mset (running ws)" "length (filter busy (ws[i := w])) = length (filter busy ws)"
  using running_update [OF assms(1), of w] busy_update [OF assms(1), of w] assms(2,3) by auto

lemma head_item:
  assumes "ll_wf l" "ll_items l = x # xs"
  obtains h n l' where "ll_head l = Some h" "ll_nodes l h = Some n" "li_item n = x"
    "linked_list_item_remove l h = Inr l'" "ll_wf l'" "ll_items l' = xs"
proof -
  obtain as ys where c: "ll_chain l as ys" using assms(1) by (auto simp: ll_wf_def)
  with assms(2) have ys: "ys = x # xs" by (simp add: ll_items_chain)
  with c obtain b bs where as: "as = b # bs" by (cases as) (auto simp: ll_chain_def)
  obtain n where n: "ll_head l = Some b" "ll_nodes l b = Some n" "li_item n = x"
    using c as ys by (auto simp: ll_chain_def)
  obtain l' where "linked_list_item_remove l b = Inr l'" "ll_wf l'" "ll_items l' = xs"
    using ll.remove_head_items [OF assms] n(1) by (auto simp: ll_remove_head_def)
  then show thesis using that n by blast
qed

lemma enter_cases:
  assumes "ll_wf (tp_queue p)" "length (ll_items (tp_queue p)) < 2 ^ 32" "None \<notin> set (ll_items (tp_queue p))"
  obtains "ll_items (tp_queue p) = []" "\<not> tp_stop p" "tp_worker_enter p = Inr (W_Wait, p)"
  | "ll_items (tp_queue p) = []" "tp_stop p" "tp_worker_enter p = Inr (W_Exit, p)"
  | t xs q where "ll_items (tp_queue p) = Some t # xs" "ll_wf q" "ll_items q = xs"
      "tp_worker_enter p = Inr (W_Run (Some t), p\<lparr>tp_queue := q, tp_active_tasks := tp_active_tasks p + 1\<rparr>)"
proof (cases "ll_items (tp_queue p)")
  case Nil
  then have "ll_count (tp_queue p) = 0" using ll.cnt_zero_iff [OF assms(1,2)] by simp
  then show thesis using that(1,2) Nil by (cases "tp_stop p") (simp_all add: tp_worker_enter_def)
next
  case (Cons x xs)
  then obtain t where t: "x = Some t" using assms(3) by (cases x) auto
  have c: "ll_count (tp_queue p) \<noteq> 0" using ll.cnt_zero_iff [OF assms(1,2)] Cons by simp
  show thesis
  proof (rule head_item [OF assms(1) Cons])
    fix h n l' assume h: "ll_head (tp_queue p) = Some h" "ll_nodes (tp_queue p) h = Some n" "li_item n = x"
      "linked_list_item_remove (tp_queue p) h = Inr l'" "ll_wf l'" "ll_items l' = xs"
    then show thesis using that(3) [of t xs l'] Cons c t by (simp add: tp_worker_enter_def Let_def)
  qed
qed

lemma add_cases:
  assumes "ll_wf (tp_queue p)" "tp_task_add (Some p) (Some t) a = Inr (r, Some p', a')"
  obtains q where "p' = p\<lparr>tp_queue := q\<rparr>" "ll_wf q"
    "ll_items q = ll_items (tp_queue p) @ (if r = 0 then [Some t] else [])"
proof -
  obtain ok a1 where m: "malloc a = (ok, a1)" by (cases "malloc a")
  show thesis
  proof (cases "thread_func t = None \<or> \<not> ok")
    case True
    then show thesis using that [of "tp_queue p"] assms m by (auto simp: tp_task_add_def split: if_splits)
  next
    case False
    show thesis
    proof (rule ll.add_total [OF assms(1), where x = "Some t" and a = a1])
      fix k h q a2 assume "linked_list_item_add (tp_queue p) (Some t) a1 = Inr (k, h, q, a2)" "ll_wf q"
        "ll_items q = ll_items (tp_queue p) @ (if k = 0 then [Some t] else [])"
      then show thesis using that [of q] assms(2) False m by (auto simp: tp_task_add_def split: if_splits)
    qed
  qed
qed

lemma inv_items:
  assumes "tp_inv n s" "length (ps_added s) < 2 ^ 32"
  shows "length (ll_items (tp_queue (ps_pool s))) < 2 ^ 32" "None \<notin> set (ll_items (tp_queue (ps_pool s)))"
proof -
  have e: "map Some (ps_added s) = map Some (ps_started s) @ ll_items (tp_queue (ps_pool s))"
    using assms(1) by (simp add: tp_inv_def)
  then have "length (ps_added s) = length (ps_started s) + length (ll_items (tp_queue (ps_pool s)))"
    by (metis length_append length_map)
  then show "length (ll_items (tp_queue (ps_pool s))) < 2 ^ 32" using assms(2) by simp
  have "None \<notin> set (map Some (ps_added s))" by auto
  then show "None \<notin> set (ll_items (tp_queue (ps_pool s)))" unfolding e by simp
qed

lemma signalled_cases:
  assumes "signalled b w xs ys"
  obtains "b \<notin> set xs" "ys = xs" | i where "i < length xs" "xs ! i = b" "ys = xs[i := w]"
  using assms by (auto simp: signalled_def split: if_splits)

section \<open>Every step keeps the invariant\<close>

lemma set_update_other: "x \<in> set (ws[i := w]) \<Longrightarrow> x \<noteq> w \<Longrightarrow> x \<in> set ws"
  using set_update_subset_insert [of ws i w] by auto

lemma inv_start:
  assumes "ll_wf q" "ll_items q = []" "0 < n"
  shows "tp_inv n (tp_start (tp_new m q) n a)"
proof -
  have "filter busy (replicate n W_Loop) = []" "running (replicate n W_Loop) = []"
    by (simp_all add: running_def concat_replicate_trivial)
  then show ?thesis using assms by (simp add: tp_inv_def tp_start_def tp_new_def)
qed

lemma inv_enter:
  assumes "tp_inv n s" "length (ps_added s) < 2 ^ 32" "i < length (ps_workers s)" "ps_workers s ! i = W_Loop"
    and "tp_worker_enter (ps_pool s) = Inr (st, p)"
  shows "tp_inv n (s\<lparr>ps_pool := p, ps_workers := (ps_workers s)[i := st], ps_started := ps_started s @ running_of st\<rparr>)"
proof -
  have I: "ll_wf (tp_queue (ps_pool s))" using assms(1) by (simp add: tp_inv_def)
  note upd = busy_update [OF assms(3), of st] running_update [OF assms(3), of st]
  show ?thesis
  proof (rule enter_cases [OF I inv_items [OF assms(1,2)]])
    assume "ll_items (tp_queue (ps_pool s)) = []" "\<not> tp_stop (ps_pool s)" "tp_worker_enter (ps_pool s) = Inr (W_Wait, ps_pool s)"
    then show ?thesis
      using assms upd by (auto simp: tp_inv_def dest: set_update_other)
  next
    assume "ll_items (tp_queue (ps_pool s)) = []" "tp_stop (ps_pool s)" "tp_worker_enter (ps_pool s) = Inr (W_Exit, ps_pool s)"
    then show ?thesis
      using assms upd by (auto simp: tp_inv_def dest: set_update_other)
  next
    fix t xs q assume c: "ll_items (tp_queue (ps_pool s)) = Some t # xs" "ll_wf q" "ll_items q = xs"
      "tp_worker_enter (ps_pool s) =
         Inr (W_Run (Some t), (ps_pool s)\<lparr>tp_queue := q, tp_active_tasks := tp_active_tasks (ps_pool s) + 1\<rparr>)"
    have "W_Run (Some t) \<in> set ((ps_workers s)[i := W_Run (Some t)])" using assms(3) by (rule set_update_memI)
    then show ?thesis
      using assms c upd by (auto simp: tp_inv_def dest: set_update_other)
  qed
qed

lemma inv_run:
  assumes "tp_inv n s" "i < length (ps_workers s)" "ps_workers s ! i = W_Run task"
  shows "tp_inv n (s\<lparr>ps_workers := (ps_workers s)[i := W_Finish], ps_calls := cs,
       ps_finished := ps_finished s @ (case task of Some t \<Rightarrow> [t] | None \<Rightarrow> [])\<rparr>)"
proof -
  have "W_Run task \<in> set (ps_workers s)" using assms(2,3) by (metis nth_mem)
  moreover have "W_Run None \<notin> set (ps_workers s)" using assms(1) by (simp add: tp_inv_def)
  ultimately obtain t where t: "task = Some t" by (cases task) auto
  note upd = busy_update [OF assms(2), of W_Finish] running_update [OF assms(2), of W_Finish]
  have "W_Finish \<in> set ((ps_workers s)[i := W_Finish])" using assms(2) by (rule set_update_memI)
  then show ?thesis
    using assms t upd by (auto simp: tp_inv_def dest: set_update_other)
qed

lemma inv_finish:
  assumes "tp_inv n s" "i < length (ps_workers s)" "ps_workers s ! i = W_Finish"
  shows "tp_inv n (s\<lparr>ps_pool := tp_worker_finish (ps_pool s), ps_workers := (ps_workers s)[i := W_Loop], ps_waiters := ts\<rparr>)"
proof -
  note upd = busy_update [OF assms(2), of W_Loop] running_update [OF assms(2), of W_Loop]
  have "W_Loop \<in> set ((ps_workers s)[i := W_Loop])" using assms(2) by (rule set_update_memI)
  then show ?thesis
    using assms upd by (auto simp: tp_inv_def tp_worker_finish_def dest: set_update_other)
qed

lemma inv_wake:
  assumes "tp_inv n s" "i < length (ps_workers s)" "ps_workers s ! i = W_Wait"
  shows "tp_inv n (s\<lparr>ps_workers := (ps_workers s)[i := W_Loop]\<rparr>)"
proof -
  note upd = list_update_same_class [OF assms(2), of W_Loop]
  have "W_Loop \<in> set ((ps_workers s)[i := W_Loop])" using assms(2) by (rule set_update_memI)
  then show ?thesis
    using assms upd by (auto simp: tp_inv_def dest: set_update_other)
qed

lemma inv_add:
  assumes "tp_inv n s" "\<not> tp_stop (ps_pool s) \<or> (\<exists>u. W_Run u \<in> set (ps_workers s))" "0 < n"
    and "tp_task_add (Some (ps_pool s)) (Some t) (ps_alloc s) = Inr (r, Some p, a)"
    and "if r = 0 then signalled W_Wait W_Loop (ps_workers s) ws else ws = ps_workers s"
  shows "tp_inv n (s\<lparr>ps_pool := p, ps_alloc := a, ps_workers := ws, ps_added := ps_added s @ (if r = 0 then [t] else [])\<rparr>)"
proof -
  have I: "ll_wf (tp_queue (ps_pool s))" using assms(1) by (simp add: tp_inv_def)
  obtain q where q: "p = (ps_pool s)\<lparr>tp_queue := q\<rparr>" "ll_wf q"
      "ll_items q = ll_items (tp_queue (ps_pool s)) @ (if r = 0 then [Some t] else [])"
    by (rule add_cases [OF I assms(4)])
  show ?thesis
  proof (cases "r = 0")
    case False
    then show ?thesis using assms q by (auto simp: tp_inv_def)
  next
    case True
    then have sg: "signalled W_Wait W_Loop (ps_workers s) ws" using assms(5) by simp
    then show ?thesis
    proof (rule signalled_cases)
      assume n: "W_Wait \<notin> set (ps_workers s)" "ws = ps_workers s"
      have "\<exists>w \<in> set (ps_workers s). w \<noteq> W_Wait \<and> w \<noteq> W_Exit"
      proof (cases "tp_stop (ps_pool s)")
        case True
        then show ?thesis using assms(2) by blast
      next
        case False
        then have "ps_workers s \<noteq> []" "W_Exit \<notin> set (ps_workers s)" using assms(1,3) by (auto simp: tp_inv_def)
        then show ?thesis using n(1) by (cases "ps_workers s") auto
      qed
      then show ?thesis using assms(1) q n True by (auto simp: tp_inv_def)
    next
      fix i assume i: "i < length (ps_workers s)" "ps_workers s ! i = W_Wait" "ws = (ps_workers s)[i := W_Loop]"
      have "W_Loop \<in> set ws" using i by (simp add: set_update_memI)
      moreover have "tp_inv n (s\<lparr>ps_workers := ws\<rparr>)" using inv_wake [OF assms(1) i(1,2)] i(3) by simp
      ultimately show ?thesis using q True by (auto simp: tp_inv_def)
    qed
  qed
qed

lemma inv_step:
  assumes "tp_step l s s'" "tp_inv n s" "0 < n" "length (ps_added s) < 2 ^ 32"
  shows "tp_inv n s'"
  using assms(1)
proof cases
  case (dispose_call p ws)
  then show ?thesis using assms(2) by (auto simp: tp_inv_def tp_stop_all_def)
next
  case (worker_enter i st p)
  then show ?thesis using inv_enter [OF assms(2,4)] by simp
next
  case (worker_run i task)
  then show ?thesis using inv_run [OF assms(2)] by simp
next
  case (worker_finish i ts)
  then show ?thesis using inv_finish [OF assms(2)] by simp
next
  case (task_add t r p a ws)
  then show ?thesis using inv_add [OF assms(2) _ assms(3)] by simp
next
  case (spurious_worker i)
  then show ?thesis using inv_wake [OF assms(2)] by simp
qed (use assms(2) in \<open>auto simp: tp_inv_def\<close>)

lemma added_grows: "tp_step l s s' \<Longrightarrow> length (ps_added s) \<le> length (ps_added s')"
  by (induction rule: tp_step.induct) auto

lemma inv_run_all:
  "tp_run L s s' \<Longrightarrow> tp_inv n s \<Longrightarrow> 0 < n \<Longrightarrow> length (ps_added s') < 2 ^ 32 \<Longrightarrow> tp_inv n s'"
proof (induction rule: tp_run.induct)
  case (run_step s s' l s'')
  have "length (ps_added s') < 2 ^ 32" using added_grows [OF run_step.hyps(2)] run_step.prems by simp
  then show ?case using run_step inv_step by blast
qed

lemma create_empty: "linked_list_create a = (Some q, a') \<Longrightarrow> q = ll_empty"
  by (auto simp: linked_list_create_def ll_empty_def split: prod.splits if_splits)

lemma tp_init_pool:
  assumes "tp_init m cr a = (TP_Pool p, a')"
  shows "\<exists>q. p = tp_new (tp_max_threads p) q \<and> ll_wf q \<and> ll_items q = []" "0 < tp_max_threads p"
proof -
  have e: "ll_wf ll_empty" "ll_items ll_empty = []" using ll_chain_empty ll_items_chain by auto
  show "\<exists>q. p = tp_new (tp_max_threads p) q \<and> ll_wf q \<and> ll_items q = []" "0 < tp_max_threads p"
    using assms e
    by (auto simp: tp_init_def tp_new_def Let_def split: prod.splits if_splits option.splits dest!: create_empty)
qed

lemma pool_inv:
  assumes "tp_init m cr a = (TP_Pool p, a')" "tp_run L (tp_start p (nat (tp_max_threads p)) a') s"
    and "length (ps_added s) < 2 ^ 32"
  shows "tp_inv (nat (tp_max_threads p)) s" "0 < nat (tp_max_threads p)"
proof -
  obtain q where q: "p = tp_new (tp_max_threads p) q" "ll_wf q" "ll_items q = []" using tp_init_pool(1) [OF assms(1)] by blast
  show n: "0 < nat (tp_max_threads p)" using tp_init_pool(2) [OF assms(1)] by simp
  show "tp_inv (nat (tp_max_threads p)) s"
    using inv_run_all [OF assms(2) _ n assms(3)] inv_start [OF q(2,3) n, of "tp_max_threads p" a'] q(1) by simp
qed

lemma all_done:
  assumes "tp_inv n s" "\<not> list_ex busy (ps_workers s)" "ll_items (tp_queue (ps_pool s)) = []"
  shows "mset (ps_finished s) = mset (ps_added s)"
proof -
  have "running (ps_workers s) = []"
    using assms(2) by (auto simp: running_def list_ex_iff running_of_def busy_def split: worker.splits option.splits)
  moreover have "map Some (ps_added s) = map Some (ps_started s)" using assms(1,3) by (simp add: tp_inv_def)
  then have "ps_added s = ps_started s" by (simp add: inj_map_eq_map)
  ultimately show ?thesis using assms(1) by (simp add: tp_inv_def)
qed

section \<open>Properties\<close>

text \<open>C11: The thread pool runs what it is given, in order and exactly once. In every reachable state of a pool
  and any number of threads adding tasks, waiting and disposing: the tasks taken by the workers and the
  ones still queued are together exactly the accepted ones, in the order they were added; each task taken
  is finished or held by exactly one worker; the counter of active tasks is the number of busy workers;
  and the next critical section of a worker never touches freed or missing memory.\<close>

theorem tp_tasks_in_order:
  assumes "tp_init m cr a = (TP_Pool p, a')" "tp_run UNIV (tp_start p (nat (tp_max_threads p)) a') s"
    and "length (ps_added s) < 2 ^ 32"
  shows "map Some (ps_added s) = map Some (ps_started s) @ ll_items (tp_queue (ps_pool s)) \<and>
     mset (ps_started s) = mset (ps_finished s) + mset (running (ps_workers s)) \<and>
     tp_active_tasks (ps_pool s) = int (length (filter busy (ps_workers s))) \<and>
     (\<exists>st p'. tp_worker_enter (ps_pool s) = Inr (st, p'))"
proof -
  note I = pool_inv(1) [OF assms]
  have w: "ll_wf (tp_queue (ps_pool s))" using I by (simp add: tp_inv_def)
  have "\<exists>st p'. tp_worker_enter (ps_pool s) = Inr (st, p')"
    by (rule enter_cases [OF w inv_items [OF I assms(3)]]) auto
  then show ?thesis using I by (simp add: tp_inv_def)
qed

text \<open>When \<^verbatim>\<open>tp_wait\<close> finds nothing left to wait for, every task accepted so far has been run to its end,
  its callback included.\<close>

theorem tp_wait_complete:
  assumes "tp_init m cr a = (TP_Pool p, a')" "tp_run UNIV (tp_start p (nat (tp_max_threads p)) a') s"
    and "length (ps_added s) < 2 ^ 32" "tp_wait_test (ps_pool s) = T_Out"
  shows "mset (ps_finished s) = mset (ps_added s)"
proof -
  note I = pool_inv(1) [OF assms(1-3)]
  have w: "ll_wf (tp_queue (ps_pool s))" using I by (simp add: tp_inv_def)
  have z: "tp_active_tasks (ps_pool s) \<le> 0" "ll_count (tp_queue (ps_pool s)) = 0"
    using assms(4) by (auto simp: tp_wait_test_def word_gt_0 split: if_splits)
  have "ll_items (tp_queue (ps_pool s)) = []" using ll.cnt_zero_iff [OF w inv_items(1) [OF I assms(3)]] z(2) by simp
  moreover have "filter busy (ps_workers s) = []" using z(1) I by (simp add: tp_inv_def)
  then have "\<not> list_ex busy (ps_workers s)" by (auto simp: list_ex_iff filter_empty_conv)
  ultimately show ?thesis using all_done [OF I] by blast
qed

text \<open>C13: Graceful shutdown: once \<^verbatim>\<open>tp_dispose\<close> has joined all workers, every accepted task has been run exactly
  once, the tasks that running tasks have added meanwhile included, and the queue it releases is empty.\<close>

theorem tp_dispose_drains:
  assumes "tp_init m cr a = (TP_Pool p, a')" "tp_run UNIV (tp_start p (nat (tp_max_threads p)) a') s"
    and "length (ps_added s) < 2 ^ 32" "\<forall>w \<in> set (ps_workers s). w = W_Exit"
  shows "mset (ps_finished s) = mset (ps_added s) \<and> ll_items (tp_queue (ps_pool s)) = [] \<and> tp_release (ps_pool s) = ret ()"
proof -
  note I = pool_inv [OF assms(1-3)]
  have e: "ll_items (tp_queue (ps_pool s)) = []" using I(1) assms(4) by (auto simp: tp_inv_def)
  have "\<not> list_ex busy (ps_workers s)" using assms(4) by (auto simp: list_ex_iff)
  moreover have w: "ll_wf (tp_queue (ps_pool s))" using I(1) by (simp add: tp_inv_def)
  then obtain as xs l' where "linked_list_items_dispose (tp_queue (ps_pool s)) = Some (Inr l')"
    using ll_dispose_chain by (auto simp: ll_wf_def) blast
  then have "tp_release (ps_pool s) = ret ()"
    using ll.visit_items [OF w] by (simp add: tp_release_def linked_list_destroy_def)
  ultimately show ?thesis using all_done [OF I(1)] e by blast
qed

text \<open>The work the workers can still do: what is queued, and where each of them is.\<close>

definition worker_rank :: "worker \<Rightarrow> nat" where
  "worker_rank w = (case w of W_Loop \<Rightarrow> 1 | W_Wait \<Rightarrow> 0 | W_Run _ \<Rightarrow> 3 | W_Finish \<Rightarrow> 2 | W_Exit \<Rightarrow> 0)"

definition work_left :: "tp_sys \<Rightarrow> nat" where
  "work_left s = 3 * length (ll_items (tp_queue (ps_pool s))) + sum_list (map worker_rank (ps_workers s))"

lemma rank_update:
  "i < length ws \<Longrightarrow> sum_list (map worker_rank (ws[i := w])) + worker_rank (ws ! i) =
     sum_list (map worker_rank ws) + worker_rank w"
proof (induction ws arbitrary: i)
  case (Cons x ws)
  then show ?case by (cases i) auto
qed simp

lemma worker_step_decreases:
  assumes "tp_step By_Worker s s'" "tp_inv n s" "length (ps_added s) < 2 ^ 32"
  shows "work_left s' < work_left s"
  using assms(1)
proof cases
  case (worker_enter i st p)
  have w: "ll_wf (tp_queue (ps_pool s))" using assms(2) by (simp add: tp_inv_def)
  show ?thesis
    by (rule enter_cases [OF w inv_items [OF assms(2,3)]])
      (use worker_enter rank_update [of i "ps_workers s" st] in \<open>auto simp: work_left_def worker_rank_def\<close>)
next
  case (worker_run i task)
  then show ?thesis using rank_update [of i "ps_workers s" W_Finish] by (simp add: work_left_def worker_rank_def)
next
  case (worker_finish i ts)
  then show ?thesis
    using rank_update [of i "ps_workers s" W_Loop] by (simp add: work_left_def worker_rank_def tp_worker_finish_def)
qed

lemma signalled_exists: "\<exists>ys. signalled b w xs ys"
  by (cases "b \<in> set xs") (auto simp: signalled_def in_set_conv_nth)

lemma worker_can_step:
  assumes "tp_inv n s" "length (ps_added s) < 2 ^ 32" "w \<in> set (ps_workers s)" "w \<noteq> W_Wait" "w \<noteq> W_Exit"
  shows "\<exists>s'. tp_step By_Worker s s'"
proof -
  obtain i where i: "i < length (ps_workers s)" "ps_workers s ! i = w" using assms(3) by (auto simp: in_set_conv_nth)
  have wf: "ll_wf (tp_queue (ps_pool s))" using assms(1) by (simp add: tp_inv_def)
  obtain st p where "tp_worker_enter (ps_pool s) = Inr (st, p)"
    by (rule enter_cases [OF wf inv_items [OF assms(1,2)]]) auto
  moreover obtain ts where "signalled T_Wait T_Test (ps_waiters s) ts" using signalled_exists [of T_Wait T_Test "ps_waiters s"] by blast
  ultimately show ?thesis
    using i assms(4,5) tp_step.worker_enter [of i s st p] tp_step.worker_run [of i s] tp_step.worker_finish [of i s ts]
    by (cases w) auto
qed

text \<open>C12: No task is forgotten: in every reachable state with a task queued or running some worker is neither
  blocked nor gone and can take its next step, every step of a worker decreases the work left, and when
  no worker can step every accepted task has been finished. So the workers alone, whatever the order
  in which they run, finish all tasks after finitely many steps.\<close>

theorem tp_workers_progress:
  assumes "tp_init m cr a = (TP_Pool p, a')" "tp_run UNIV (tp_start p (nat (tp_max_threads p)) a') s"
    and "length (ps_added s) < 2 ^ 32"
  shows "(tp_wait_test (ps_pool s) = T_Wait \<longrightarrow> (\<exists>s'. tp_step By_Worker s s')) \<and>
     (\<forall>s'. tp_step By_Worker s s' \<longrightarrow> work_left s' < work_left s) \<and>
     ((\<nexists>s'. tp_step By_Worker s s') \<longrightarrow> mset (ps_finished s) = mset (ps_added s))"
proof -
  note I = pool_inv(1) [OF assms]
  have w: "ll_wf (tp_queue (ps_pool s))" using I by (simp add: tp_inv_def)
  have step: "\<exists>s'. tp_step By_Worker s s'" if "list_ex busy (ps_workers s) \<or> ll_items (tp_queue (ps_pool s)) \<noteq> []"
  proof -
    have "\<exists>w \<in> set (ps_workers s). w \<noteq> W_Wait \<and> w \<noteq> W_Exit"
      using that I by (auto simp: tp_inv_def list_ex_iff busy_def)
    then show ?thesis using worker_can_step [OF I assms(3)] by blast
  qed
  have "list_ex busy (ps_workers s) \<or> ll_items (tp_queue (ps_pool s)) \<noteq> []" if "tp_wait_test (ps_pool s) = T_Wait"
  proof (rule ccontr)
    assume n: "\<not> (list_ex busy (ps_workers s) \<or> ll_items (tp_queue (ps_pool s)) \<noteq> [])"
    then have "filter busy (ps_workers s) = []" by (auto simp: list_ex_iff filter_empty_conv)
    then have "tp_active_tasks (ps_pool s) = 0" using I by (simp add: tp_inv_def)
    moreover have "ll_count (tp_queue (ps_pool s)) = 0" using n ll.cnt_zero_iff [OF w inv_items(1) [OF I assms(3)]] by simp
    ultimately show False using that by (simp add: tp_wait_test_def)
  qed
  then show ?thesis
    using step worker_step_decreases [OF _ I assms(3)] all_done [OF I] by blast
qed

text \<open>A pool with one worker and one task.\<close>

definition one_task :: TP_Task where
  "one_task = \<lparr>thread_func = Some 1, thread_arg = 5, callback_func = Some 2, callback_arg = 6\<rparr>"

definition one_pool :: Thread_Pool where
  "one_pool = tp_new 1 ll_empty"

definition one_queue :: "TP_Task option linked_list" where
  "one_queue = \<lparr>ll_head = Some 0, ll_tail = Some 0, ll_count = 1,
     ll_nodes = Map.empty(0 \<mapsto> \<lparr>li_prev = None, li_next = None, li_item = Some one_task\<rparr>), ll_fresh = 1\<rparr>"

lemma one_pool_init: "tp_init 1 [] [] = (TP_Pool one_pool, [])"
  by (simp add: tp_init_def linked_list_create_def one_pool_def ll_empty_def)

lemma one_task_added: "tp_task_add (Some one_pool) (Some one_task) [] = Inr (0, Some (one_pool\<lparr>tp_queue := one_queue\<rparr>), [])"
  by (simp add: tp_task_add_def one_task_def one_pool_def tp_new_def ll_empty_def linked_list_item_add_def one_queue_def Let_def)

lemma one_worker_enter:
  "tp_worker_enter (one_pool\<lparr>tp_queue := one_queue\<rparr>) =
     Inr (W_Run (Some one_task), one_pool\<lparr>tp_queue := ll_empty\<lparr>ll_fresh := 1\<rparr>, tp_active_tasks := 1\<rparr>)"
  by (simp add: tp_worker_enter_def one_pool_def one_queue_def tp_new_def linked_list_item_remove_def ll_empty_def Let_def)

text \<open>Two threads call \<^verbatim>\<open>tp_wait\<close> while the task runs, and block.\<close>

definition two_wait :: tp_sys where
  "two_wait = (tp_start (one_pool\<lparr>tp_queue := ll_empty\<lparr>ll_fresh := 1\<rparr>, tp_active_tasks := 1\<rparr>) 1 [])
     \<lparr>ps_workers := [W_Run (Some one_task)], ps_waiters := [T_Wait, T_Wait], ps_added := [one_task], ps_started := [one_task]\<rparr>"

definition one_left :: tp_sys where
  "one_left = two_wait\<lparr>ps_pool := one_pool\<lparr>tp_queue := ll_empty\<lparr>ll_fresh := 1\<rparr>\<rparr>, ps_workers := [W_Wait],
     ps_waiters := [T_Out, T_Wait], ps_calls := task_calls (Some one_task), ps_finished := [one_task]\<rparr>"

lemmas one_defs = two_wait_def one_left_def tp_start_def one_pool_def tp_new_def

lemma two_wait_reached: "tp_run {By_Worker, By_Waiter, By_Client} (tp_start one_pool 1 []) two_wait"
proof -
  let ?L = "{By_Worker, By_Waiter, By_Client}"
  let ?p = "one_pool\<lparr>tp_queue := one_queue\<rparr>"
  let ?q = "one_pool\<lparr>tp_queue := ll_empty\<lparr>ll_fresh := 1\<rparr>, tp_active_tasks := 1\<rparr>"
  let ?s0 = "tp_start one_pool 1 []"
  let ?s1 = "?s0\<lparr>ps_pool := ?p, ps_added := [one_task]\<rparr>"
  let ?s2 = "?s1\<lparr>ps_pool := ?q, ps_workers := [W_Run (Some one_task)], ps_started := [one_task]\<rparr>"
  have "tp_step By_Client ?s0 ?s1"
    using tp_step.task_add [of ?s0 one_task 0 ?p "[]" "[W_Loop]"] one_task_added
    by (simp add: tp_start_def one_pool_def tp_new_def signalled_def)
  then have "tp_run ?L ?s0 ?s1" by (auto intro: tp_run.intros)
  moreover have "tp_step By_Worker ?s1 ?s2"
    using tp_step.worker_enter [of 0 ?s1] one_worker_enter by (simp add: tp_start_def)
  ultimately have "tp_run ?L ?s0 ?s2" by (auto intro: tp_run.intros)
  moreover have "tp_step By_Client ?s2 (?s2\<lparr>ps_waiters := [T_Test]\<rparr>)"
    using tp_step.wait_call [of ?s2] by (simp add: tp_start_def)
  ultimately have "tp_run ?L ?s0 (?s2\<lparr>ps_waiters := [T_Test]\<rparr>)" by (auto intro: tp_run.intros)
  moreover have "tp_step By_Client (?s2\<lparr>ps_waiters := [T_Test]\<rparr>) (?s2\<lparr>ps_waiters := [T_Test, T_Test]\<rparr>)"
    using tp_step.wait_call [of "?s2\<lparr>ps_waiters := [T_Test]\<rparr>"] by simp
  ultimately have "tp_run ?L ?s0 (?s2\<lparr>ps_waiters := [T_Test, T_Test]\<rparr>)" by (auto intro: tp_run.intros)
  moreover have "tp_step By_Waiter (?s2\<lparr>ps_waiters := [T_Test, T_Test]\<rparr>) (?s2\<lparr>ps_waiters := [T_Wait, T_Test]\<rparr>)"
    using tp_step.wait_test [of 0 "?s2\<lparr>ps_waiters := [T_Test, T_Test]\<rparr>"] by (simp add: tp_wait_test_def)
  ultimately have "tp_run ?L ?s0 (?s2\<lparr>ps_waiters := [T_Wait, T_Test]\<rparr>)" by (auto intro: tp_run.intros)
  moreover have "tp_step By_Waiter (?s2\<lparr>ps_waiters := [T_Wait, T_Test]\<rparr>) (?s2\<lparr>ps_waiters := [T_Wait, T_Wait]\<rparr>)"
    using tp_step.wait_test [of 1 "?s2\<lparr>ps_waiters := [T_Wait, T_Test]\<rparr>"] by (simp add: tp_wait_test_def)
  ultimately have "tp_run ?L ?s0 (?s2\<lparr>ps_waiters := [T_Wait, T_Wait]\<rparr>)" by (auto intro: tp_run.intros)
  then show ?thesis by (simp add: two_wait_def tp_start_def)
qed

lemma one_left_reached: "tp_run {By_Worker, By_Waiter, By_Client} (tp_start one_pool 1 []) one_left"
proof -
  let ?L = "{By_Worker, By_Waiter, By_Client}"
  let ?r = "one_pool\<lparr>tp_queue := ll_empty\<lparr>ll_fresh := 1\<rparr>\<rparr>"
  let ?s3 = "two_wait\<lparr>ps_workers := [W_Finish], ps_calls := task_calls (Some one_task), ps_finished := [one_task]\<rparr>"
  let ?s4 = "?s3\<lparr>ps_pool := ?r, ps_workers := [W_Loop], ps_waiters := [T_Test, T_Wait]\<rparr>"
  have "tp_step By_Worker two_wait ?s3"
    using tp_step.worker_run [of 0 two_wait "Some one_task"] by (simp add: two_wait_def tp_start_def)
  then have "tp_run ?L (tp_start one_pool 1 []) ?s3" using two_wait_reached by (auto intro: tp_run.intros)
  moreover have "signalled T_Wait T_Test [T_Wait, T_Wait] [T_Test, T_Wait]"
    by (auto simp: signalled_def intro!: exI [of _ 0])
  then have "tp_step By_Worker ?s3 ?s4"
    using tp_step.worker_finish [of 0 ?s3 "[T_Test, T_Wait]"] by (simp add: one_defs tp_worker_finish_def)
  ultimately have "tp_run ?L (tp_start one_pool 1 []) ?s4" by (auto intro: tp_run.intros)
  moreover have "tp_step By_Waiter ?s4 (?s4\<lparr>ps_waiters := [T_Out, T_Wait]\<rparr>)"
    using tp_step.wait_test [of 0 ?s4] by (simp add: tp_wait_test_def one_pool_def tp_new_def ll_empty_def)
  ultimately have "tp_run ?L (tp_start one_pool 1 []) (?s4\<lparr>ps_waiters := [T_Out, T_Wait]\<rparr>)" by (auto intro: tp_run.intros)
  moreover have "tp_step By_Worker (?s4\<lparr>ps_waiters := [T_Out, T_Wait]\<rparr>) one_left"
    using tp_step.worker_enter [of 0 "?s4\<lparr>ps_waiters := [T_Out, T_Wait]\<rparr>" W_Wait ?r]
    by (simp add: tp_worker_enter_def one_defs ll_empty_def)
  ultimately show ?thesis by (auto intro: tp_run.intros)
qed

text \<open>C39: Two threads in \<^verbatim>\<open>tp_wait\<close>: the last task wakes only one of them. A state is reachable in which every
  accepted task is finished and nothing is queued or active, while a thread is still blocked in
  \<^verbatim>\<open>tp_wait\<close> and neither a worker nor a waiter can take another step: it stays there until someone adds
  another task.\<close>

theorem tp_wait_two_waiters_stuck:
  "\<exists>s. tp_run {By_Worker, By_Waiter, By_Client} (tp_start one_pool 1 []) s \<and>
     mset (ps_finished s) = mset (ps_added s) \<and> tp_wait_test (ps_pool s) = T_Out \<and> T_Wait \<in> set (ps_waiters s) \<and>
     (\<nexists>s'. tp_step By_Worker s s') \<and> (\<nexists>s'. tp_step By_Waiter s s')"
proof -
  have w: "ps_workers one_left = [W_Wait]" "ps_waiters one_left = [T_Out, T_Wait]"
      "ps_finished one_left = [one_task]" "ps_added one_left = [one_task]"
      "ps_pool one_left = one_pool\<lparr>tp_queue := ll_empty\<lparr>ll_fresh := 1\<rparr>\<rparr>"
    by (simp_all add: one_left_def two_wait_def)
  have "\<not> tp_step By_Worker one_left s'" for s' by (auto elim!: worker_stepE simp: w)
  moreover have "\<not> tp_step By_Waiter one_left s'" for s'
    by (auto elim!: waiter_stepE simp: w less_Suc_eq)
  moreover have "tp_wait_test (ps_pool one_left) = T_Out"
    by (simp add: w tp_wait_test_def one_pool_def tp_new_def ll_empty_def)
  ultimately show ?thesis using one_left_reached w by (intro exI [of _ one_left]) auto
qed

section \<open>Runs of the one-worker pool\<close>

lemma run_mono: "tp_run L s s' \<Longrightarrow> L \<subseteq> M \<Longrightarrow> tp_run M s s'"
  by (induction rule: tp_run.induct) (auto intro: tp_run.intros)

lemma one_left_any: "tp_run UNIV (tp_start one_pool 1 []) one_left"
  using run_mono [OF one_left_reached] by simp

lemma two_wait_any: "tp_run UNIV (tp_start one_pool 1 []) two_wait"
  using run_mono [OF two_wait_reached] by simp

lemma one_threads: "nat (tp_max_threads one_pool) = 1"
  by (simp add: one_pool_def tp_new_def)

text \<open>\<^verbatim>\<open>tp_dispose\<close> is called after the task: the worker is woken and returns.\<close>

definition one_gone :: tp_sys where
  "one_gone = one_left\<lparr>ps_pool := one_pool\<lparr>tp_queue := ll_empty\<lparr>ll_fresh := 1\<rparr>, tp_stop := True\<rparr>, ps_workers := [W_Exit]\<rparr>"

lemma one_gone_reached: "tp_run UNIV (tp_start one_pool 1 []) one_gone"
proof -
  let ?q = "one_pool\<lparr>tp_queue := ll_empty\<lparr>ll_fresh := 1\<rparr>, tp_stop := True\<rparr>"
  let ?s = "one_left\<lparr>ps_pool := ?q, ps_workers := [W_Loop]\<rparr>"
  have "tp_step By_Client one_left ?s"
    using tp_step.dispose_call [of one_left] by (simp add: tp_stop_all_def one_defs)
  then have "tp_run UNIV (tp_start one_pool 1 []) ?s" using one_left_any by (auto intro: tp_run.intros)
  moreover have "tp_step By_Worker ?s one_gone"
    using tp_step.worker_enter [of 0 ?s W_Exit ?q]
    by (simp add: tp_worker_enter_def one_gone_def one_defs ll_empty_def)
  ultimately show ?thesis by (auto intro: tp_run.intros)
qed

theorem tp_tasks_in_order_witness:
  "ps_added two_wait = [one_task] \<and> mset (ps_started two_wait) = {#one_task#} \<and>
   tp_active_tasks (ps_pool two_wait) = 1 \<and> running (ps_workers two_wait) = [one_task]"
  using tp_tasks_in_order [OF one_pool_init, of two_wait] two_wait_any one_threads
  by (simp add: two_wait_def running_def)

theorem tp_wait_complete_witness:
  "mset (ps_finished one_left) = mset (ps_added one_left) \<and> ps_added one_left = [one_task]"
  using tp_wait_complete [OF one_pool_init, of one_left] one_left_any one_threads
  by (simp add: one_defs tp_wait_test_def ll_empty_def)

theorem tp_dispose_drains_witness:
  "mset (ps_finished one_gone) = {#one_task#} \<and> tp_release (ps_pool one_gone) = ret ()"
  using tp_dispose_drains [OF one_pool_init, of one_gone] one_gone_reached one_threads
  by (simp add: one_gone_def one_defs)

theorem tp_workers_progress_witness:
  "(\<exists>s'. tp_step By_Worker two_wait s') \<and> (\<nexists>s'. tp_step By_Worker one_gone s') \<and>
   mset (ps_finished one_gone) = {#one_task#}"
proof -
  have "\<nexists>s'. tp_step By_Worker one_gone s'" by (auto elim!: worker_stepE simp: one_gone_def)
  then show ?thesis
    using tp_workers_progress [OF one_pool_init, of two_wait] tp_workers_progress [OF one_pool_init, of one_gone]
      two_wait_any one_gone_reached one_threads
    by (simp add: one_gone_def one_defs tp_wait_test_def)
qed

section \<open>A failed start\<close>

lemma unshared_step:
  assumes "tp_step l s s'" "l \<in> {By_Worker, Spurious}"
  shows "ps_added s' = ps_added s \<and> tp_stop (ps_pool s') = tp_stop (ps_pool s)"
  using assms
  by (induction rule: tp_step.induct)
    (auto simp: tp_worker_enter_def tp_worker_finish_def Let_def split: if_splits option.splits sum.splits)

lemma unshared_run:
  "tp_run {By_Worker, Spurious} s s' \<Longrightarrow> ps_added s' = ps_added s \<and> tp_stop (ps_pool s') = tp_stop (ps_pool s)"
  by (induction rule: tp_run.induct) (auto dest!: unshared_step)

text \<open>C40: A pool whose first thread starts and a later one does not is never handed back: \<^verbatim>\<open>tp_init\<close> joins the
  workers it has started, and whatever those do, with or without spurious wake-ups, none of them ever
  returns, since nothing has set \<^verbatim>\<open>stop\<close>.\<close>

theorem tp_init_join_forever:
  assumes "tp_init m cr a = (TP_Joining k p, a')" "tp_run {By_Worker, Spurious} (tp_start p k a') s"
  shows "0 < k \<and> length (ps_workers s) = k \<and> W_Exit \<notin> set (ps_workers s)"
proof -
  obtain n where k: "0 < k" and p: "p = tp_new n ll_empty"
    using assms(1) by (auto simp: tp_init_def Let_def split: prod.splits if_splits option.splits dest!: create_empty)
  have e: "ll_wf ll_empty" "ll_items (ll_empty :: TP_Task option linked_list) = []"
    using ll_chain_empty ll_items_chain by auto
  have u: "ps_added s = []" "\<not> tp_stop (ps_pool s)"
    using unshared_run [OF assms(2)] by (simp_all add: p tp_start_def tp_new_def)
  have "tp_inv k s"
    using inv_run_all [OF assms(2) inv_start [OF e k, of n a', folded p] k] u(1) by simp
  then show ?thesis using u(2) k by (simp add: tp_inv_def)
qed

theorem tp_init_join_forever_witness:
  "tp_init 2 [True, False] [] = (TP_Joining 1 (tp_new 2 ll_empty), []) \<and>
   W_Exit \<notin> set (ps_workers (tp_start (tp_new 2 ll_empty) 1 []))"
proof -
  have i: "tp_init 2 [True, False] [] = (TP_Joining 1 (tp_new 2 ll_empty), [])"
    by (simp add: tp_init_def linked_list_create_def ll_empty_def numeral_2_eq_2)
  show ?thesis using tp_init_join_forever [OF i run_refl] i by simp
qed

end
