(* ===== verification/Config_Handler.thy ===== *)
theory Config_Handler imports Files
begin

text \<open>
  \<^verbatim>\<open>utils/src/config_handler.c\<close>: files of \<^verbatim>\<open>key = value\<close> lines.

  Both readers work in one array \<^verbatim>\<open>line[512]\<close>: \<^verbatim>\<open>fgets\<close> fills it, and the key and the value are trimmed in
  place, the value behind the NUL that replaces the equals sign. The model keeps this array: a string in
  it is an offset, and \<open>trim\<close> and \<open>strip_inline_comment\<close> change it at that offset. Its initial contents,
  which C leaves unspecified, are an argument.

  \<open>assignments\<close> is the abstract reading of a file; the lemmas show that the in-place code computes it for
  every file whose lines fit the array.
\<close>

section \<open>The code\<close>

definition cstr_at :: "byte list \<Rightarrow> nat \<Rightarrow> cstring" where
  "cstr_at buf off = c_str (drop off buf)"

text \<open>Every string function runs to the next NUL, which has to be in the array.\<close>

definition has_cstr :: "byte list \<Rightarrow> nat \<Rightarrow> bool" where
  "has_cstr buf off \<longleftrightarrow> NUL \<in> set (drop off buf)"

primrec trim_tail :: "byte list \<Rightarrow> nat \<Rightarrow> nat \<Rightarrow> byte list" where
  "trim_tail buf off 0 = buf"
| "trim_tail buf off (Suc len) =
     (if isspace (buf ! (off + len)) then trim_tail (buf[off + len := NUL]) off len else buf)"

definition trim :: "byte list \<Rightarrow> nat \<Rightarrow> byte list res" where
  "trim buf s =
     (if \<not> has_cstr buf s then Inl OutOfBounds
      else
        let p = s + length (takeWhile isspace (cstr_at buf s));
            moved = block_write buf s (cstr_at buf p @ [NUL])
        in Inr (trim_tail moved s (length (cstr_at moved s))))"

definition strip_inline_comment :: "byte list \<Rightarrow> nat option \<Rightarrow> byte list res" where
  "strip_inline_comment buf sp =
     (case sp of
        None \<Rightarrow> Inr buf
      | Some s \<Rightarrow>
          if \<not> has_cstr buf s then Inl OutOfBounds
          else
            (case find (\<lambda>i. buf ! (s + i) = CHR ''#'' \<and> (i = 0 \<or> isspace (buf ! (s + i - 1))))
                    [0..<length (cstr_at buf s)] of
               None \<Rightarrow> Inr buf
             | Some i \<Rightarrow> Inr (buf[s + i := NUL])))"

text \<open>One line, up to the comparison with the keys: the array and the key and value in it, if any.\<close>

definition config_line :: "byte list \<Rightarrow> (byte list \<times> (cstring \<times> cstring) option) res" where
  "config_line line =
     res_bind (trim line 0) (\<lambda>b.
     if b ! 0 = CHR ''#'' \<or> b ! 0 = NUL then Inr (b, None)
     else
       (case strchr (cstr_at b 0) (CHR ''='') of
          None \<Rightarrow> Inr (b, None)
        | Some eq \<Rightarrow>
            res_bind (trim (b[eq := NUL]) 0) (\<lambda>b1.
            res_bind (trim b1 (eq + 1)) (\<lambda>b2.
            res_bind (strip_inline_comment b2 (Some (eq + 1))) (\<lambda>b3.
            res_bind (trim b3 (eq + 1)) (\<lambda>b4.
            Inr (b4, Some (cstr_at b4 0, cstr_at b4 (eq + 1)))))))))"

text \<open>An entry of the arrays \<^verbatim>\<open>keys\<close>, \<^verbatim>\<open>found\<close> and \<^verbatim>\<open>values\<close> at one index; NULL is \<open>None\<close>.\<close>

record config_slot =
  cs_key :: "cstring option"
  cs_found :: bool
  cs_value :: "byte list option"

primrec config_match :: "nat \<Rightarrow> cstring \<Rightarrow> cstring \<Rightarrow> config_slot list \<Rightarrow> config_slot list res" where
  "config_match max_value_len key value [] = Inr []"
| "config_match max_value_len key value (x # xs) =
     res_bind
       (if \<not> cs_found x \<and> cs_key x = Some key then
          (case cs_value x of
             None \<Rightarrow> Inl NullDeref
           | Some dst \<Rightarrow>
               if length dst < max_value_len then Inl OutOfBounds
               else Inr (x\<lparr>cs_value := Some ((strncpy dst value (max_value_len - 1))[max_value_len - 1 := NUL]),
                           cs_found := True\<rparr>))
        else Inr x)
       (\<lambda>y. res_bind (config_match max_value_len key value xs) (\<lambda>ys. Inr (y # ys)))"

function config_loop :: "nat \<Rightarrow> byte list \<Rightarrow> byte list \<Rightarrow> config_slot list \<Rightarrow> config_slot list res" where
  "config_loop max_value_len line f slots =
     (case fgets 512 f of
        None \<Rightarrow> Inr slots
      | Some (l, rest) \<Rightarrow>
          if length line < length l + 1 then Inl OutOfBounds
          else
          (case config_line (block_write line 0 (l @ [NUL])) of
             Inl flt \<Rightarrow> Inl flt
           | Inr (line', None) \<Rightarrow> config_loop max_value_len line' rest slots
           | Inr (line', Some (key, value)) \<Rightarrow>
               (case config_match max_value_len key value slots of
                  Inl flt \<Rightarrow> Inl flt
                | Inr slots' \<Rightarrow> config_loop max_value_len line' rest slots')))"
  by pat_completeness auto

termination config_loop
  by (relation "measure (\<lambda>(_, _, f, _). length f)") (auto intro: fgets_shorter [of 512, simplified])

declare config_loop.simps [simp del]

text \<open>\<^verbatim>\<open>keys\<close> and \<^verbatim>\<open>values\<close> are arrays of \<^verbatim>\<open>key_count\<close> pointers; the result is the code and what the value
  buffers hold.\<close>

definition config_get_value ::
  "byte list \<Rightarrow> files \<Rightarrow> cstring option \<Rightarrow> cstring option list option \<Rightarrow> byte list option list option \<Rightarrow>
     nat \<Rightarrow> nat \<Rightarrow> (int \<times> byte list option list) res" where
  "config_get_value junk fs config_path keys values max_value_len key_count =
     (case (config_path, keys, values) of
        (Some path, Some ks, Some vs) \<Rightarrow>
          if max_value_len = 0 \<or> key_count = 0 then Inr (-2, vs)
          else
            (case fopen_r path fs of
               None \<Rightarrow> Inr (-1, vs)
             | Some (bytes, _) \<Rightarrow>
                 if length ks < key_count \<or> length vs < key_count then Inl OutOfBounds
                 else
                   (case config_loop max_value_len junk bytes
                           (map (\<lambda>i. \<lparr>cs_key = ks ! i, cs_found = False, cs_value = vs ! i\<rparr>) [0..<key_count]) of
                      Inl flt \<Rightarrow> Inl flt
                    | Inr slots \<Rightarrow>
                        Inr (if list_all cs_found slots then 0 else -2,
                             map cs_value slots @ drop key_count vs)))
      | _ \<Rightarrow> Inr (-2, (case values of None \<Rightarrow> [] | Some vs \<Rightarrow> vs)))"

section \<open>Heap-allocated values\<close>

text \<open>The second reader stores copies made with \<^verbatim>\<open>strdup\<close>. The last component of the state lists the copies
  whose only pointer has been overwritten.\<close>

primrec values_match :: "cstring \<Rightarrow> cstring \<Rightarrow> cstring option list \<Rightarrow> cstring option list \<Rightarrow> alloc \<Rightarrow>
     cstring option list \<times> nat \<times> alloc \<times> cstring list" where
  "values_match key value [] vs a = (vs, 0, a, [])"
| "values_match key value (k # ks) vs a =
     (if k = Some key then
        (case strdup value a of (copy, a1) \<Rightarrow>
         case values_match key value ks (tl vs) a1 of (vs', n, a2, lost) \<Rightarrow>
           (copy # vs', (if copy = None then n else Suc n), a2,
            (case hd vs of None \<Rightarrow> lost | Some old \<Rightarrow> old # lost)))
      else
        (case values_match key value ks (tl vs) a of (vs', n, a2, lost) \<Rightarrow> (hd vs # vs', n, a2, lost)))"

function values_loop :: "cstring option list \<Rightarrow> byte list \<Rightarrow> byte list \<Rightarrow> cstring option list \<Rightarrow> nat \<Rightarrow> alloc \<Rightarrow>
     cstring list \<Rightarrow> (cstring option list \<times> nat \<times> alloc \<times> cstring list) res" where
  "values_loop ks line f vs found_count a lost =
     (case fgets 512 f of
        None \<Rightarrow> Inr (vs, found_count, a, lost)
      | Some (l, rest) \<Rightarrow>
          if length line < length l + 1 then Inl OutOfBounds
          else
          (case config_line (block_write line 0 (l @ [NUL])) of
             Inl flt \<Rightarrow> Inl flt
           | Inr (line', None) \<Rightarrow> values_loop ks line' rest vs found_count a lost
           | Inr (line', Some (key, value)) \<Rightarrow>
               (case values_match key value ks vs a of (vs', n, a', lost') \<Rightarrow>
                  values_loop ks line' rest vs' (found_count + n) a' (lost @ lost'))))"
  by pat_completeness auto

termination values_loop
  by (relation "measure (\<lambda>(_, _, f, _). length f)") (auto intro: fgets_shorter [of 512, simplified])

declare values_loop.simps [simp del]

definition config_values_get ::
  "byte list \<Rightarrow> files \<Rightarrow> cstring option \<Rightarrow> cstring option list option \<Rightarrow> cstring option list option \<Rightarrow> nat \<Rightarrow>
     alloc \<Rightarrow> (int \<times> cstring option list \<times> alloc \<times> cstring list) res" where
  "config_values_get junk fs config_path keys values key_count a =
     (case (config_path, keys, values) of
        (Some path, Some ks, Some vs) \<Rightarrow>
          if key_count = 0 then Inr (-1, vs, a, [])
          else
            (case fopen_r path fs of
               None \<Rightarrow> Inr (-1, vs, a, [])
             | Some (bytes, _) \<Rightarrow>
                 if length ks < key_count \<or> length vs < key_count then Inl OutOfBounds
                 else
                   (case values_loop (take key_count ks) junk bytes (replicate key_count None) 0 a [] of
                      Inl flt \<Rightarrow> Inl flt
                    | Inr (vs', n, a', lost) \<Rightarrow> Inr (c_int (int n), vs' @ drop key_count vs, a', lost)))
      | _ \<Rightarrow> Inr (-1, (case values of None \<Rightarrow> [] | Some vs \<Rightarrow> vs), a, []))"

text \<open>The blocks \<^verbatim>\<open>config_values_dispose\<close> frees.\<close>

definition config_values_dispose :: "cstring option list option \<Rightarrow> nat \<Rightarrow> cstring list res" where
  "config_values_dispose values values_count =
     (case values of
        None \<Rightarrow> Inr []
      | Some vs \<Rightarrow>
          if length vs < values_count then Inl OutOfBounds
          else Inr (List.map_filter (\<lambda>v. v) (take values_count vs)))"

section \<open>The abstract reading of a file\<close>

definition strip_ws :: "cstring \<Rightarrow> cstring" where
  "strip_ws s = rstrip isspace (dropWhile isspace s)"

text \<open>A comment starts at a hash sign at the start or after white space.\<close>

fun uncomment :: "bool \<Rightarrow> cstring \<Rightarrow> cstring" where
  "uncomment after_space [] = []"
| "uncomment after_space (c # cs) =
     (if c = CHR ''#'' \<and> after_space then [] else c # uncomment (isspace c) cs)"

definition assignment :: "cstring \<Rightarrow> (cstring \<times> cstring) option" where
  "assignment l =
     (let s = strip_ws l in
      if s = [] \<or> hd s = CHR ''#'' then None
      else map_option (\<lambda>eq. (strip_ws (take eq s), strip_ws (uncomment True (strip_ws (drop (eq + 1) s)))))
             (strchr s (CHR ''='')))"

fun file_lines :: "byte list \<Rightarrow> byte list list" where
  "file_lines [] = []"
| "file_lines (c # cs) =
     (if c = LF then [] # file_lines cs
      else (case file_lines cs of [] \<Rightarrow> [[c]] | l # ls \<Rightarrow> (c # l) # ls))"

definition assignments :: "byte list \<Rightarrow> (cstring \<times> cstring) list" where
  "assignments bytes = List.map_filter assignment (file_lines bytes)"

definition lines_fit :: "byte list \<Rightarrow> bool" where
  "lines_fit bytes \<longleftrightarrow> is_c_str bytes \<and> list_all (\<lambda>l. length l \<le> 510) (file_lines bytes)"

section \<open>Strings in the array\<close>

lemma has_cstr_split: "has_cstr buf s \<longleftrightarrow> (\<exists>pre t post. buf = pre @ t @ NUL # post \<and> length pre = s \<and> is_c_str t)"
proof
  assume "has_cstr buf s"
  then have n: "NUL \<in> set (drop s buf)" by (simp add: has_cstr_def)
  then obtain t post where t: "drop s buf = t @ NUL # post" "NUL \<notin> set t" by (meson split_list_first)
  have "s \<le> length buf" using n by (cases "s \<le> length buf") auto
  moreover have "buf = take s buf @ t @ NUL # post" using t(1) append_take_drop_id [of s buf] by simp
  ultimately show "\<exists>pre t post. buf = pre @ t @ NUL # post \<and> length pre = s \<and> is_c_str t"
    using t(2) by (intro exI [of _ "take s buf"] exI [of _ t] exI [of _ post]) (simp add: is_c_str_def)
qed (auto simp: has_cstr_def)

lemma cstr_at_split [simp]: "is_c_str t \<Longrightarrow> length pre = s \<Longrightarrow> cstr_at (pre @ t @ NUL # post) s = t"
  by (auto simp: cstr_at_def c_str_def is_c_str_def takeWhile_append)

lemma cstr_at_0 [simp]: "is_c_str t \<Longrightarrow> cstr_at (t @ NUL # post) 0 = t"
  using cstr_at_split [of t "[]" 0 post] by simp

lemma trim_tail_split:
  "trim_tail (pre @ t @ NUL # post) (length pre) (length t) =
     pre @ rstrip isspace t @ NUL # replicate (length t - length (rstrip isspace t)) NUL @ post"
proof (induction t arbitrary: post rule: rev_induct)
  case (snoc c t)
  show ?case
  proof (cases "isspace c")
    case True
    then have r: "rstrip isspace (t @ [c]) = rstrip isspace t" by (simp add: rstrip_def)
    have "length (rstrip isspace t) \<le> length t" by (simp add: rstrip_def length_dropWhile_le [of isspace "rev t", simplified])
    then have "replicate (Suc (length t) - length (rstrip isspace t)) NUL =
        replicate (length t - length (rstrip isspace t)) NUL @ [NUL]"
      by (simp add: Suc_diff_le replicate_append_same)
    then show ?thesis using snoc [of "NUL # post"] True r by (simp add: nth_append list_update_append)
  qed (simp add: rstrip_def nth_append)
qed (simp add: rstrip_def)

lemma dropWhile_parts: "s = takeWhile p s @ dropWhile p s"
  by simp

lemma strip_ws_length: "length (strip_ws s) \<le> length s"
  using length_dropWhile_le [of isspace "rev (dropWhile isspace s)"] length_dropWhile_le [of isspace s]
  by (simp add: strip_ws_def rstrip_def)

lemma is_c_str_dropWhile [simp]: "is_c_str s \<Longrightarrow> is_c_str (dropWhile p s)"
  by (auto simp: is_c_str_def dest: set_dropWhileD)

lemma is_c_str_strip_ws [simp]: "is_c_str s \<Longrightarrow> is_c_str (strip_ws s)"
  by (simp add: strip_ws_def)

text \<open>Trimming in place: the string shrinks, nothing before it or behind its NUL changes.\<close>

lemma trim_split:
  assumes "is_c_str t" "length pre = s"
  obtains gap where "trim (pre @ t @ NUL # post) s = Inr (pre @ strip_ws t @ NUL # gap @ post)"
    "length (strip_ws t) + length gap = length t"
proof -
  let ?d = "dropWhile isspace t" and ?w = "takeWhile isspace t"
  let ?rest = "drop (Suc (length ?d)) (t @ [NUL])"
  let ?gap = "replicate (length ?d - length (strip_ws t)) NUL @ ?rest"
  have b: "pre @ t @ NUL # post = (pre @ ?w) @ ?d @ NUL # post" by simp
  have "cstr_at (pre @ t @ NUL # post) (s + length ?w) = ?d"
    unfolding b using assms by (intro cstr_at_split) simp_all
  moreover have "block_write (pre @ t @ NUL # post) s (?d @ [NUL]) = pre @ ?d @ NUL # ?rest @ post"
    using assms(2) length_dropWhile_le [of isspace t] by (auto simp: block_write_def drop_Cons')
  moreover have "has_cstr (pre @ t @ NUL # post) s" using assms by (auto simp: has_cstr_split)
  ultimately have "trim (pre @ t @ NUL # post) s = Inr (trim_tail (pre @ ?d @ NUL # ?rest @ post) s (length ?d))"
    using assms by (simp add: trim_def Let_def)
  then have "trim (pre @ t @ NUL # post) s = Inr (pre @ strip_ws t @ NUL # ?gap @ post)"
    using trim_tail_split [of pre ?d "?rest @ post"] assms(2) by (simp add: strip_ws_def)
  moreover have "length (strip_ws t) \<le> length ?d"
    using length_dropWhile_le [of isspace "rev ?d"] by (simp add: strip_ws_def rstrip_def)
  then have "length (strip_ws t) + length ?gap = length t" using length_dropWhile_le [of isspace t] by simp
  ultimately show thesis by (rule that)
qed

definition comment_at :: "bool \<Rightarrow> cstring \<Rightarrow> nat \<Rightarrow> bool" where
  "comment_at b t i \<longleftrightarrow> t ! i = CHR ''#'' \<and> (if i = 0 then b else isspace (t ! (i - 1)))"

lemma find_map_Suc: "find P (map Suc xs) = map_option Suc (find (\<lambda>i. P (Suc i)) xs)"
  by (induction xs) auto

lemma uncomment_find:
  "(case find (comment_at b t) [0..<length t] of
      None \<Rightarrow> uncomment b t = t
    | Some i \<Rightarrow> i < length t \<and> uncomment b t = take i t)"
proof (induction t arbitrary: b)
  case (Cons c t)
  have u: "[0..<length (c # t)] = 0 # map Suc [0..<length t]" by (simp add: map_Suc_upt upt_conv_Cons del: upt_Suc)
  have "(\<lambda>i. comment_at b (c # t) (Suc i)) = comment_at (isspace c) t"
    by (auto simp: fun_eq_iff comment_at_def nth_Cons')
  moreover have "comment_at b (c # t) 0 \<longleftrightarrow> c = CHR ''#'' \<and> b" by (simp add: comment_at_def)
  ultimately show ?case
    unfolding u using Cons.IH [of "isspace c"] by (auto simp: find_map_Suc split: option.splits)
qed simp

lemma uncomment_length: "length (uncomment b t) \<le> length t"
  by (induction b t rule: uncomment.induct) auto

lemma is_c_str_uncomment [simp]: "is_c_str t \<Longrightarrow> is_c_str (uncomment b t)"
  by (induction b t rule: uncomment.induct) (auto simp: is_c_str_def)

lemma strip_comment_split:
  assumes "is_c_str t" "length pre = s"
  obtains gap where
    "strip_inline_comment (pre @ t @ NUL # post) (Some s) = Inr (pre @ uncomment True t @ NUL # gap @ post)"
    "length (uncomment True t) + length gap = length t"
proof -
  let ?buf = "pre @ t @ NUL # post"
  have h: "has_cstr ?buf s" "cstr_at ?buf s = t" using assms by (auto simp: has_cstr_split)
  have "?buf ! (s + i) = CHR ''#'' \<and> (i = 0 \<or> isspace (?buf ! (s + i - 1))) \<longleftrightarrow> comment_at True t i"
    if "i < length t" for i
    using that assms(2) by (cases i) (simp_all add: nth_append comment_at_def)
  then have f: "find (\<lambda>i. ?buf ! (s + i) = CHR ''#'' \<and> (i = 0 \<or> isspace (?buf ! (s + i - 1)))) [0..<length t] =
      find (comment_at True t) [0..<length t]" (is "_ = ?f")
    by (intro find_cong) auto
  show thesis
  proof (cases ?f)
    case None
    then show thesis
      using that [of "[]"] uncomment_find [of True t] h f by (simp add: strip_inline_comment_def)
  next
    case (Some i)
    then have i: "i < length t" "uncomment True t = take i t" using uncomment_find [of True t] by simp_all
    have "?buf[s + i := NUL] = pre @ take i t @ NUL # (drop (Suc i) t @ [NUL]) @ post"
      using i(1) assms(2) by (simp add: list_update_append upd_conv_take_nth_drop)
    then show thesis
      using that [of "drop (Suc i) t @ [NUL]"] i h f Some by (simp add: strip_inline_comment_def)
  qed
qed

lemma strip_ws_snoc [simp]: "isspace c \<Longrightarrow> strip_ws (l @ [c]) = strip_ws l"
proof (cases "\<forall>c \<in> set l. isspace c")
  case True
  moreover assume "isspace c"
  ultimately have d: "dropWhile isspace (l @ [c]) = []" "dropWhile isspace l = []" by auto
  show ?thesis by (simp only: strip_ws_def d)
next
  case False
  moreover assume "isspace c"
  ultimately have "dropWhile isspace (l @ [c]) = dropWhile isspace l @ [c]" by (auto simp: dropWhile_append3)
  then show ?thesis using \<open>isspace c\<close> by (simp add: strip_ws_def rstrip_def)
qed

lemma strip_ws_Cons [simp]: "isspace c \<Longrightarrow> strip_ws (c # l) = strip_ws l"
  by (simp add: strip_ws_def)

lemma isspace_blanks [simp]: "isspace LF" "isspace SP"
  by (simp_all add: isspace_def)

lemma assignment_LF [simp]: "assignment (l @ [LF]) = assignment l"
  by (simp add: assignment_def)

text \<open>The key and the value of a line, found in place.\<close>

lemma config_pair:
  assumes "is_c_str k" "is_c_str v"
  obtains b1 b2 b3 b4 where
    "trim (k @ NUL # v @ NUL # post) 0 = Inr b1" "trim b1 (length k + 1) = Inr b2"
    "strip_inline_comment b2 (Some (length k + 1)) = Inr b3" "trim b3 (length k + 1) = Inr b4"
    "cstr_at b4 0 = strip_ws k" "cstr_at b4 (length k + 1) = strip_ws (uncomment True (strip_ws v))"
    "length b4 = length (k @ NUL # v @ NUL # post)"
proof -
  obtain g1 where 1: "trim (k @ NUL # v @ NUL # post) 0 = Inr (strip_ws k @ NUL # g1 @ v @ NUL # post)"
      "length (strip_ws k) + length g1 = length k"
    by (rule trim_split [OF assms(1), of "[]" 0 "v @ NUL # post"]) auto
  define pre where "pre = strip_ws k @ NUL # g1"
  have pre: "length pre = length k + 1" using 1(2) by (simp add: pre_def)
  let ?v1 = "strip_ws v" let ?v2 = "uncomment True ?v1"
  have v: "is_c_str ?v1" "is_c_str ?v2" using assms(2) by simp_all
  obtain g2 where 2: "trim (pre @ v @ NUL # post) (length k + 1) = Inr (pre @ ?v1 @ NUL # g2 @ post)"
      "length ?v1 + length g2 = length v"
    by (rule trim_split [OF assms(2) pre])
  obtain g3 where 3: "strip_inline_comment (pre @ ?v1 @ NUL # g2 @ post) (Some (length k + 1)) =
        Inr (pre @ ?v2 @ NUL # g3 @ g2 @ post)" "length ?v2 + length g3 = length ?v1"
    by (rule strip_comment_split [OF v(1) pre])
  obtain g4 where 4: "trim (pre @ ?v2 @ NUL # g3 @ g2 @ post) (length k + 1) =
        Inr (pre @ strip_ws ?v2 @ NUL # g4 @ g3 @ g2 @ post)" "length (strip_ws ?v2) + length g4 = length ?v2"
    by (rule trim_split [OF v(2) pre])
  have "cstr_at (pre @ strip_ws ?v2 @ NUL # g4 @ g3 @ g2 @ post) 0 = strip_ws k"
    using assms(1) by (simp add: pre_def)
  moreover have "cstr_at (pre @ strip_ws ?v2 @ NUL # g4 @ g3 @ g2 @ post) (length k + 1) = strip_ws ?v2"
    using v(2) pre by simp
  moreover have "length (pre @ strip_ws ?v2 @ NUL # g4 @ g3 @ g2 @ post) = length (k @ NUL # v @ NUL # post)"
    using pre 2(2) 3(2) 4(2) by simp
  ultimately show thesis using that 1(1) 2(1) 3(1) 4(1) by (simp add: pre_def)
qed

lemma config_line_law:
  assumes "is_c_str l"
  obtains line' where "config_line (l @ NUL # post) = Inr (line', assignment l)" "length line' = length (l @ NUL # post)"
proof -
  let ?s = "strip_ws l"
  obtain g where g: "trim (l @ NUL # post) 0 = Inr (?s @ NUL # g @ post)" "length ?s + length g = length l"
    using trim_split [OF assms, of "[]" 0 post] by auto
  have s: "is_c_str ?s" using assms by simp
  have h: "(?s @ NUL # g @ post) ! 0 = (if ?s = [] then NUL else hd ?s)" by (cases ?s) auto
  show thesis
  proof (cases "?s = [] \<or> hd ?s = CHR ''#'' \<or> strchr ?s (CHR ''='') = None")
    case True
    then have "config_line (l @ NUL # post) = Inr (?s @ NUL # g @ post, assignment l)"
      using g(1) h s by (auto simp: config_line_def assignment_def Let_def)
    then show thesis using that g(2) by simp
  next
    case False
    then obtain eq where eq: "strchr ?s (CHR ''='') = Some eq" by auto
    let ?k = "take eq ?s" and ?v = "drop (eq + 1) ?s"
    have kv: "?s = ?k @ CHR ''='' # ?v" "eq < length ?s" "is_c_str ?k" "is_c_str ?v"
      using strchr_Some_split [OF eq] strchr_Some_less [OF eq] s by simp_all
    have "(?s @ NUL # g @ post)[eq := NUL] = ?k @ NUL # ?v @ NUL # g @ post"
      using kv(2) by (simp add: list_update_append upd_conv_take_nth_drop)
    moreover obtain b1 b2 b3 b4 where b: "trim (?k @ NUL # ?v @ NUL # g @ post) 0 = Inr b1" "trim b1 (length ?k + 1) = Inr b2"
        "strip_inline_comment b2 (Some (length ?k + 1)) = Inr b3" "trim b3 (length ?k + 1) = Inr b4"
        "cstr_at b4 0 = strip_ws ?k" "cstr_at b4 (length ?k + 1) = strip_ws (uncomment True (strip_ws ?v))"
        "length b4 = length (?k @ NUL # ?v @ NUL # g @ post)"
      by (rule config_pair [OF kv(3,4)])
    moreover have "length ?k = eq" using kv(2) by simp
    moreover have "hd ?s \<noteq> NUL" using s False by (cases ?s) (auto simp: is_c_str_def)
    ultimately have "config_line (l @ NUL # post) = Inr (b4, assignment l)"
      using g(1) h s False eq by (simp add: config_line_def assignment_def Let_def)
    moreover have "length b4 = length (l @ NUL # post)" using b(7) g(2) kv(2) by simp
    ultimately show thesis by (rule that)
  qed
qed

section \<open>Whole files\<close>

lemma file_lines_line: "LF \<notin> set l \<Longrightarrow> file_lines (l @ LF # rest) = l # file_lines rest"
  by (induction l) auto

lemma file_lines_last: "LF \<notin> set l \<Longrightarrow> l \<noteq> [] \<Longrightarrow> file_lines l = [l]"
proof (induction l)
  case (Cons c l)
  then show ?case by (cases l) auto
qed simp

lemma first_line_cases:
  assumes "f \<noteq> []"
  obtains l rest where "f = l @ LF # rest" "LF \<notin> set l" | "LF \<notin> set f"
  using split_list_first [of LF f] by blast

text \<open>Reading a file whose lines fit is reading its first line and the rest.\<close>

lemma fgets_lines:
  assumes "lines_fit f" "f \<noteq> []"
  obtains l rest where "fgets 512 f = Some (l, rest)" "lines_fit rest" "is_c_str l" "length l \<le> 511"
    "assignments f = (case assignment l of None \<Rightarrow> [] | Some kv \<Rightarrow> [kv]) @ assignments rest"
proof (cases rule: first_line_cases [OF assms(2)])
  case (1 l rest)
  then have e: "file_lines f = l # file_lines rest" by (simp add: file_lines_line)
  then have "length l \<le> 510" "lines_fit rest" "is_c_str (l @ [LF])" using assms(1) 1(1) by (auto simp: lines_fit_def is_c_str_def)
  then show thesis
    using that [of "l @ [LF]" rest] fgets_line [OF 1(2), of 512 rest] 1(1) e
    by (simp add: assignments_def map_filter_simps split: option.splits)
next
  case 2
  then have e: "file_lines f = [f]" using assms(2) by (simp add: file_lines_last)
  then have "length f \<le> 510" "is_c_str f" using assms(1) by (auto simp: lines_fit_def)
  then show thesis
    using that [of f "[]"] fgets_last [OF 2 _ assms(2), of 512] e
    by (simp add: assignments_def map_filter_simps lines_fit_def is_c_str_def split: option.splits)
qed

text \<open>One round of either loop: the line is read and split, and the array keeps its size.\<close>

lemma config_round:
  assumes "lines_fit f" "f \<noteq> []" "length line = 512"
  obtains l rest line' where "fgets 512 f = Some (l, rest)" "lines_fit rest" "length l < 512"
    "config_line (block_write line 0 (l @ [NUL])) = Inr (line', assignment l)" "length line' = 512" 
    "assignments f = (case assignment l of None \<Rightarrow> [] | Some kv \<Rightarrow> [kv]) @ assignments rest" "length rest < length f"
proof -
  obtain l rest where r: "fgets 512 f = Some (l, rest)" "lines_fit rest" "is_c_str l" "length l \<le> 511"
      "assignments f = (case assignment l of None \<Rightarrow> [] | Some kv \<Rightarrow> [kv]) @ assignments rest"
    by (rule fgets_lines [OF assms(1,2)])
  have "block_write line 0 (l @ [NUL]) = l @ NUL # drop (Suc (length l)) line" by (simp add: block_write_def)
  moreover obtain line' where "config_line (l @ NUL # drop (Suc (length l)) line) = Inr (line', assignment l)"
      "length line' = length (l @ NUL # drop (Suc (length l)) line)"
    by (rule config_line_law [OF r(3)])
  ultimately show thesis
    using that r assms(3) fgets_shorter [of 512 f l rest] by simp
qed

lemma uncomment_set: "set (uncomment b t) \<subseteq> set t"
  by (induction b t rule: uncomment.induct) auto

lemma strip_ws_set: "set (strip_ws s) \<subseteq> set s"
  by (auto simp: strip_ws_def rstrip_def dest!: set_dropWhileD)

lemma assignment_c_str: "assignment l = Some (k, v) \<Longrightarrow> is_c_str l \<Longrightarrow> is_c_str k \<and> is_c_str v"
  by (auto simp: assignment_def Let_def split: if_splits)

lemma file_lines_c_str: "is_c_str f \<Longrightarrow> l \<in> set (file_lines f) \<Longrightarrow> is_c_str l"
  by (induction f arbitrary: l rule: file_lines.induct) (auto simp: is_c_str_def split: if_splits list.splits)

lemma assignments_c_str: "lines_fit f \<Longrightarrow> (k, v) \<in> set (assignments f) \<Longrightarrow> is_c_str v"
proof -
  assume f: "lines_fit f" and "(k, v) \<in> set (assignments f)"
  then obtain l where "l \<in> set (file_lines f)" "assignment l = Some (k, v)"
    by (auto simp: assignments_def map_filter_def)
  then show ?thesis using f file_lines_c_str assignment_c_str unfolding lines_fit_def by blast
qed

text \<open>What happens to one entry: the first assignment of its key is stored.\<close>

definition stored :: "nat \<Rightarrow> cstring \<Rightarrow> byte list \<Rightarrow> byte list" where
  "stored m v d = (strncpy d v (m - 1))[m - 1 := NUL]"

definition slot_ok :: "nat \<Rightarrow> config_slot \<Rightarrow> bool" where
  "slot_ok m x \<longleftrightarrow> (\<exists>d. cs_value x = Some d \<and> m \<le> length d)"

definition slot_after :: "nat \<Rightarrow> (cstring \<times> cstring) list \<Rightarrow> config_slot \<Rightarrow> config_slot" where
  "slot_after m as x =
     (case Option.bind (cs_key x) (map_of as) of
        None \<Rightarrow> x
      | Some v \<Rightarrow> if cs_found x then x
          else x\<lparr>cs_value := map_option (stored m v) (cs_value x), cs_found := True\<rparr>)"

lemma stored_length [simp]: "0 < m \<Longrightarrow> m \<le> length d \<Longrightarrow> length (stored m v d) = length d"
  by (simp add: stored_def strncpy_def block_write_def min_def)

lemma stored_c_str:
  assumes "0 < m" "m \<le> length d" "is_c_str v"
  shows "c_str (stored m v d) = take (m - 1) v"
proof -
  let ?w = "take (m - 1) v @ replicate (m - 1 - length v) NUL"
  have w: "length ?w = m - 1" by auto
  have "strncpy d v (m - 1) = ?w @ drop (m - 1) d" using w by (simp add: strncpy_def block_write_def)
  moreover obtain y ys where "drop (m - 1) d = y # ys" using assms(1,2) by (cases "drop (m - 1) d") auto
  ultimately have "stored m v d = (?w @ y # ys)[length ?w := NUL]" using w by (simp only: stored_def)
  then have "stored m v d = ?w @ NUL # ys" by (simp only: list_update_length)
  moreover have "c_str (take (m - 1) v @ replicate k NUL @ NUL # ys) = take (m - 1) v" for k
  proof -
    have r: "replicate k NUL @ NUL # ys = NUL # replicate k NUL @ ys" by (simp add: replicate_app_Cons_same)
    have "is_c_str (take (m - 1) v)" using assms(3) by simp
    then show ?thesis unfolding r using cstr_at_0 [of "take (m - 1) v" "replicate k NUL @ ys"] by (simp add: cstr_at_def)
  qed
  ultimately show ?thesis by simp
qed

lemma slot_ok_after [simp]: "0 < m \<Longrightarrow> slot_ok m x \<Longrightarrow> slot_ok m (slot_after m as x)"
  by (auto simp: slot_ok_def slot_after_def split: option.splits)

lemma slot_after_Nil [simp]: "slot_after m [] x = x"
  by (cases "cs_key x") (simp_all add: slot_after_def)

lemma slot_after_append: "slot_after m bs (slot_after m as x) = slot_after m (as @ bs) x"
  by (cases "cs_key x") (auto simp: slot_after_def map_add_def split: option.splits)

lemma config_match_law:
  "list_all (slot_ok m) xs \<Longrightarrow> config_match m k v xs = Inr (map (slot_after m [(k, v)]) xs)"
proof (induction xs)
  case (Cons x xs)
  then have IH: "config_match m k v xs = Inr (map (slot_after m [(k, v)]) xs)" by simp
  obtain d where "cs_value x = Some d" "m \<le> length d" using Cons.prems by (auto simp: slot_ok_def)
  then show ?case using IH by (cases "cs_key x") (auto simp: slot_after_def stored_def)
qed simp

lemma config_loop_law:
  assumes "0 < m" "length line = 512" "lines_fit f" "list_all (slot_ok m) slots"
  shows "config_loop m line f slots = Inr (map (slot_after m (assignments f)) slots)"
  using assms(2-4)
proof (induction "length f" arbitrary: f line slots rule: less_induct)
  case less
  show ?case
  proof (cases "f = []")
    case True
    then show ?thesis by (simp add: config_loop.simps fgets_def assignments_def map_filter_simps map_idI)
  next
    case False
    obtain l rest line' where r: "fgets 512 f = Some (l, rest)" "lines_fit rest" "length l < 512"
        "config_line (block_write line 0 (l @ [NUL])) = Inr (line', assignment l)" "length line' = 512"
        "assignments f = (case assignment l of None \<Rightarrow> [] | Some kv \<Rightarrow> [kv]) @ assignments rest" "length rest < length f"
      by (rule config_round [OF less.prems(2) False less.prems(1)])
    let ?now = "case assignment l of None \<Rightarrow> [] | Some kv \<Rightarrow> [kv]"
    have ok: "list_all (slot_ok m) (map (slot_after m ?now) slots)"
      using less.prems(3) assms(1) by (simp add: list_all_iff)
    have "config_loop m line f slots = config_loop m line' rest (map (slot_after m ?now) slots)"
      using r(1,3,4) less.prems config_match_law [OF less.prems(3)]
      by (simp add: config_loop.simps [of m line f] map_idI split: option.splits)
    then show ?thesis
      using less.hyps [OF r(7,5,2) ok] by (simp add: r(6) slot_after_append)
  qed
qed

lemma config_get_value_law:
  assumes "fopen_r path fs = Some (bytes, n)" "lines_fit bytes" "length junk = 512" "0 < m" "ks \<noteq> []"
    and "length vs = length ks" "\<forall>v \<in> set vs. \<exists>d. v = Some d \<and> m \<le> length d"
  shows "\<exists>vs'. config_get_value junk fs (Some path) (Some ks) (Some vs) m (length ks) =
       Inr (if list_all (\<lambda>k. Option.bind k (map_of (assignments bytes)) \<noteq> None) ks then 0 else -2, vs') \<and>
     length vs' = length ks \<and>
     (\<forall>i < length ks.
        case Option.bind (ks ! i) (map_of (assignments bytes)) of
          None \<Rightarrow> vs' ! i = vs ! i
        | Some v \<Rightarrow> \<exists>d. vs' ! i = Some d \<and> c_str d = take (m - 1) v)"
proof -
  let ?as = "assignments bytes"
  let ?slot = "\<lambda>i. \<lparr>cs_key = ks ! i, cs_found = False, cs_value = vs ! i\<rparr>"
  let ?slots = "map (slot_after m ?as) (map ?slot [0..<length ks])"
  have ok: "list_all (slot_ok m) (map ?slot [0..<length ks])"
    using assms(6,7) by (auto simp: list_all_iff slot_ok_def)
  have f: "cs_found (slot_after m ?as (?slot i)) \<longleftrightarrow> Option.bind (ks ! i) (map_of ?as) \<noteq> None" for i
    by (simp add: slot_after_def split: option.splits)
  have "list_all cs_found ?slots \<longleftrightarrow> list_all (\<lambda>k. Option.bind k (map_of ?as) \<noteq> None) ks"
    unfolding list_all_length using f by simp
  then have "config_get_value junk fs (Some path) (Some ks) (Some vs) m (length ks) =
      Inr (if list_all (\<lambda>k. Option.bind k (map_of ?as) \<noteq> None) ks then 0 else -2, map cs_value ?slots)"
    using assms config_loop_law [OF assms(4,3,2) ok] by (simp add: config_get_value_def del: map_map)
  moreover have "case Option.bind (ks ! i) (map_of ?as) of
        None \<Rightarrow> map cs_value ?slots ! i = vs ! i
      | Some v \<Rightarrow> \<exists>d. map cs_value ?slots ! i = Some d \<and> c_str d = take (m - 1) v" if i: "i < length ks" for i
  proof (cases "Option.bind (ks ! i) (map_of ?as)")
    case (Some v)
    then obtain k where "(k, v) \<in> set ?as" by (auto simp: bind_eq_Some_conv dest: map_of_SomeD)
    then have v: "is_c_str v" using assignments_c_str [OF assms(2)] by blast
    obtain d where "vs ! i = Some d" "m \<le> length d" using assms(6,7) i by (metis nth_mem)
    then show ?thesis using Some i stored_c_str [OF assms(4) _ v] by (simp add: slot_after_def)
  qed (simp add: slot_after_def i)
  ultimately show ?thesis by (intro exI [of _ "map cs_value ?slots"]) simp
qed

text \<open>C29: Reading settings. On every file without NUL whose lines have at most 510 characters
  \<^verbatim>\<open>config_get_value\<close> never leaves its line array or the value buffers. It stores for every key the value
  of the first line that assigns it, cut to \<^verbatim>\<open>max_value_len\<close> - 1 characters and terminated, leaves the
  buffers of the other keys alone, and returns 0 exactly when every key is assigned. A line is split at its
  first equals sign, white space around both sides is dropped, and so is a comment, which starts with a
  hash sign at the start of the line or of the value or after white space.\<close>

theorem config_get_value_first:
  assumes "fopen_r path fs = Some (bytes, n)" "lines_fit bytes" "length junk = 512" "0 < m" "ks \<noteq> []"
    and "length vs = length ks" "\<forall>v \<in> set vs. \<exists>d. v = Some d \<and> m \<le> length d"
  shows "\<exists>vs'. config_get_value junk fs (Some path) (Some ks) (Some vs) m (length ks) =
       Inr (if list_all (\<lambda>k. Option.bind k (map_of (assignments bytes)) \<noteq> None) ks then 0 else -2, vs') \<and>
     length vs' = length ks \<and>
     (\<forall>i < length ks.
        case Option.bind (ks ! i) (map_of (assignments bytes)) of
          None \<Rightarrow> vs' ! i = vs ! i
        | Some v \<Rightarrow> \<exists>d. vs' ! i = Some d \<and> c_str d = take (m - 1) v)"
  by (rule config_get_value_law [OF assms])

text \<open>A directory opens for reading and every read of it fails. The reader takes that for the end of the file and
  returns the code of missing keys.\<close>

theorem config_get_value_directory:
  assumes "f_may_read fs path" "f_node fs path = Some (Directory es n)" "length junk = 512" "0 < m" "ks \<noteq> []"
    and "length vs = length ks" "\<forall>v \<in> set vs. \<exists>d. v = Some d \<and> m \<le> length d"
  shows "config_get_value junk fs (Some path) (Some ks) (Some vs) m (length ks) = Inr (-2, vs)"
proof -
  have r: "fopen_r path fs = Some ([], n)" using assms(1,2) by (simp add: fopen_r_def)
  have a: "assignments [] = []" "lines_fit []" by code_simp+
  have "Option.bind k (map_of (assignments [])) = None" for k by (cases k) (simp_all add: a(1))
  then obtain vs' where v: "config_get_value junk fs (Some path) (Some ks) (Some vs) m (length ks) = Inr (-2, vs')"
      "length vs' = length ks" "\<forall>i < length ks. vs' ! i = vs ! i"
    using config_get_value_law [OF r a(2) assms(3-7)] assms(5) by (cases ks) auto
  then have "vs' = vs" using assms(6) by (intro nth_equalityI) auto
  then show ?thesis using v(1) by simp
qed

section \<open>Heap-allocated values: facts\<close>

definition later :: "(cstring \<times> cstring) list \<Rightarrow> cstring option \<Rightarrow> cstring option \<Rightarrow> cstring option" where
  "later as key old = (case Option.bind key (map_of (rev as)) of None \<Rightarrow> old | Some v \<Rightarrow> Some v)"

definition held :: "cstring option list \<Rightarrow> nat" where
  "held vs = length (filter (\<lambda>v. v \<noteq> None) vs)"

definition hits :: "cstring option list \<Rightarrow> (cstring \<times> cstring) list \<Rightarrow> nat" where
  "hits ks as = sum_list (map (\<lambda>(k, v). count_list ks (Some k)) as)"

lemma later_Nil [simp]: "later [] key old = old"
  by (cases key) (simp_all add: later_def)

lemma later_append: "later bs key (later as key old) = later (as @ bs) key old"
  by (cases key) (auto simp: later_def map_add_def split: option.splits)

lemma held_simps [simp]: "held [] = 0" "held (v # vs) = (if v = None then 0 else 1) + held vs"
  by (simp_all add: held_def)

lemma hits_simps [simp]: "hits ks [] = 0" "hits ks (as @ bs) = hits ks as + hits ks bs" "hits ks ((k, v) # as) = count_list ks (Some k) + hits ks as"
  by (simp_all add: hits_def)

lemma map2_later_Nil [simp]: "length vs = length ks \<Longrightarrow> map2 (later []) ks vs = vs"
proof (induction ks arbitrary: vs)
  case (Cons k ks)
  then show ?case by (cases vs) simp_all
qed simp

lemma map2_later_append:
  "length vs = length ks \<Longrightarrow> map2 (later bs) ks (map2 (later as) ks vs) = map2 (later (as @ bs)) ks vs"
proof (induction ks arbitrary: vs)
  case (Cons k ks)
  then show ?case by (cases vs) (simp_all add: later_append)
qed simp

lemma values_match_law:
  "length vs = length ks \<Longrightarrow>
     \<exists>lost. values_match k v ks vs [] = (map2 (later [(k, v)]) ks vs, count_list ks (Some k), [], lost) \<and>
       held (map2 (later [(k, v)]) ks vs) + length lost = held vs + count_list ks (Some k)"
proof (induction ks arbitrary: vs)
  case (Cons key ks)
  then obtain old vs' where vs: "vs = old # vs'" "length vs' = length ks" by (cases vs) auto
  obtain lost where IH: "values_match k v ks vs' [] = (map2 (later [(k, v)]) ks vs', count_list ks (Some k), [], lost)"
      "held (map2 (later [(k, v)]) ks vs') + length lost = held vs' + count_list ks (Some k)"
    using Cons.IH [OF vs(2)] by blast
  then show ?case
    by (cases key; cases old) (auto simp: vs(1) later_def)
qed simp

lemma values_loop_law:
  assumes "length line = 512" "lines_fit f" "length vs = length ks"
  shows "\<exists>lost'. values_loop ks line f vs n [] lost =
       Inr (map2 (later (assignments f)) ks vs, n + hits ks (assignments f), [], lost') \<and>
     held (map2 (later (assignments f)) ks vs) + length lost' = held vs + length lost + hits ks (assignments f)"
  using assms
proof (induction "length f" arbitrary: f line vs n lost rule: less_induct)
  case less
  show ?case
  proof (cases "f = []")
    case True
    then have "assignments f = []" by (simp add: assignments_def map_filter_simps)
    then show ?thesis using True less.prems(3) by (simp add: values_loop.simps fgets_def)
  next
    case False
    obtain l rest line' where r: "fgets 512 f = Some (l, rest)" "lines_fit rest" "length l < 512"
        "config_line (block_write line 0 (l @ [NUL])) = Inr (line', assignment l)" "length line' = 512"
        "assignments f = (case assignment l of None \<Rightarrow> [] | Some kv \<Rightarrow> [kv]) @ assignments rest" "length rest < length f"
      by (rule config_round [OF less.prems(2) False less.prems(1)])
    show ?thesis
    proof (cases "assignment l")
      case None
      then have "values_loop ks line f vs n [] lost = values_loop ks line' rest vs n [] lost"
        using r(1,3,4) less.prems(1) by (simp add: values_loop.simps [of ks line f])
      then show ?thesis using less.hyps [OF r(7,5,2) less.prems(3), of n lost] r(6) None by simp
    next
      case (Some kv)
      obtain k v where kv: "kv = (k, v)" by (cases kv)
      obtain lost1 where m: "values_match k v ks vs [] = (map2 (later [(k, v)]) ks vs, count_list ks (Some k), [], lost1)"
          "held (map2 (later [(k, v)]) ks vs) + length lost1 = held vs + count_list ks (Some k)"
        using values_match_law [OF less.prems(3)] by blast
      have len: "length (map2 (later [(k, v)]) ks vs) = length ks" using less.prems(3) by simp
      have "values_loop ks line f vs n [] lost = values_loop ks line' rest (map2 (later [(k, v)]) ks vs)
          (n + count_list ks (Some k)) [] (lost @ lost1)"
        using r(1,3,4) less.prems(1) m(1) Some kv by (simp add: values_loop.simps [of ks line f])
      then show ?thesis
        using less.hyps [OF r(7,5,2) len, of "n + count_list ks (Some k)" "lost @ lost1"] m(2) Some kv
          map2_later_append [OF less.prems(3), of "assignments rest" "[(k, v)]"]
        by (auto simp: r(6))
    qed
  qed
qed

lemma map2_later_None: "map2 (later as) ks (replicate (length ks) None) = map (\<lambda>k. Option.bind k (map_of (rev as))) ks"
  by (induction ks) (auto simp: later_def split: option.splits)

lemma held_last:
  "held (map (\<lambda>k. Option.bind k (map_of (rev as))) ks) = length (filter (\<lambda>k. Option.bind k (map_of as) \<noteq> None) ks)"
proof (induction ks)
  case (Cons k ks)
  have "Option.bind k (map_of (rev as)) = None \<longleftrightarrow> Option.bind k (map_of as) = None"
    by (cases k) (simp_all add: map_of_eq_None_iff)
  then show ?case using Cons by simp
qed simp

lemma config_values_get_law:
  assumes "fopen_r path fs = Some (bytes, n)" "lines_fit bytes" "length junk = 512" "ks \<noteq> []" "length vs = length ks"
  shows "\<exists>lost. config_values_get junk fs (Some path) (Some ks) (Some vs) (length ks) [] =
       Inr (c_int (int (hits ks (assignments bytes))), map (\<lambda>k. Option.bind k (map_of (rev (assignments bytes)))) ks, [], lost) \<and>
     hits ks (assignments bytes) =
       length (filter (\<lambda>k. Option.bind k (map_of (assignments bytes)) \<noteq> None) ks) + length lost"
proof -
  have "length (replicate (length ks) (None :: cstring option)) = length ks" by simp
  then obtain lost where l: "values_loop ks junk bytes (replicate (length ks) None) 0 [] [] =
       Inr (map (\<lambda>k. Option.bind k (map_of (rev (assignments bytes)))) ks, hits ks (assignments bytes), [], lost)"
      "held (map (\<lambda>k. Option.bind k (map_of (rev (assignments bytes)))) ks) + length lost =
        held (replicate (length ks) None) + hits ks (assignments bytes)"
    using values_loop_law [OF assms(3,2), of "replicate (length ks) None" ks 0 "[]"] unfolding map2_later_None by auto
  have "held (replicate (length ks) None) = 0" by (simp add: held_def)
  then show ?thesis using l assms by (auto simp: config_values_get_def held_last)
qed

text \<open>C31: The second reader, \<^verbatim>\<open>config_values_get\<close>, with memory granted: for every key a copy of the value of the
  last line that assigns it, NULL for the other keys. What it returns is not the number of keys found but
  the number of copies it made, and each copy that is not handed out has lost its only pointer: a key
  assigned twice is counted twice and one copy leaks.\<close>

theorem config_values_get_last:
  assumes "fopen_r path fs = Some (bytes, n)" "lines_fit bytes" "length junk = 512" "ks \<noteq> []" "length vs = length ks"
  shows "\<exists>lost. config_values_get junk fs (Some path) (Some ks) (Some vs) (length ks) [] =
       Inr (c_int (int (hits ks (assignments bytes))), map (\<lambda>k. Option.bind k (map_of (rev (assignments bytes)))) ks, [], lost) \<and>
     hits ks (assignments bytes) =
       length (filter (\<lambda>k. Option.bind k (map_of (assignments bytes)) \<noteq> None) ks) + length lost"
  by (rule config_values_get_law [OF assms])

section \<open>Round trip\<close>

definition config_text :: "(cstring \<times> cstring) list \<Rightarrow> byte list" where
  "config_text kvs = concat (map (\<lambda>(k, v). k @ '' = '' @ v @ [LF]) kvs)"

text \<open>Keys and values that a line can carry.\<close>

definition config_pair_ok :: "cstring \<times> cstring \<Rightarrow> bool" where
  "config_pair_ok kv \<longleftrightarrow>
     (case kv of (k, v) \<Rightarrow>
        k \<noteq> [] \<and> hd k \<noteq> CHR ''#'' \<and>
        CHR ''='' \<notin> set k \<and> \<not> isspace (hd k) \<and> \<not> isspace (last k) \<and> is_c_str k \<and> LF \<notin> set k \<and>
        v \<noteq> [] \<and> \<not> isspace (hd v) \<and> \<not> isspace (last v) \<and> uncomment True v = v \<and> is_c_str v \<and> LF \<notin> set v \<and> length k + length v \<le> 507)"

lemma strip_ws_ends: "s = [] \<or> \<not> isspace (hd s) \<and> \<not> isspace (last s) \<Longrightarrow> strip_ws s = s"
proof -
  assume a: "s = [] \<or> \<not> isspace (hd s) \<and> \<not> isspace (last s)"
  then have "dropWhile isspace s = s" by (cases s) auto
  then show ?thesis using a by (auto simp: strip_ws_def intro!: rstrip_id)
qed

lemma assignment_pair: "config_pair_ok (k, v) \<Longrightarrow> assignment (k @ '' = '' @ v) = Some (k, v)"
proof -
  assume ok: "config_pair_ok (k, v)"
  then have e: "\<not> isspace (hd k)" "\<not> isspace (last k)" "\<not> isspace (last v)" "k \<noteq> []" "v \<noteq> []"
    by (auto simp: config_pair_ok_def)
  have s: "strip_ws (k @ '' = '' @ v) = k @ '' = '' @ v"
    using e by (intro strip_ws_ends) simp
  have c: "strchr (k @ '' = '' @ v) (CHR ''='') = Some (Suc (length k))"
    using strchr_append_found [of "CHR ''=''" "k @ '' ''" "'' '' @ v"] ok by (simp add: config_pair_ok_def)
  have "strip_ws k = k" "strip_ws v = v" using ok by (auto simp: config_pair_ok_def intro!: strip_ws_ends)
  then have "strip_ws (k @ '' '') = k" "strip_ws ('' '' @ v) = v" by simp_all
  then show ?thesis using s c e ok by (simp add: assignment_def Let_def config_pair_ok_def)
qed

lemma config_text_law:
  assumes "list_all config_pair_ok kvs"
  shows "lines_fit (config_text kvs)" "assignments (config_text kvs) = kvs"
proof -
  have l: "file_lines (config_text kvs) = map (\<lambda>(k, v). k @ '' = '' @ v) kvs"
    using assms
  proof (induction kvs)
    case (Cons kv kvs)
    obtain k v where kv: "kv = (k, v)" by (cases kv)
    have "LF \<notin> set (k @ '' = '' @ v)" using Cons.prems by (simp add: kv config_pair_ok_def)
    from file_lines_line [OF this, of "config_text kvs"] show ?case
      using Cons by (simp add: kv config_text_def)
  qed (simp add: config_text_def)
  show "lines_fit (config_text kvs)"
    unfolding lines_fit_def l
  proof
    show "is_c_str (config_text kvs)"
      using assms by (induction kvs) (auto simp: config_text_def config_pair_ok_def is_c_str_def)
    show "list_all (\<lambda>l. length l \<le> 510) (map (\<lambda>(k, v). k @ '' = '' @ v) kvs)"
      using assms by (induction kvs) (auto simp: config_pair_ok_def)
  qed
  show "assignments (config_text kvs) = kvs"
    using assms unfolding assignments_def l
    by (induction kvs) (auto simp: map_filter_simps assignment_pair [simplified])
qed

lemma count_list_distinct: "distinct xs \<Longrightarrow> count_list xs x = (if x \<in> set xs then 1 else 0)"
  by (induction xs) auto

text \<open>Looking up the keys of a list of pairs in the list itself.\<close>

lemma own_keys:
  assumes "distinct (map fst kvs)"
  shows "hits (map (Some \<circ> fst) kvs) kvs = length kvs"
    "\<And>k. k \<in> set (map (Some \<circ> fst) kvs) \<Longrightarrow> Option.bind k (map_of kvs) \<noteq> None"
    "map (\<lambda>k. Option.bind k (map_of (rev kvs))) (map (Some \<circ> fst) kvs) = map (Some \<circ> snd) kvs"
proof -
  let ?ks = "map (Some \<circ> fst) kvs"
  have "count_list ?ks (Some k) = 1" if "(k, v) \<in> set kvs" for k v
  proof -
    have "distinct ?ks" using assms by (simp add: distinct_map comp_inj_on_iff [symmetric] comp_inj_on)
    moreover have "Some k \<in> set ?ks" using that by force
    ultimately show ?thesis by (simp add: count_list_distinct)
  qed
  then have m: "map (\<lambda>(k, v). count_list ?ks (Some k)) kvs = map (\<lambda>_. 1) kvs" by (intro map_cong) auto
  show "hits ?ks kvs = length kvs" unfolding hits_def m by (simp add: sum_list_triv)
  show "Option.bind k (map_of kvs) \<noteq> None" if k: "k \<in> set ?ks" for k
  proof -
    obtain x where "k = Some x" "x \<in> fst ` set kvs" using k by auto
    then show ?thesis using map_of_eq_None_iff [of kvs x] by simp
  qed
  show "map (\<lambda>k. Option.bind k (map_of (rev kvs))) ?ks = map (Some \<circ> snd) kvs"
    using assms by (intro nth_equalityI) (auto simp: rev_map [symmetric])
qed

lemma config_text_values:
  assumes "list_all config_pair_ok kvs" "kvs \<noteq> []" "distinct (map fst kvs)" "length kvs < 2 ^ 31"
    and "fopen_r path fs = Some (config_text kvs, int (length (config_text kvs)))" "length junk = 512"
  shows "config_values_get junk fs (Some path) (Some (map (Some \<circ> fst) kvs)) (Some (replicate (length kvs) None)) (length kvs) [] =
       Inr (int (length kvs), map (Some \<circ> snd) kvs, [], [])"
proof -
  let ?ks = "map (Some \<circ> fst) kvs"
  note t = config_text_law [OF assms(1)] and o = own_keys [OF assms(3)]
  have ks: "?ks \<noteq> []" using assms(2) by simp
  have all: "filter (\<lambda>k. Option.bind k (map_of kvs) \<noteq> None) ?ks = ?ks" using o(2) by (simp add: filter_id_conv)
  have len: "length (replicate (length kvs) None) = length ?ks" by simp
  obtain lost where g: "config_values_get junk fs (Some path) (Some ?ks) (Some (replicate (length kvs) None)) (length ?ks) [] =
       Inr (c_int (int (length kvs)), map (Some \<circ> snd) kvs, [], lost)" "length kvs = length ?ks + length lost"
    using config_values_get_law [OF assms(5) t(1) assms(6) ks len] unfolding t(2) o(1) all o(3) by blast
  have "lost = []" using g(2) by simp
  then show ?thesis using g(1) c_int_nat_id [OF assms(4)] by (simp only: length_map)
qed

lemma config_text_get:
  assumes "list_all config_pair_ok kvs" "kvs \<noteq> []" "distinct (map fst kvs)" "\<forall>(k, v) \<in> set kvs. length v < m"
    and "fopen_r path fs = Some (config_text kvs, int (length (config_text kvs)))" "length junk = 512"
  shows "\<exists>vs. config_get_value junk fs (Some path) (Some (map (Some \<circ> fst) kvs))
         (Some (replicate (length kvs) (Some (replicate m NUL)))) m (length kvs) = Inr (0, vs) \<and>
       map (map_option c_str) vs = map (Some \<circ> snd) kvs"
proof -
  let ?ks = "map (Some \<circ> fst) kvs"
  note t = config_text_law [OF assms(1)] and o = own_keys [OF assms(3)]
  have ks: "?ks \<noteq> []" using assms(2) by simp
  have m: "0 < m" using assms(2,4) by (cases kvs) auto
  have "list_all (\<lambda>k. Option.bind k (map_of kvs) \<noteq> None) ?ks" using o(2) by (simp add: list_all_iff)
  moreover obtain vs where v: "config_get_value junk fs (Some path) (Some ?ks)
        (Some (replicate (length kvs) (Some (replicate m NUL)))) m (length ?ks) =
       Inr (if list_all (\<lambda>k. Option.bind k (map_of kvs) \<noteq> None) ?ks then 0 else -2, vs)" "length vs = length ?ks"
      "\<forall>i < length ?ks. case Option.bind (?ks ! i) (map_of kvs) of None \<Rightarrow> vs ! i = replicate (length kvs) (Some (replicate m NUL)) ! i
        | Some v \<Rightarrow> \<exists>d. vs ! i = Some d \<and> c_str d = take (m - 1) v"
    using config_get_value_law [OF assms(5) t(1) assms(6) m ks, of "replicate (length kvs) (Some (replicate m NUL))"]
    unfolding t(2) by auto
  moreover have "map (map_option c_str) vs = map (Some \<circ> snd) kvs"
  proof (rule nth_equalityI)
    fix i assume "i < length (map (map_option c_str) vs)"
    then have i: "i < length kvs" using v(2) by simp
    have look: "map_of kvs (fst (kvs ! i)) = Some (snd (kvs ! i))" using i assms(3) by simp
    have "length (snd (kvs ! i)) \<le> m - 1" using assms(4) nth_mem [OF i] by (cases "kvs ! i") fastforce
    then show "map (map_option c_str) vs ! i = map (Some \<circ> snd) kvs ! i"
      using v(2,3) i look by force
  qed (use v(2) in simp)
  ultimately show ?thesis by auto
qed

text \<open>C30: A file written from keys and values in the form \<^verbatim>\<open>key = value\<close> is read back as it was: with distinct
  keys and memory granted \<^verbatim>\<open>config_values_get\<close> returns their number and exactly the values, with no copy
  lost, and \<^verbatim>\<open>config_get_value\<close> succeeds with the same values in every buffer that is large enough.\<close>

theorem config_roundtrip:
  assumes "list_all config_pair_ok kvs" "kvs \<noteq> []" "distinct (map fst kvs)" "length kvs < 2 ^ 31"
    and "f_node fs path = Some (Regular (config_text kvs))" "f_may_read fs path" "length junk = 512"
    and "\<forall>(k, v) \<in> set kvs. length v < m"
  shows "config_values_get junk fs (Some path) (Some (map (Some \<circ> fst) kvs)) (Some (replicate (length kvs) None)) (length kvs) [] =
       Inr (int (length kvs), map (Some \<circ> snd) kvs, [], []) \<and>
     (\<exists>vs. config_get_value junk fs (Some path) (Some (map (Some \<circ> fst) kvs))
         (Some (replicate (length kvs) (Some (replicate m NUL)))) m (length kvs) = Inr (0, vs) \<and>
       map (map_option c_str) vs = map (Some \<circ> snd) kvs)"
proof -
  have o: "fopen_r path fs = Some (config_text kvs, int (length (config_text kvs)))"
    using assms(5,6) by (simp add: fopen_r_def)
  show ?thesis
    using config_text_values [OF assms(1-4) o assms(7)] config_text_get [OF assms(1-3,8) o assms(7)] by blast
qed


section \<open>Examples\<close>

definition config_example :: files where
  "config_example = files0 [''c'' \<mapsto> Regular (''# c'' @ [LF] @ '' port = 80  # web'' @ [LF] @ ''host=a#b'' @ [LF] @ ''port=81'')]"

lemma config_example_read:
  "fopen_r ''c'' config_example = Some (''# c'' @ [LF] @ '' port = 80  # web'' @ [LF] @ ''host=a#b'' @ [LF] @ ''port=81'', 38)"
  by (simp add: fopen_r_def config_example_def files0_def)

lemma config_example_assignments:
  "lines_fit (''# c'' @ [LF] @ '' port = 80  # web'' @ [LF] @ ''host=a#b'' @ [LF] @ ''port=81'')"
  "assignments (''# c'' @ [LF] @ '' port = 80  # web'' @ [LF] @ ''host=a#b'' @ [LF] @ ''port=81'') =
     [(''port'', ''80''), (''host'', ''a#b''), (''port'', ''81'')]"
  by code_simp+

theorem config_get_value_first_witness:
  "\<exists>d. config_get_value (replicate 512 NUL) config_example (Some ''c'') (Some [Some ''port'']) (Some [Some ''xxxx'']) 4 1 =
     Inr (0, [Some d]) \<and> c_str d = ''80''"
  using config_get_value_first [OF config_example_read config_example_assignments(1), of "replicate 512 NUL" 4 "[Some ''port'']" "[Some ''xxxx'']"]
  by (simp add: config_example_assignments(2) [simplified]) (auto simp: length_Suc_conv)

theorem config_values_get_last_witness:
  "\<exists>lost. config_values_get (replicate 512 NUL) config_example (Some ''c'') (Some [Some ''port'']) (Some [None]) 1 [] =
     Inr (2, [Some ''81''], [], lost) \<and> length lost = 1"
  using config_values_get_last [OF config_example_read config_example_assignments(1), of "replicate 512 NUL" "[Some ''port'']" "[None]"]
  by (simp add: config_example_assignments(2) [simplified] c_int_def) metis

lemma config_pairs_example: "list_all config_pair_ok [(''a'', ''1''), (''b'', ''x y'')]"
  by code_simp

theorem config_roundtrip_witness:
  "config_values_get (replicate 512 NUL) (files0 [''c'' \<mapsto> Regular (config_text [(''a'', ''1''), (''b'', ''x y'')])])
     (Some ''c'') (Some [Some ''a'', Some ''b'']) (Some [None, None]) (Suc (Suc 0)) [] = Inr (2, [Some ''1'', Some ''x y''], [], [])"
  using config_roundtrip [OF config_pairs_example,
      of "files0 [''c'' \<mapsto> Regular (config_text [(''a'', ''1''), (''b'', ''x y'')])]" "''c''" "replicate 512 NUL" 8]
  by (simp add: files0_def)

end
