(* ===== verification/File_Utils.thy ===== *)
theory File_Utils imports Files
begin

text \<open>
  \<^verbatim>\<open>utils/src/file_utils.c\<close> over the files of theory \<open>Files\<close> (the POSIX branch of the sources).

  The number of heap blocks \<^verbatim>\<open>list_filenames_with_ext\<close> holds is counted, so that a leak is a number. The
  messages the functions print are not modelled.
\<close>

section \<open>The code\<close>

definition directory_exists :: "cstring \<Rightarrow> files \<Rightarrow> bool" where
  "directory_exists path fs = (case f_node fs path of Some (Directory _ _) \<Rightarrow> True | _ \<Rightarrow> False)"

definition file_exists :: "cstring \<Rightarrow> files \<Rightarrow> bool" where
  "file_exists path fs = (case f_node fs path of Some (Regular _) \<Rightarrow> True | _ \<Rightarrow> False)"

text \<open>\<^verbatim>\<open>mkdir\<close>: whether it succeeded, and whether \<^verbatim>\<open>errno\<close> is \<^verbatim>\<open>EEXIST\<close> otherwise.\<close>

definition sys_mkdir :: "cstring \<Rightarrow> files \<Rightarrow> bool \<times> bool \<times> files" where
  "sys_mkdir path fs =
     (if f_node fs path \<noteq> None then (False, True, fs)
      else if f_may_write fs path then (True, False, fs\<lparr>f_node := (f_node fs)(path \<mapsto> Directory [] 0)\<rparr>)
      else (False, False, fs))"

definition create_directory_if_not_exists :: "cstring \<Rightarrow> files \<Rightarrow> int \<times> files" where
  "create_directory_if_not_exists path fs =
     (if directory_exists path fs then (0, fs)
      else
        (case sys_mkdir path fs of (ok, eexist, fs') \<Rightarrow>
           if \<not> ok \<and> \<not> eexist then (-1, fs') else (0, fs')))"

definition write_string_to_file :: "cstring option \<Rightarrow> cstring option \<Rightarrow> files \<Rightarrow> int \<times> files" where
  "write_string_to_file str filename fs =
     (case (str, filename) of
        (Some s, Some path) \<Rightarrow>
          (case fopen_w path fs of
             None \<Rightarrow> (-1, fs)
           | Some fs' \<Rightarrow> (0, stream_write path s fs'))
      | _ \<Rightarrow> (ERR_INVALID_ARG, fs))"

text \<open>The result is the heap block returned. An allocation of more than \<^verbatim>\<open>PTRDIFF_MAX\<close> bytes always fails.\<close>

definition read_file_to_string :: "cstring \<Rightarrow> files \<Rightarrow> alloc \<Rightarrow> (byte list option \<times> alloc) res" where
  "read_file_to_string filename fs a =
     (case fopen_r filename fs of
        None \<Rightarrow> Inr (None, a)
      | Some (bytes, end_pos) \<Rightarrow>
          let file_size = c_size end_pos; want = c_size (file_size + 1) in
          (case (if want \<ge> 2 ^ 63 then (False, a) else malloc a) of (ok, a') \<Rightarrow>
             if \<not> ok then Inr (None, a')
             else
               let read_size = min (int (length bytes)) file_size in
               if read_size > want then Inl OutOfBounds
               else if read_size \<noteq> file_size then Inr (None, a')
               else Inr (Some (take (nat file_size) bytes @ [NUL]), a')))"

definition opendir :: "cstring \<Rightarrow> files \<Rightarrow> dirent list option" where
  "opendir path fs =
     (if \<not> f_may_read fs path then None
      else (case f_node fs path of Some (Directory es _) \<Rightarrow> Some es | _ \<Rightarrow> None))"

definition dot_name :: "cstring \<Rightarrow> bool" where
  "dot_name name \<longleftrightarrow> name = ''.'' \<or> name = ''..''"

primrec count_loop :: "cstring \<Rightarrow> dirent list \<Rightarrow> int \<Rightarrow> int res" where
  "count_loop ext [] n = Inr n"
| "count_loop ext (e # es) n =
     (let name = d_name e in
      if dot_name name then count_loop ext es n
      else if d_type e \<noteq> DT_REG \<and> d_type e \<noteq> DT_UNKNOWN then count_loop ext es n
      else if length name \<ge> length ext \<and> drop (length name - length ext) name = ext then
        (if n = INT_MAX then Inl SignedOverflow else count_loop ext es (n + 1))
      else count_loop ext es n)"

definition count_files_with_extension :: "cstring option \<Rightarrow> cstring option \<Rightarrow> files \<Rightarrow> int res" where
  "count_files_with_extension dirp extp fs =
     (case extp of
        None \<Rightarrow> Inl NullDeref
      | Some ext \<Rightarrow>
          (case dirp of
             None \<Rightarrow> Inr (-1)
           | Some path \<Rightarrow> (case opendir path fs of None \<Rightarrow> Inr (-1) | Some es \<Rightarrow> count_loop ext es 0)))"

definition has_extension :: "cstring \<Rightarrow> cstring \<Rightarrow> bool" where
  "has_extension name ext =
     (let len_name = length name; len_ext = length ext in
      if len_name < len_ext + 1 then False
      else if name ! (len_name - len_ext - 1) \<noteq> CHR ''.'' then False
      else drop (len_name - len_ext) name = ext)"

text \<open>The array \<^verbatim>\<open>result\<close> holds \<^verbatim>\<open>count\<close> names in a block of \<^verbatim>\<open>capacity\<close> pointers (no block when it is 0);
  \<open>live\<close> counts the blocks allocated and not freed. The result \<open>None\<close> is the early return of NULL.\<close>

primrec list_loop :: "cstring \<Rightarrow> dirent list \<Rightarrow> cstring list \<Rightarrow> nat \<Rightarrow> nat \<Rightarrow> alloc \<Rightarrow>
     ((cstring list \<times> nat) option \<times> nat \<times> alloc) res" where
  "list_loop ext [] names capacity live a = Inr (Some (names, capacity), live, a)"
| "list_loop ext (e # es) names capacity live a =
     (let name = d_name e in
      if dot_name name then list_loop ext es names capacity live a
      else if \<not> has_extension name ext then list_loop ext es names capacity live a
      else
        (case (if length names = capacity then
                 (case malloc a of (ok, a') \<Rightarrow>
                    (ok, if capacity = 0 then 8 else capacity * 2, if capacity = 0 \<and> ok then live + 1 else live, a'))
               else (True, capacity, live, a)) of
           (ok, capacity', live', a1) \<Rightarrow>
             if \<not> ok then Inr (None, live' - length names - (if capacity = 0 then 0 else 1), a1)
             else if length names \<ge> capacity' then Inl OutOfBounds
             else
               (case strdup name a1 of
                  (None, a2) \<Rightarrow> Inr (None, live' - length names - 1, a2)
                | (Some copy, a2) \<Rightarrow> list_loop ext es (names @ [copy]) capacity' (live' + 1) a2)))"

text \<open>What is returned: the names (\<open>None\<close>: NULL), the value of \<^verbatim>\<open>*_count_out\<close> (\<open>None\<close>: not written), whether the
  array ends with NULL, the blocks in use.\<close>

record listing =
  lg_names :: "cstring list option"
  lg_count :: "nat option"
  lg_terminated :: bool
  lg_live :: nat

definition list_filenames_with_ext ::
  "cstring option \<Rightarrow> cstring option \<Rightarrow> bool \<Rightarrow> files \<Rightarrow> alloc \<Rightarrow> (listing \<times> alloc) res" where
  "list_filenames_with_ext dirpath extp count_out fs a =
     (case (dirpath, extp, count_out) of
        (Some path, Some ext, True) \<Rightarrow>
          (case opendir path fs of
             None \<Rightarrow> Inr (\<lparr>lg_names = None, lg_count = Some 0, lg_terminated = False, lg_live = 0\<rparr>, a)
           | Some es \<Rightarrow>
               (case list_loop ext es [] 0 0 a of
                  Inl flt \<Rightarrow> Inl flt
                | Inr (None, live, a1) \<Rightarrow>
                    Inr (\<lparr>lg_names = None, lg_count = Some 0, lg_terminated = False, lg_live = live\<rparr>, a1)
                | Inr (Some (names, capacity), live, a1) \<Rightarrow>
                    (case malloc a1 of (ok, a2) \<Rightarrow>
                       if \<not> ok then
                         Inr (\<lparr>lg_names = (if capacity = 0 then None else Some names), lg_count = Some (length names),
                              lg_terminated = False, lg_live = live\<rparr>, a2)
                       else
                         Inr (\<lparr>lg_names = Some names, lg_count = Some (length names), lg_terminated = True,
                              lg_live = (if capacity = 0 then live + 1 else live)\<rparr>, a2))))
      | _ \<Rightarrow> Inr (\<lparr>lg_names = None, lg_count = None, lg_terminated = False, lg_live = 0\<rparr>, a))"

section \<open>Whole files\<close>

lemma read_regular:
  assumes "f_may_read fs path" "f_node fs path = Some (Regular d)" "length d < 2 ^ 62"
  shows "read_file_to_string path fs [] = Inr (Some (d @ [NUL]), [])"
proof -
  have "int (length d) < 2 ^ 62" using assms(3) by simp
  then show ?thesis using assms(1,2) by (simp add: read_file_to_string_def fopen_r_def Let_def c_size_id)
qed

text \<open>C33: A string written with \<^verbatim>\<open>write_string_to_file\<close> is what \<^verbatim>\<open>read_file_to_string\<close> returns afterwards, and no
  other path changes. When the device takes only part of the string, the call still returns 0 and that
  part is read back.\<close>

theorem write_read_roundtrip:
  assumes "f_may_write fs path" "f_may_read fs path" "f_node fs path = None \<or> (\<exists>old. f_node fs path = Some (Regular old))"
    and "length s < 2 ^ 62"
  shows "\<exists>fs'. write_string_to_file (Some s) (Some path) fs = (0, fs') \<and>
     read_file_to_string path fs' [] = Inr (Some (take (f_space fs) s @ [NUL]), []) \<and>
     (\<forall>q. q \<noteq> path \<longrightarrow> f_node fs' q = f_node fs q)"
proof -
  let ?d = "take (f_space fs) s"
  let ?fs = "fs\<lparr>f_node := (f_node fs)(path \<mapsto> Regular ?d), f_space := f_space fs - length s\<rparr>"
  have "fopen_w path fs = Some (fs\<lparr>f_node := (f_node fs)(path \<mapsto> Regular [])\<rparr>)"
    using assms(1,3) by (auto simp: fopen_w_def)
  then have "write_string_to_file (Some s) (Some path) fs = (0, ?fs)"
    by (simp add: write_string_to_file_def stream_write_def)
  moreover have "read_file_to_string path ?fs [] = Inr (Some (?d @ [NUL]), [])"
    using assms(2,4) by (intro read_regular) (simp_all add: min_def)
  ultimately show ?thesis by (intro exI [of _ ?fs]) simp
qed

theorem write_read_roundtrip_witness:
  "\<exists>fs'. write_string_to_file (Some ''hi'') (Some ''f'') (files0 [''f'' \<mapsto> Regular ''old text'']) = (0, fs') \<and>
     read_file_to_string ''f'' fs' [] = Inr (Some (''hi'' @ [NUL]), [])"
  using write_read_roundtrip [of "files0 [''f'' \<mapsto> Regular ''old text'']" "''f''" "''hi''"]
  by (auto simp: files0_def)

text \<open>Reading something that cannot be seeked, such as a pipe with data in it: \<^verbatim>\<open>ftell\<close> reports -1, the
  buffer allocated is of size 0, and \<^verbatim>\<open>fread\<close> writes outside it.\<close>

lemma read_pipe_overflow:
  assumes "f_may_read fs path" "f_node fs path = Some (Special bs (-1))" "bs \<noteq> []"
  shows "read_file_to_string path fs [] = Inl OutOfBounds"
  using assms by (cases bs) (simp_all add: read_file_to_string_def fopen_r_def Let_def c_size_def)

lemma read_pipe_overflow_witness:
  "read_file_to_string ''p'' (files0 [''p'' \<mapsto> Special ''x'' (-1)]) [] = Inl OutOfBounds"
  using read_pipe_overflow [of "files0 [''p'' \<mapsto> Special ''x'' (-1)]" "''p''" "''x''"] by (simp add: files0_def)

section \<open>Listings\<close>

text \<open>An extension is what follows a dot at the end of the name.\<close>

lemma has_extension_iff: "has_extension name ext \<longleftrightarrow> (\<exists>stem. name = stem @ ''.'' @ ext)"
proof
  assume h: "has_extension name ext"
  let ?n = "length name - length ext - 1"
  have n: "length ext < length name" "name ! ?n = CHR ''.''" "drop (length name - length ext) name = ext"
    using h by (auto simp: has_extension_def Let_def split: if_splits)
  have "name = take ?n name @ name ! ?n # drop (Suc ?n) name" using n(1) by (intro id_take_nth_drop) simp
  then have "name = take ?n name @ ''.'' @ ext" using n by (simp add: Suc_diff_Suc)
  then show "\<exists>stem. name = stem @ ''.'' @ ext" by blast
qed (auto simp: has_extension_def Let_def nth_append)

definition listed :: "cstring \<Rightarrow> dirent list \<Rightarrow> cstring list" where
  "listed ext es = filter (\<lambda>n. \<not> dot_name n \<and> has_extension n ext) (map d_name es)"

lemma listed_simps [simp]:
  "listed ext [] = []"
  "listed ext (e # es) = (if \<not> dot_name (d_name e) \<and> has_extension (d_name e) ext then d_name e # listed ext es else listed ext es)"
  by (simp_all add: listed_def)

text \<open>The array: filled up to the capacity, one block for it and one for each name.\<close>

definition array_inv :: "cstring list \<Rightarrow> nat \<Rightarrow> nat \<Rightarrow> bool" where
  "array_inv names capacity live \<longleftrightarrow>
     length names \<le> capacity \<and> (0 < capacity \<longrightarrow> names \<noteq> []) \<and> live = length names + (if capacity = 0 then 0 else 1)"

lemma list_loop_law:
  assumes "array_inv names capacity live"
  shows "\<exists>r live' a'. list_loop ext es names capacity live a = Inr (r, live', a') \<and>
     (case r of
        None \<Rightarrow> live' = 0 \<and> a \<noteq> []
      | Some (names', capacity') \<Rightarrow> names' = names @ listed ext es \<and> array_inv names' capacity' live' \<and> (a = [] \<longrightarrow> a' = []))"
  using assms
proof (induction es arbitrary: names capacity live a)
  case (Cons e es)
  let ?name = "d_name e"
  show ?case
  proof (cases "\<not> dot_name ?name \<and> has_extension ?name ext")
    case False
    then have skip: "list_loop ext (e # es) names capacity live a = list_loop ext es names capacity live a"
      "listed ext (e # es) = listed ext es" by (auto simp: Let_def)
    show ?thesis unfolding skip by (rule Cons.IH [OF Cons.prems])
  next
    case True
    define cap where "cap = (if length names = capacity then if capacity = 0 then 8 else capacity * 2 else capacity)"
    define a1 where "a1 = (if length names = capacity then snd (malloc a) else a)"
    define ok where "ok = (if length names = capacity then fst (malloc a) else True)"
    have c: "length names < cap" "0 < cap" using Cons.prems by (auto simp: cap_def array_inv_def)
    have inv: "array_inv (names @ [?name]) cap (length names + 2)" using c by (simp add: array_inv_def)
    have a1: "a = [] \<Longrightarrow> a1 = []" by (simp add: a1_def)
    have nok: "\<not> ok \<Longrightarrow> a \<noteq> []" by (auto simp: ok_def split: if_splits)
    have step: "list_loop ext (e # es) names capacity live a =
      (if \<not> ok then Inr (None, 0, a1)
       else
         (case strdup ?name a1 of
            (None, a2) \<Rightarrow> Inr (None, 0, a2)
          | (Some copy, a2) \<Rightarrow> list_loop ext es (names @ [copy]) cap (length names + 2) a2))"
      using True Cons.prems c by (auto simp: cap_def a1_def ok_def array_inv_def Let_def split: prod.splits option.splits)
    obtain copy a2 where s: "strdup ?name a1 = (copy, a2)" by (cases "strdup ?name a1")
    have s2: "copy = Some ?name \<or> copy = None \<and> a1 \<noteq> []" "a1 = [] \<Longrightarrow> a2 = []"
      using s by (cases a1; auto simp: strdup_def split: if_splits)+
    have l: "names @ listed ext (e # es) = (names @ [?name]) @ listed ext es" using True by simp
    consider "\<not> ok" | "ok" "copy = None" | "ok" "copy = Some ?name" using s2 by blast
    then show ?thesis
    proof cases
      case 3
      then have e: "list_loop ext (e # es) names capacity live a = list_loop ext es (names @ [?name]) cap (length names + 2) a2"
        using step s by simp
      have "a2 \<noteq> [] \<longrightarrow> a \<noteq> []" using s2(2) a1 by blast
      then show ?thesis unfolding e l using Cons.IH [OF inv, of a2] by (fastforce split: option.splits)
    qed (use step s s2 a1 nok in \<open>auto simp del: list_loop.simps\<close>)
  qed
qed simp

lemma list_filenames_law:
  assumes "opendir path fs = Some es"
  shows "\<exists>g a'. list_filenames_with_ext (Some path) (Some ext) True fs a = Inr (g, a') \<and>
     (lg_names g = None \<and> lg_count g = Some 0 \<and> lg_live g = 0 \<and> a \<noteq> [] \<or>
      lg_names g = Some (listed ext es) \<and> lg_count g = Some (length (listed ext es)) \<and>
      lg_live g = length (listed ext es) + 1 \<and> (a = [] \<longrightarrow> lg_terminated g \<and> a' = []))"
proof -
  have "array_inv [] 0 0" by (simp add: array_inv_def)
  then obtain r live a1 where l: "list_loop ext es [] 0 0 a = Inr (r, live, a1)"
      "case r of None \<Rightarrow> live = 0 \<and> a \<noteq> []
       | Some (names', capacity') \<Rightarrow> names' = [] @ listed ext es \<and> array_inv names' capacity' live \<and> (a = [] \<longrightarrow> a1 = [])"
    using list_loop_law by blast
  show ?thesis
  proof (cases r)
    case None
    then show ?thesis using assms l by (simp add: list_filenames_with_ext_def)
  next
    case (Some nc)
    then obtain cap where nc: "nc = (listed ext es, cap)" "array_inv (listed ext es) cap live" "a = [] \<longrightarrow> a1 = []"
      using l(2) by (cases nc) auto
    obtain ok a2 where m: "malloc a1 = (ok, a2)" by (cases "malloc a1")
    have "a = [] \<Longrightarrow> ok \<and> a2 = []" using m nc(3) by auto
    then show ?thesis
      using assms l(1) Some nc m
      by (auto simp: list_filenames_with_ext_def array_inv_def split: if_splits)
  qed
qed

text \<open>C32: \<^verbatim>\<open>list_filenames_with_ext\<close> under every outcome of its allocations: it never writes outside its array. It
  either returns NULL, with the count 0 and everything it had allocated freed, or exactly the names in the
  directory that end in a dot and the extension, in the order of the directory and with their number,
  holding one block for each and one for the array. With memory granted it returns them, and the array
  ends with NULL.\<close>

theorem list_filenames_exact:
  assumes "opendir path fs = Some es"
  shows "\<exists>g a'. list_filenames_with_ext (Some path) (Some ext) True fs a = Inr (g, a') \<and>
     (lg_names g = None \<and> lg_count g = Some 0 \<and> lg_live g = 0 \<and> a \<noteq> [] \<or>
      lg_names g = Some (listed ext es) \<and> lg_count g = Some (length (listed ext es)) \<and>
      lg_live g = length (listed ext es) + 1 \<and> (a = [] \<longrightarrow> lg_terminated g))"
  using list_filenames_law [OF assms] by blast

theorem list_filenames_exact_witness:
  "\<exists>g a'. list_filenames_with_ext (Some ''d'') (Some ''txt'') True
       (files0 [''d'' \<mapsto> Directory [\<lparr>d_name = ''.'', d_type = DT_DIR\<rparr>, \<lparr>d_name = ''a.txt'', d_type = DT_REG\<rparr>,
          \<lparr>d_name = ''txt'', d_type = DT_REG\<rparr>] 0]) [] = Inr (g, a') \<and>
     lg_names g = Some [''a.txt''] \<and> lg_terminated g"
  using list_filenames_exact [of "''d''" "files0 [''d'' \<mapsto> Directory [\<lparr>d_name = ''.'', d_type = DT_DIR\<rparr>,
      \<lparr>d_name = ''a.txt'', d_type = DT_REG\<rparr>, \<lparr>d_name = ''txt'', d_type = DT_REG\<rparr>] 0]", OF _, of _ "''txt''" "[]"]
  by (auto simp: opendir_def files0_def dot_name_def has_extension_def)

lemma count_loop_law:
  assumes "list_all (\<lambda>e. d_type e \<in> {DT_REG, DT_UNKNOWN} \<or> dot_name (d_name e)) es"
    and "0 \<le> n" "n + int (length es) < 2 ^ 31"
  shows "count_loop (''.'' @ ext) es n = Inr (n + int (length (listed ext es)))"
  using assms
proof (induction es arbitrary: n)
  case (Cons e es)
  let ?name = "d_name e"
  have "length ?name \<ge> length (''.'' @ ext) \<and> drop (length ?name - length (''.'' @ ext)) ?name = ''.'' @ ext \<longleftrightarrow>
      has_extension ?name ext"
    unfolding has_extension_iff by (metis append_take_drop_id append_eq_conv_conj diff_diff_cancel length_append
        add_diff_cancel_right' le_add2)
  then show ?case
    using Cons by (auto simp: Let_def INT_MAX_def)
qed simp

text \<open>The two ways to look for files agree: in a directory of regular files
  \<^verbatim>\<open>count_files_with_extension(dir, ".ext")\<close> returns the number of names
  \<^verbatim>\<open>list_filenames_with_ext(dir, "ext", ..)\<close> lists.\<close>

theorem count_matches_listing:
  assumes "opendir path fs = Some es" "list_all (\<lambda>e. d_type e \<in> {DT_REG, DT_UNKNOWN} \<or> dot_name (d_name e)) es"
    and "length es < 2 ^ 31"
  shows "\<exists>g. list_filenames_with_ext (Some path) (Some ext) True fs [] = Inr (g, []) \<and>
     count_files_with_extension (Some path) (Some (''.'' @ ext)) fs = Inr (int (the (lg_count g)))"
proof -
  obtain g where "list_filenames_with_ext (Some path) (Some ext) True fs [] = Inr (g, [])" "lg_count g = Some (length (listed ext es))"
    using list_filenames_law [OF assms(1), of ext "[]"] by auto
  moreover have "count_loop (''.'' @ ext) es 0 = Inr (int (length (listed ext es)))"
    using count_loop_law [OF assms(2), of 0] assms(3) by simp
  ultimately show ?thesis using assms(1) by (auto simp: count_files_with_extension_def)
qed

theorem count_matches_listing_witness:
  "\<exists>g. list_filenames_with_ext (Some ''d'') (Some ''c'') True (files0 [''d'' \<mapsto> Directory [\<lparr>d_name = ''a.c'', d_type = DT_REG\<rparr>] 0]) [] =
     Inr (g, []) \<and> count_files_with_extension (Some ''d'') (Some ''.c'')
       (files0 [''d'' \<mapsto> Directory [\<lparr>d_name = ''a.c'', d_type = DT_REG\<rparr>] 0]) = Inr (int (the (lg_count g)))"
  using count_matches_listing [of "''d''" "files0 [''d'' \<mapsto> Directory [\<lparr>d_name = ''a.c'', d_type = DT_REG\<rparr>] 0]" _ "''c''"]
  by (simp add: opendir_def files0_def)

section \<open>Directories\<close>

text \<open>\<^verbatim>\<open>create_directory_if_not_exists\<close> returns -1 exactly when nothing is at the path and it may not be
  created, and then changes nothing. Otherwise it returns 0 and something is at the path; that is a
  directory unless another kind of file was there before, which is reported as success too.\<close>

lemma create_directory_result:
  "case create_directory_if_not_exists path fs of (r, fs') \<Rightarrow>
     (r = -1 \<longleftrightarrow> f_node fs path = None \<and> \<not> f_may_write fs path) \<and> (r = 0 \<longleftrightarrow> f_node fs' path \<noteq> None) \<and>
     (r = -1 \<longleftrightarrow> r \<noteq> 0) \<and>
     (directory_exists path fs' \<longleftrightarrow> r = 0 \<and> (f_node fs path = None \<or> directory_exists path fs)) \<and>
     (\<forall>q. q = path \<and> r = 0 \<or> f_node fs' q = f_node fs q)"
  by (auto simp: create_directory_if_not_exists_def directory_exists_def sys_mkdir_def split: option.splits fnode.splits)

end
