(* ===== verification/Curl.thy ===== *)
theory Curl imports String_Utils
begin

text \<open>
  \<^verbatim>\<open>modules/src/curl.c\<close>: a response collected through libcurl.

  libcurl is a parameter: \<^verbatim>\<open>curl_easy_perform\<close> is given the write callback, the URL and the callback's
  state. What the code relies on is its documented contract (\<open>curl_deliver\<close>): the body is handed to the
  callback in pieces, in order, each with \<^verbatim>\<open>size\<close> 1, until the callback returns another number than the
  length of the piece, which ends the transfer with \<^verbatim>\<open>CURLE_WRITE_ERROR\<close>. The number of easy handles in
  use is counted.
\<close>

record Curl_Data =
  cd_addr :: "byte list option"
  cd_size :: int

type_synonym curl_state = "Curl_Data \<times> alloc"

type_synonym curl_perform = "(byte list \<Rightarrow> curl_state \<Rightarrow> (int \<times> curl_state) res) \<Rightarrow> cstring \<Rightarrow> curl_state \<Rightarrow> (int \<times> curl_state) res"

definition curl_init :: "alloc \<Rightarrow> int \<times> Curl_Data \<times> alloc" where
  "curl_init a =
     (case malloc a of (ok, a') \<Rightarrow>
        if \<not> ok then (-1, \<lparr>cd_addr = None, cd_size = 0\<rparr>, a')
        else (0, \<lparr>cd_addr = Some [NUL], cd_size = 0\<rparr>, a'))"

definition curl_callback :: "byte list \<Rightarrow> int \<Rightarrow> int \<Rightarrow> Curl_Data \<Rightarrow> alloc \<Rightarrow> (int \<times> Curl_Data \<times> alloc) res" where
  "curl_callback contents size' nmemb mem a =
     (let realsize = c_size (size' * nmemb) in
      case malloc a of (ok, a') \<Rightarrow>
        if \<not> ok then Inr (0, mem, a')
        else
          let blk = block_realloc (nat (c_size (cd_size mem + realsize + 1))) (cd_addr mem) in
          if int (length contents) < realsize \<or> int (length blk) < cd_size mem + realsize + 1 then Inl OutOfBounds
          else
            let blk1 = block_write blk (nat (cd_size mem)) (take (nat realsize) contents);
                new_size = c_size (cd_size mem + realsize)
            in Inr (realsize, mem\<lparr>cd_addr := Some (blk1[nat new_size := NUL]), cd_size := new_size\<rparr>, a'))"

text \<open>The callback as libcurl calls it.\<close>

definition curl_write :: "byte list \<Rightarrow> curl_state \<Rightarrow> (int \<times> curl_state) res" where
  "curl_write chunk st = (case st of (mem, a) \<Rightarrow> curl_callback chunk 1 (int (length chunk)) mem a)"

definition CURLE_OK :: int where "CURLE_OK = 0"
definition CURLE_WRITE_ERROR :: int where "CURLE_WRITE_ERROR = 23"

text \<open>The code, the data, the allocator and the handles in use; the flag says whether \<^verbatim>\<open>curl_easy_init\<close> gives a
  handle.\<close>

definition curl_get_response ::
  "curl_perform \<Rightarrow> bool \<Rightarrow> Curl_Data \<Rightarrow> cstring \<Rightarrow> alloc \<Rightarrow> nat \<Rightarrow> (int \<times> Curl_Data \<times> alloc \<times> nat) res" where
  "curl_get_response perform handle mem url a handles =
     (let mem0 = mem\<lparr>cd_size := 0\<rparr> in
      if \<not> handle then Inr (-1, mem0, a, handles)
      else
        res_bind (perform curl_write url (mem0, a)) (\<lambda>(r, mem', a').
        if r \<noteq> CURLE_OK then Inr (-1, mem', a', handles + 1)
        else Inr (0, mem', a', handles)))"

definition curl_dispose :: "Curl_Data \<Rightarrow> Curl_Data" where
  "curl_dispose mem = (if cd_addr mem \<noteq> None then mem\<lparr>cd_addr := None\<rparr> else mem)"

section \<open>The contract of libcurl\<close>

primrec curl_deliver :: "(byte list \<Rightarrow> 's \<Rightarrow> (int \<times> 's) res) \<Rightarrow> byte list list \<Rightarrow> int \<Rightarrow> 's \<Rightarrow> (int \<times> 's) res" where
  "curl_deliver cb [] code st = Inr (code, st)"
| "curl_deliver cb (c # cs) code st =
     res_bind (cb c st) (\<lambda>(n, st'). if n \<noteq> int (length c) then Inr (CURLE_WRITE_ERROR, st') else curl_deliver cb cs code st')"

section \<open>Facts\<close>

text \<open>The data: a block that holds at least the bytes received.\<close>

definition curl_holds :: "Curl_Data \<Rightarrow> byte list \<Rightarrow> bool" where
  "curl_holds mem bs \<longleftrightarrow> cd_size mem = int (length bs) \<and> take (length bs) (block_bytes (cd_addr mem)) = bs"

lemma curl_callback_granted:
  assumes "curl_holds mem bs" "malloc a = (True, a')" "length bs + length c < 2 ^ 62"
  shows "\<exists>mem'. curl_write c (mem, a) = Inr (int (length c), mem', a') \<and> curl_holds mem' (bs @ c) \<and>
     (\<exists>blk. cd_addr mem' = Some blk \<and> blk ! length (bs @ c) = NUL \<and> length blk = length (bs @ c) + 1)"
proof -
  let ?n = "length bs" and ?k = "length c"
  have h: "cd_size mem = int ?n" "take ?n (block_bytes (cd_addr mem)) = bs" using assms(1) by (simp_all add: curl_holds_def)
  have le: "?n \<le> length (block_bytes (cd_addr mem))" using h(2) by (metis length_take min.cobounded1 min_def nat_le_linear)
  have small: "int ?n + int ?k + 1 < 2 ^ 64" "int ?n + int ?k < 2 ^ 64" "int ?k < 2 ^ 64" using assms(3) by simp_all
  then have cs: "c_size (int ?k) = int ?k" "c_size (int ?n + int ?k + 1) = int ?n + int ?k + 1" "c_size (int ?n + int ?k) = int ?n + int ?k"
    by (simp_all add: c_size_id)
  define blk where "blk = block_realloc (?n + ?k + 1) (cd_addr mem)"
  have blk: "length blk = ?n + ?k + 1" "take ?n blk = bs"
    using h(2) le by (simp_all add: blk_def block_realloc_def)
  have nat: "nat (int ?n + int ?k + 1) = ?n + ?k + 1" "nat (int ?n + int ?k) = ?n + ?k" by simp_all
  let ?b = "(block_write blk ?n c)[?n + ?k := NUL]"
  have "curl_write c (mem, a) = Inr (int ?k, mem\<lparr>cd_addr := Some ?b, cd_size := int ?n + int ?k\<rparr>, a')"
    using assms(2) blk(1) by (simp add: curl_write_def curl_callback_def Let_def h(1) cs nat blk_def [symmetric] del: One_nat_def)
  moreover have "length ?b = ?n + ?k + 1" "take (?n + ?k) ?b = bs @ c"
    using blk by (simp_all add: block_write_def)
  ultimately show ?thesis by (auto simp: curl_holds_def block_bytes_def)
qed

lemma curl_deliver_law:
  assumes "curl_holds mem bs" "length (bs @ concat cs) < 2 ^ 62"
  shows "\<exists>mem' a' k. curl_deliver curl_write cs code (mem, a) =
       Inr (if k = length cs then code else CURLE_WRITE_ERROR, mem', a') \<and> k \<le> length cs \<and>
     curl_holds mem' (bs @ concat (take k cs)) \<and> (a = [] \<longrightarrow> k = length cs)"
  using assms
proof (induction cs arbitrary: mem bs a)
  case Nil
  then show ?case by auto
next
  case (Cons c cs)
  obtain ok a' where m: "malloc a = (ok, a')" by (cases "malloc a")
  show ?case
  proof (cases "ok \<or> c = []")
    case True
    have "\<exists>mem'. curl_write c (mem, a) = Inr (int (length c), mem', a') \<and> curl_holds mem' (bs @ c)"
    proof (cases ok)
      case True
      then show ?thesis using curl_callback_granted [OF Cons.prems(1), of a a' c] m Cons.prems(2) by auto
    next
      case False
      then show ?thesis using True Cons.prems(1) m by (simp add: curl_write_def curl_callback_def c_size_def)
    qed
    then obtain mem' where w: "curl_write c (mem, a) = Inr (int (length c), mem', a')" "curl_holds mem' (bs @ c)" by blast
    have "length ((bs @ c) @ concat cs) < 2 ^ 62" using Cons.prems(2) by simp
    from Cons.IH [OF w(2) this, of a'] obtain mem2 a2 k where IH:
        "curl_deliver curl_write cs code (mem', a') = Inr (if k = length cs then code else CURLE_WRITE_ERROR, mem2, a2)"
        "k \<le> length cs" "curl_holds mem2 ((bs @ c) @ concat (take k cs))" "a' = [] \<longrightarrow> k = length cs" by blast
    moreover have "a = [] \<longrightarrow> a' = []" using m by auto
    ultimately show ?thesis
      using w(1) by (intro exI [of _ mem2] exI [of _ a2] exI [of _ "Suc k"]) auto
  next
    case False
    then have "curl_write c (mem, a) = Inr (0, mem, a')" using m by (simp add: curl_write_def curl_callback_def Let_def)
    moreover have "a \<noteq> []" using False m by auto
    ultimately show ?thesis
      using False Cons.prems(1) by (intro exI [of _ mem] exI [of _ a'] exI [of _ 0]) simp
  qed
qed

text \<open>C35: Fetching through libcurl. Whatever pieces libcurl delivers and whatever the allocations do,
  \<^verbatim>\<open>curl_get_response\<close> never writes outside its block; the data always holds exactly the pieces accepted so
  far, in order; it returns 0 exactly when the transfer succeeded with every piece accepted, which is so
  whenever memory is granted, and -1 otherwise; and every transfer that fails leaves its easy handle
  unreleased.\<close>

theorem curl_response_exact:
  fixes perform :: curl_perform
  assumes contract: "\<forall>cb st. perform cb url st = curl_deliver cb cs code st" and "length (concat cs) < 2 ^ 62"
  shows "\<exists>r mem' a' k. curl_get_response perform True mem url a handles =
       Inr (r, mem', a', if r = 0 then handles else handles + 1) \<and>
     curl_holds mem' (concat (take k cs)) \<and> (r = 0 \<longleftrightarrow> k \<ge> length cs \<and> code = CURLE_OK) \<and> (r = 0 \<or> r = -1) \<and>
     (a = [] \<longrightarrow> k = length cs)"
proof -
  have "curl_holds (mem\<lparr>cd_size := 0\<rparr>) []" by (simp add: curl_holds_def)
  from curl_deliver_law [OF this, of cs code a] assms(2) obtain mem' a' k where
      "curl_deliver curl_write cs code (mem\<lparr>cd_size := 0\<rparr>, a) = Inr (if k = length cs then code else CURLE_WRITE_ERROR, mem', a')"
      "k \<le> length cs" "curl_holds mem' (concat (take k cs))" "a = [] \<longrightarrow> k = length cs" by auto
  then show ?thesis
    using contract
    by (intro exI [of _ "if k = length cs \<and> code = CURLE_OK then 0 else -1"] exI [of _ mem'] exI [of _ a'] exI [of _ k])
      (auto simp: curl_get_response_def CURLE_OK_def CURLE_WRITE_ERROR_def)
qed

theorem curl_response_exact_witness:
  "\<exists>mem'. curl_get_response (\<lambda>cb url st. curl_deliver cb [''ab'', ''c''] 0 st) True \<lparr>cd_addr = None, cd_size = 0\<rparr> ''u'' [] 0 =
     Inr (0, mem', [], 0) \<and> curl_holds mem' ''abc''"
proof -
  obtain r mem' a' k where g: "curl_get_response (\<lambda>cb url st. curl_deliver cb [''ab'', ''c''] 0 st) True \<lparr>cd_addr = None, cd_size = 0\<rparr> ''u'' [] 0 =
       Inr (r, mem', a', if r = 0 then 0 else 0 + 1)" "curl_holds mem' (concat (take k [''ab'', ''c'']))"
      "r = 0 \<longleftrightarrow> k \<ge> 2 \<and> (0 :: int) = CURLE_OK" "k = 2"
    using curl_response_exact [of "\<lambda>cb url st. curl_deliver cb [''ab'', ''c''] 0 st" "''u''" "[''ab'', ''c'']" 0
        "\<lparr>cd_addr = None, cd_size = 0\<rparr>" "[]" 0] by auto
  moreover have "a' = []"
    using g(1) by (auto simp: curl_get_response_def curl_write_def curl_callback_def Let_def split: if_splits)
  ultimately show ?thesis by (auto simp: CURLE_OK_def)
qed

end
