(* ===== verification/Json_Utils.thy ===== *)
theory Json_Utils imports Prelude
begin

text \<open>
  \<^verbatim>\<open>utils/src/json_utils.c\<close>: access to the members of a JSON object with a fallback.

  cJSON is a parameter (record \<open>cjson\<close>): lookup by name, the type tests, the values of a node and the
  two functions that add a member, which say whether they could (they return NULL if not); \<open>'j\<close> is the type of nodes, \<open>'d\<close> that
  of doubles. \<open>cjson_ok\<close> states what its documentation says of them: an added member goes behind the others and lookup
  finds the first of a name, a number node keeps its value, also as an int, and a failed addition changes
  nothing. The setters ignore the result.
\<close>

record ('j, 'd) cjson =
  cj_get :: "'j \<Rightarrow> cstring \<Rightarrow> 'j option"
  cj_is_number :: "'j \<Rightarrow> bool"
  cj_is_string :: "'j \<Rightarrow> bool"
  cj_valuedouble :: "'j \<Rightarrow> 'd"
  cj_valueint :: "'j \<Rightarrow> int"
  cj_valuestring :: "'j \<Rightarrow> cstring"
  cj_add_number :: "'j \<Rightarrow> cstring \<Rightarrow> 'd \<Rightarrow> bool \<times> 'j"
  cj_add_string :: "'j \<Rightarrow> cstring \<Rightarrow> cstring \<Rightarrow> bool \<times> 'j"
  cj_of_int :: "int \<Rightarrow> 'd"

text \<open>\<^verbatim>\<open>cJSON_IsNumber\<close> and \<^verbatim>\<open>cJSON_IsString\<close> are false on NULL; so a missing member gives the fallback.\<close>

definition json_get_double :: "('j, 'd) cjson \<Rightarrow> 'j \<Rightarrow> cstring \<Rightarrow> 'd" where
  "json_get_double cj root name =
     (case cj_get cj root name of
        None \<Rightarrow> cj_of_int cj 0
      | Some field \<Rightarrow> if \<not> cj_is_number cj field then cj_of_int cj 0 else cj_valuedouble cj field)"

definition json_get_string :: "('j, 'd) cjson \<Rightarrow> 'j \<Rightarrow> cstring \<Rightarrow> cstring" where
  "json_get_string cj root name =
     (case cj_get cj root name of
        None \<Rightarrow> ''Unknown''
      | Some field \<Rightarrow> if \<not> cj_is_string cj field then ''Unknown'' else cj_valuestring cj field)"

definition json_get_int :: "('j, 'd) cjson \<Rightarrow> 'j \<Rightarrow> cstring \<Rightarrow> int" where
  "json_get_int cj root name =
     (case cj_get cj root name of
        None \<Rightarrow> 0
      | Some field \<Rightarrow> if \<not> cj_is_number cj field then 0 else cj_valueint cj field)"

definition json_set_int :: "('j, 'd) cjson \<Rightarrow> 'j \<Rightarrow> cstring option \<Rightarrow> int \<Rightarrow> 'j" where
  "json_set_int cj json key val = (case key of None \<Rightarrow> json | Some k \<Rightarrow> snd (cj_add_number cj json k (cj_of_int cj val)))"

definition json_set_double :: "('j, 'd) cjson \<Rightarrow> 'j \<Rightarrow> cstring option \<Rightarrow> 'd \<Rightarrow> 'j" where
  "json_set_double cj json key val = (case key of None \<Rightarrow> json | Some k \<Rightarrow> snd (cj_add_number cj json k val))"

definition json_set_string :: "('j, 'd) cjson \<Rightarrow> 'j \<Rightarrow> cstring option \<Rightarrow> cstring option \<Rightarrow> 'j" where
  "json_set_string cj json key val =
     (case (key, val) of (Some k, Some v) \<Rightarrow> snd (cj_add_string cj json k v) | _ \<Rightarrow> json)"

section \<open>The contract of cJSON\<close>

text \<open>What lookup finds in an object \<open>j'\<close> after an addition of the node \<open>n\<close> to \<open>j\<close>.\<close>

definition added :: "('j, 'd) cjson \<Rightarrow> 'j \<Rightarrow> cstring \<Rightarrow> bool \<Rightarrow> 'j \<Rightarrow> 'j \<Rightarrow> bool" where
  "added cj j k ok n j' \<longleftrightarrow>
     (\<forall>k'. cj_get cj j' k' =
        (case cj_get cj j k' of None \<Rightarrow> if ok \<and> k' = k then Some n else None | Some old \<Rightarrow> Some old))"

definition cjson_ok :: "('j, 'd) cjson \<Rightarrow> bool" where
  "cjson_ok cj \<longleftrightarrow>
     (\<forall>j k d ok j'. cj_add_number cj j k d = (ok, j') \<longrightarrow>
        (\<exists>n. cj_is_number cj n \<and> cj_valuedouble cj n = d \<and>
           (\<forall>v. d = cj_of_int cj v \<and> - (2 ^ 31) \<le> v \<and> v < 2 ^ 31 \<longrightarrow> cj_valueint cj n = v) \<and> added cj j k ok n j')) \<and>
     (\<forall>j k s ok j'. cj_add_string cj j k s = (ok, j') \<longrightarrow>
        (\<exists>n. cj_is_string cj n \<and> cj_valuestring cj n = s \<and> added cj j k ok n j'))"

section \<open>Setting and getting\<close>

text \<open>A member set in an object that does not have it yet is read back, or, when cJSON has no memory for it, its fallback,
  without a sign of the failure. A member that exists already is not replaced: every getter keeps returning the old
  value.\<close>

lemma json_set_get_int:
  assumes "cjson_ok cj" "- (2 ^ 31) \<le> v" "v < 2 ^ 31"
  shows "json_get_int cj (json_set_int cj j (Some k) v) k' =
     (if k' = k \<and> cj_get cj j k = None then if fst (cj_add_number cj j k (cj_of_int cj v)) then v else 0
      else json_get_int cj j k')"
proof -
  obtain ok j' where a: "cj_add_number cj j k (cj_of_int cj v) = (ok, j')" by (cases "cj_add_number cj j k (cj_of_int cj v)")
  then obtain n where "cj_is_number cj n" "cj_valueint cj n = v" "added cj j k ok n j'"
    using assms unfolding cjson_ok_def by blast
  then show ?thesis using a by (auto simp: json_get_int_def json_set_int_def added_def split: option.splits)
qed

lemma json_set_get_double:
  assumes "cjson_ok cj"
  shows "json_get_double cj (json_set_double cj j (Some k) d) k' =
     (if k' = k \<and> cj_get cj j k = None then if fst (cj_add_number cj j k d) then d else cj_of_int cj 0
      else json_get_double cj j k')"
proof -
  obtain ok j' where a: "cj_add_number cj j k d = (ok, j')" by (cases "cj_add_number cj j k d")
  then obtain n where "cj_is_number cj n" "cj_valuedouble cj n = d" "added cj j k ok n j'"
    using assms unfolding cjson_ok_def by meson
  then show ?thesis using a by (auto simp: json_get_double_def json_set_double_def added_def split: option.splits)
qed

lemma json_set_get_string:
  assumes "cjson_ok cj"
  shows "json_get_string cj (json_set_string cj j (Some k) (Some s)) k' =
     (if k' = k \<and> cj_get cj j k = None then if fst (cj_add_string cj j k s) then s else ''Unknown''
      else json_get_string cj j k')"
proof -
  obtain ok j' where a: "cj_add_string cj j k s = (ok, j')" by (cases "cj_add_string cj j k s")
  then obtain n where "cj_is_string cj n" "cj_valuestring cj n = s" "added cj j k ok n j'"
    using assms unfolding cjson_ok_def by meson
  then show ?thesis using a by (auto simp: json_get_string_def json_set_string_def added_def split: option.splits)
qed

text \<open>A small instance of the contract: objects as association lists, additions to anything else fail.\<close>

datatype jnode = JNum int | JStr cstring | JObj "(cstring \<times> jnode) list"

definition jlib :: "(jnode, int) cjson" where
  "jlib = \<lparr>cj_get = (\<lambda>j k. case j of JObj ms \<Rightarrow> map_of ms k | _ \<Rightarrow> None),
     cj_is_number = (\<lambda>j. case j of JNum _ \<Rightarrow> True | _ \<Rightarrow> False), cj_is_string = (\<lambda>j. case j of JStr _ \<Rightarrow> True | _ \<Rightarrow> False),
     cj_valuedouble = (\<lambda>j. case j of JNum n \<Rightarrow> n | _ \<Rightarrow> 0), cj_valueint = (\<lambda>j. case j of JNum n \<Rightarrow> n | _ \<Rightarrow> 0),
     cj_valuestring = (\<lambda>j. case j of JStr s \<Rightarrow> s | _ \<Rightarrow> []),
     cj_add_number = (\<lambda>j k d. case j of JObj ms \<Rightarrow> (True, JObj (ms @ [(k, JNum d)])) | _ \<Rightarrow> (False, j)),
     cj_add_string = (\<lambda>j k s. case j of JObj ms \<Rightarrow> (True, JObj (ms @ [(k, JStr s)])) | _ \<Rightarrow> (False, j)),
     cj_of_int = (\<lambda>n. n)\<rparr>"

lemma jlib_ok: "cjson_ok jlib"
  unfolding cjson_ok_def
proof (intro conjI allI impI)
  fix j k d ok j' assume "cj_add_number jlib j k d = (ok, j')"
  then show "\<exists>n. cj_is_number jlib n \<and> cj_valuedouble jlib n = d \<and>
      (\<forall>v. d = cj_of_int jlib v \<and> - (2 ^ 31) \<le> v \<and> v < 2 ^ 31 \<longrightarrow> cj_valueint jlib n = v) \<and> added jlib j k ok n j'"
    by (intro exI [of _ "JNum d"]) (auto simp: jlib_def added_def map_add_def split: jnode.splits option.splits)
next
  fix j k s ok j' assume "cj_add_string jlib j k s = (ok, j')"
  then show "\<exists>n. cj_is_string jlib n \<and> cj_valuestring jlib n = s \<and> added jlib j k ok n j'"
    by (intro exI [of _ "JStr s"]) (auto simp: jlib_def added_def map_add_def split: jnode.splits option.splits)
qed

end
