(* ===== verification/Header_Utils.thy ===== *)
theory Header_Utils imports Prelude
begin

text \<open>
  The header-only utilities \<^verbatim>\<open>math_utils.h\<close> (averages) and \<^verbatim>\<open>signal_handler.h\<close> (installing signal
  handlers). Floating-point arithmetic is a parameter of the two averages that use it.
\<close>

section \<open>Averages (math_utils.h)\<close>

text \<open>The array has at least \<open>count\<close> elements where the call is defined; the sum is an \<^verbatim>\<open>int\<close>.\<close>

primrec sum_int :: "int list \<Rightarrow> int \<Rightarrow> int res" where
  "sum_int [] counter = Inr counter"
| "sum_int (x # xs) counter =
     (if counter + x < INT_MIN \<or> counter + x > INT_MAX then Inl SignedOverflow else sum_int xs (counter + x))"

definition math_get_avg_int :: "int list option \<Rightarrow> int \<Rightarrow> int res" where
  "math_get_avg_int inputs count =
     (case inputs of
        None \<Rightarrow> Inr 0
      | Some xs \<Rightarrow>
          if count \<le> 0 then Inr 0
          else if int (length xs) < count then Inl OutOfBounds
          else res_bind (sum_int (take (nat count) xs) 0) (\<lambda>counter. Inr (c_div counter count)))"

record 'd float_ops =
  fo_zero :: 'd
  fo_add :: "'d \<Rightarrow> 'd \<Rightarrow> 'd"
  fo_div :: "'d \<Rightarrow> 'd \<Rightarrow> 'd"
  fo_of_int :: "int \<Rightarrow> 'd"

definition math_get_avg_double :: "'d float_ops \<Rightarrow> 'd list option \<Rightarrow> int \<Rightarrow> 'd res" where
  "math_get_avg_double fo inputs count =
     (case inputs of
        None \<Rightarrow> Inr (fo_zero fo)
      | Some xs \<Rightarrow>
          if count \<le> 0 then Inr (fo_zero fo)
          else if int (length xs) < count then Inl OutOfBounds
          else Inr (fo_div fo (foldl (fo_add fo) (fo_zero fo) (take (nat count) xs)) (fo_of_int fo count)))"

text \<open>The float version computes the same way at its width, and prints what it adds.\<close>

definition math_get_avg_float :: "'d float_ops \<Rightarrow> 'd list option \<Rightarrow> int \<Rightarrow> ('d \<times> 'd list) res" where
  "math_get_avg_float fo inputs count =
     (case inputs of
        None \<Rightarrow> Inr (fo_zero fo, [])
      | Some xs \<Rightarrow>
          if count \<le> 0 then Inr (fo_zero fo, [])
          else if int (length xs) < count then Inl OutOfBounds
          else
            (let counter = foldl (fo_add fo) (fo_zero fo) (take (nat count) xs) in
             Inr (fo_div fo counter (fo_of_int fo count), take (nat count) xs @ [counter])))"

lemma sum_int_law:
  assumes "\<forall>k \<le> length xs. INT_MIN \<le> c + sum_list (take k xs) \<and> c + sum_list (take k xs) \<le> INT_MAX"
  shows "sum_int xs c = Inr (c + sum_list xs)"
  using assms
proof (induction xs arbitrary: c)
  case (Cons x xs)
  have "INT_MIN \<le> c + x" "c + x \<le> INT_MAX" using Cons.prems [rule_format, of 1] by simp_all
  moreover have "\<forall>k \<le> length xs. INT_MIN \<le> c + x + sum_list (take k xs) \<and> c + x + sum_list (take k xs) \<le> INT_MAX"
    using Cons.prems by (fastforce simp: add.assoc dest: spec [of _ "Suc _"])
  ultimately show ?case using Cons.IH [of "c + x"] by (simp add: add.assoc)
qed simp

lemma c_div_between:
  assumes "lo * n \<le> s" "s \<le> hi * n" "0 < n"
  shows "lo \<le> c_div s n" "c_div s n \<le> hi"
proof -
  have d: "c_div s n = (if s \<ge> 0 then s div n else - ((- s) div n))"
    using assms(3) by (cases "s = 0") (auto simp: c_div_def sgn_if abs_if)
  have q: "(x * n) div n = x" for x :: int using assms(3) by simp
  show "lo \<le> c_div s n"
  proof (cases "s \<ge> 0")
    case True
    then show ?thesis using assms(1,3) by (simp add: d pos_imp_zdiv_nonneg_iff zdiv_mono1 [of "lo * n" s n, simplified])
  next
    case False
    have "(- s) div n \<le> ((- lo) * n) div n" using assms(1,3) by (intro zdiv_mono1) simp_all
    then show ?thesis using False q [of "- lo"] by (simp only: d) simp
  qed
  show "c_div s n \<le> hi"
  proof (cases "s \<ge> 0")
    case True
    then show ?thesis using zdiv_mono1 [OF assms(2,3)] assms(3) by (simp add: d)
  next
    case False
    have "((- hi) * n) div n \<le> (- s) div n" using assms(2,3) by (intro zdiv_mono1) simp_all
    then show ?thesis using False q [of "- hi"] by (simp only: d) simp
  qed
qed

text \<open>The average of values whose partial sums fit an \<^verbatim>\<open>int\<close> lies between their bounds.\<close>

lemma avg_int_between:
  assumes "xs \<noteq> []" "\<forall>x \<in> set xs. lo \<le> x \<and> x \<le> hi"
    and "\<forall>k \<le> length xs. INT_MIN \<le> sum_list (take k xs) \<and> sum_list (take k xs) \<le> INT_MAX"
  shows "\<exists>m. math_get_avg_int (Some xs) (int (length xs)) = Inr m \<and> lo \<le> m \<and> m \<le> hi"
proof -
  have "lo * int (length xs) \<le> sum_list xs" "sum_list xs \<le> hi * int (length xs)"
    using assms(2) by (induction xs) (auto simp: algebra_simps)
  then show ?thesis
    using c_div_between [of lo "int (length xs)" "sum_list xs" hi] assms(1) sum_int_law [of xs 0] assms(3)
    by (simp add: math_get_avg_int_def)
qed

section \<open>Signal handlers (signal_handler.h)\<close>

record Signal_Wrapper =
  sw_flag :: nat
  sw_handler :: nat
  sw_sig :: int

text \<open>\<^verbatim>\<open>sigaction\<close> with an empty mask and \<^verbatim>\<open>SA_RESTART\<close>; the parameter says for which signals it succeeds. The
  result is the table of handlers and whether the process has exited.\<close>

primrec signal_handlers_install :: "(int \<Rightarrow> bool) \<Rightarrow> Signal_Wrapper list \<Rightarrow> (int \<rightharpoonup> nat) \<Rightarrow> (int \<rightharpoonup> nat) \<times> bool" where
  "signal_handlers_install ok [] table = (table, False)"
| "signal_handlers_install ok (s # ss) table =
     (if \<not> ok (sw_sig s) then (table, True)
      else signal_handlers_install ok ss (table(sw_sig s \<mapsto> sw_handler s)))"

text \<open>When the call returns every signal has the handler of its last entry; a signal that is refused ends the
  process.\<close>

lemma signals_installed:
  "signal_handlers_install ok ss table =
     (if list_all (ok \<circ> sw_sig) ss then (table ++ map_of (rev (map (\<lambda>s. (sw_sig s, sw_handler s)) ss)), False)
      else (table ++ map_of (rev (map (\<lambda>s. (sw_sig s, sw_handler s)) (takeWhile (ok \<circ> sw_sig) ss))), True))"
  by (induction ss arbitrary: table) auto

end
