(* ===== verification/Spec2Isabelle.thy ===== *)
theory Spec2Isabelle
  imports Demo TLS_Stream HTTP_Clients Iso_Time Thread_Pool Config_Handler File_Utils Curl Json_Utils
    Header_Utils
begin

text \<open>
  MaestroCore: a verification development.

  MaestroCore is a C library for small network programs. At its centre is an HTTP(S) client that runs either inside of a
  cooperative scheduler, one unit of work per call, or in a blocking loop. Around it are a parser for HTTP, a linked
  list, a thread pool, a wrapper for libcurl and utilities for files, logs, settings, JSON, strings and dates. All paths
  below are relative to \<^verbatim>\<open>src/\<close>.

  \<^bold>\<open>How C is read.\<close> \<open>Prelude\<close> holds the vocabulary. Undefined behaviour is a value of its own (\<open>fault f\<close>, with \<open>f\<close> one
  of NULL dereference, access out of bounds, use after free, signed overflow and so on) and never a result, so that a theorem that
  a call returns \<open>ret r\<close> says that nothing undefined happens in it. A call that never returns is \<open>None\<close>. Every
  allocation takes its outcome from a script the theorems quantify over, and so does every system call
  (\<open>World\<close>): what the peers send in any segmentation, refused connections, interrupted and short writes, readings of the
  clock. Integers are kept at their widths (\<open>c_int\<close>, \<open>c_size\<close>, \<open>c_ssize\<close>, words) wherever the sources convert or
  overflow them. A pointer that may be NULL is an \<open>option\<close>, a heap block the list of its bytes, an out-parameter is returned.

  \<^bold>\<open>The parts.\<close>

  \<^item> \<^verbatim>\<open>modules/src/linked_list.c\<close> (\<open>Linked_List\<close>): the nodes and pointers of the doubly linked list. A refinement
    shows that every sequence of operations shows the abstract list; the locale \<open>item_list\<close> is what its clients
    (headers, query parameters, the queue of the thread pool) rely on, interpreted on the operations.
  \<^item> \<^verbatim>\<open>utils/src/string_utils.c\<close> (\<open>String_Utils\<close>) and \<^verbatim>\<open>utils/src/HTTPStatusCodes.c\<close> (\<open>HTTP_Status\<close>): numbers, the growing
    buffer, status codes and phrases.
  \<^item> \<^verbatim>\<open>modules/src/http_parser.c\<close> (\<open>HTTP_Parser\<close>): request line, status line, header block, URLs, lookup, disposal. The
    lemmas are memory safety on all inputs and allocations, round trips with the printed forms, the bounds of the URL arrays.
  \<^item> \<^verbatim>\<open>modules/src/tcp_client.c\<close> (\<open>TCP_Client\<close>), \<^verbatim>\<open>tls_client.c\<close> and \<^verbatim>\<open>tls_global_ca.c\<close> (\<open>TLS_Client\<close>), \<^verbatim>\<open>transport.c\<close>
    (\<open>Transport\<close>): connections. No descriptor leaks, a write sends a prefix, a TLS client verifies its peer.
  \<^item> \<^verbatim>\<open>modules/src/scheduler.c\<close> (\<open>Scheduler\<close>): the task table, over any callbacks. The locale \<open>task_table\<close> is what a
    pass asks of the tasks to return, \<open>task_order\<close> what it asks to call each of them once and in order; both are
    interpreted on the callback of the client in \<open>HTTP_Clients\<close>, which destroys its own task.
  \<^item> \<^verbatim>\<open>modules/src/http_client.c\<close> (\<open>HTTP_Client\<close>): the record \<open>HTTP_Client\<close>, one definition per state function
    \<^verbatim>\<open>http_client_worktask_*\<close>, the entry points of the scheduler and the blocking interface with its loop.
  \<^item> \<^verbatim>\<open>modules/src/thread_pool.c\<close> (\<open>Thread_Pool\<close>): the threads together as a step relation over critical sections, with
    an invariant of the reachable states, progress, and two ways in which it can get stuck.
  \<^item> \<^verbatim>\<open>modules/src/curl.c\<close> (\<open>Curl\<close>), \<^verbatim>\<open>utils/src/config_handler.c\<close> (\<open>Config_Handler\<close>), \<^verbatim>\<open>file_utils.c\<close> (\<open>File_Utils\<close>),
    \<^verbatim>\<open>file_logging.c\<close> (\<open>File_Logging\<close>), \<^verbatim>\<open>json_utils.c\<close> (\<open>Json_Utils\<close>), \<^verbatim>\<open>time_utils.c\<close> (\<open>Time_Utils\<close>, \<open>Calendar\<close>, \<open>Iso_Time\<close>),
    \<^verbatim>\<open>math_utils.h\<close> and \<^verbatim>\<open>signal_handler.h\<close> (\<open>Header_Utils\<close>). \<open>Files\<close> is the file system they see.
  \<^item> \<^verbatim>\<open>manual_http_simple_filelog.c\<close> (\<open>Demo\<close>): the program that fetches pages in both ways and writes them to files.

  \<^bold>\<open>What is shown of the client.\<close> Its proofs are spread over several theories, from the parts to the whole:

  \<^item> \<open>HTTP_Stream\<close>: the contract \<open>byte_stream\<close> between the client and its transport (a read fails and loses nothing,
    reports the end, or returns the next bytes), interpreted on plain TCP; runs of the task (\<open>task_run\<close>);
  \<^item> \<open>HTTP_Request\<close>: the text of the request and its partial writes; \<open>HTTP_Chunked\<close>: chunked bodies;
    \<open>HTTP_Response\<close>: status line, headers, bodies of known length and whole responses, over any byte stream;
  \<^item> \<open>TLS_Stream\<close>: TLS meets the contract as well, given what Mbed TLS documents, hence responses over HTTPS;
  \<^item> \<open>HTTP_Safety\<close>: a server that sends anything at all; the type invariant of the client and the only causes of a fault;
  \<^item> \<open>HTTP_Progress\<close>, \<open>HTTP_Blocking\<close>: the blocking calls come to an end; \<open>HTTP_Exchange\<close>: a whole blocking exchange;
  \<^item> \<open>HTTP_Clients\<close>: any number of clients in one scheduler, each on its own connection;
  \<^item> \<open>HTTP_Tasks\<close> and \<open>Demo\<close>: a whole exchange through the scheduler, from \<^verbatim>\<open>http_client_initiate\<close> to the file.

  The theorems that a response is handed out exactly are about responses with a body that is not empty, announced by
  Content-Length or sent in one chunk or more without trailer fields (\<open>announces\<close>). They say that a run hands out this body or
  nothing, and the body whenever it succeeds. Runs that fail although the server did everything right exist: a chunked body whose
  terminator is cut by a read ends in an error, and \<open>HTTP_Chunked\<close> shows that every other segmentation (into pieces that one read takes)
  is delivered. A chunked body without chunks is handed out as what follows it in the buffer; responses with trailer fields
  are covered by the safety theorems only.

  \<^bold>\<open>Bounds and loops.\<close> The theorems on received data hold for fewer than 2^31 bytes in all, the range in which the sources'
  conversions to \<^verbatim>\<open>int\<close> are exact; beyond it the line and header searches return wrapped positions. A loop that may not
  end is a \<^theory_text>\<open>partial_function\<close> into \<open>option\<close>, without fuel, and theorems that a call returns prove \<open>Some\<close>; the termination
  measures are the bytes still to be read, consumed or sent. The blocking calls are shown to end for peers that close
  their connection: \<^verbatim>\<open>recv\<close> on a blocking socket waits for a silent peer. The arrays of the sources (512 bytes for a line of
  settings, 48 for a chunk size, the parts of a URL) are kept, and writing outside of one is a fault. The size of the
  task table is a macro a build may set; the theorems hold for every size. The counter of query parameters is an
  \<^verbatim>\<open>int\<close> whose overflow is a fault; the counter of send retries is left unbounded, 2^31 sends in a row without a byte being out of
  reach. The thread pool is used by its tasks only once \<^verbatim>\<open>tp_dispose\<close> has been called.

  \<^bold>\<open>Parameters.\<close> Code that is not in the repository is an argument: Mbed TLS (record \<open>mbedtls\<close>; \<open>ssl_reads\<close> states what is
  documented of \<^verbatim>\<open>mbedtls_ssl_read\<close>), libcurl (\<open>curl_deliver\<close>), cJSON (\<open>cjson_ok\<close>), and of the C library the local
  time zone, \<^verbatim>\<open>strtod\<close> and floating-point addition and division. The success callback of a client and the functions of a
  thread pool's tasks are application code: their calls are recorded with their arguments.

  \<^bold>\<open>Not modelled.\<close> \<^verbatim>\<open>modules/src/tls_ca_bundle.c\<close> is generated data, the text of the root certificates;
  \<^verbatim>\<open>tls_config.h\<close> holds macros that configure Mbed TLS. The Windows branches of the utilities are left out, and so is what
  the sources print on the standard streams, except by the logger. The two \<^verbatim>\<open>transport_bio_*\<close> functions of the
  demonstration program are unused copies of those of \<^verbatim>\<open>transport.c\<close>. Two streams open on the same file
  at once, which the demonstration program has only for prefixes that leave no room for the suffixes, are not told apart.
\<close>

end
